(* ===== verification/Prelude.thy ===== *)
theory Prelude
  imports Main "HOL-Library.Monad_Syntax" "HOL-Library.Word"
begin

section \<open>Shared vocabulary of the development\<close>

text \<open>
  What every component uses: Go slices indexed by \<open>int\<close> with the run-time panic written out,
  the clock and random source a Raft peer reads, maps, and majorities of a finite set of peers.

  Conventions of the whole development:
  \<^item> a result of type \<open>'a option\<close> of a handler is \<open>None\<close> exactly where the Go code panics
    (index out of range, slice bounds out of range, \<open>log.Fatalf\<close>);
  \<^item> Go's \<open>int\<close> is \<open>int\<close> (terms, log indexes and config numbers only grow by one per
    election, proposal or reconfiguration; their overflow at \<open>2 ^ 63\<close> is not modelled);
  \<^item> Go's \<open>uint64\<close> versions are \<open>64 word\<close>, because a client chooses them and they wrap.
\<close>

named_theorems go_simps "unfolding of Go slice operations inside their bounds"
named_theorems frame_simps "fields that an operation of the code leaves alone"

subsection \<open>Go slices\<close>

text \<open>\<open>xs[i]\<close>, \<open>xs[i] = v\<close>, \<open>xs[i:]\<close> and \<open>xs[:i]\<close>, \<open>None\<close> being the panic.\<close>

definition go_index :: "'a list \<Rightarrow> int \<Rightarrow> 'a option" where
  "go_index xs i = (if 0 \<le> i \<and> i < int (length xs) then Some (xs ! nat i) else None)"

definition go_update :: "'a list \<Rightarrow> int \<Rightarrow> 'a \<Rightarrow> 'a list option" where
  "go_update xs i v =
     (if 0 \<le> i \<and> i < int (length xs) then Some (xs[nat i := v]) else None)"

definition go_drop :: "'a list \<Rightarrow> int \<Rightarrow> 'a list option" where
  "go_drop xs i = (if 0 \<le> i \<and> i \<le> int (length xs) then Some (drop (nat i) xs) else None)"

definition go_take :: "'a list \<Rightarrow> int \<Rightarrow> 'a list option" where
  "go_take xs i = (if 0 \<le> i \<and> i \<le> int (length xs) then Some (take (nat i) xs) else None)"

lemma go_index_Some [go_simps]:
  "0 \<le> i \<Longrightarrow> i < int (length xs) \<Longrightarrow> go_index xs i = Some (xs ! nat i)"
  by (simp add: go_index_def)

lemma go_index_nat [simp]: "go_index xs (int k) = (if k < length xs then Some (xs ! k) else None)"
  by (simp add: go_index_def)

lemma go_index_eq_None: "go_index xs i = None \<longleftrightarrow> i < 0 \<or> int (length xs) \<le> i"
  by (auto simp: go_index_def)

lemma go_update_Some [go_simps]:
  "0 \<le> i \<Longrightarrow> i < int (length xs) \<Longrightarrow> go_update xs i v = Some (xs[nat i := v])"
  by (simp add: go_update_def)

lemma go_update_nat [simp]:
  "go_update xs (int k) v = (if k < length xs then Some (xs[k := v]) else None)"
  by (simp add: go_update_def)

lemma go_drop_Some [go_simps]:
  "0 \<le> i \<Longrightarrow> i \<le> int (length xs) \<Longrightarrow> go_drop xs i = Some (drop (nat i) xs)"
  by (simp add: go_drop_def)

lemma go_take_Some [go_simps]:
  "0 \<le> i \<Longrightarrow> i \<le> int (length xs) \<Longrightarrow> go_take xs i = Some (take (nat i) xs)"
  by (simp add: go_take_def)

lemma go_update_length: "go_update xs i v = Some ys \<Longrightarrow> length ys = length xs"
  by (auto simp: go_update_def split: if_splits)

lemma go_update_index:
  "go_update xs i v = Some ys \<Longrightarrow> go_index ys j = (if j = i then Some v else go_index xs j)"
  by (auto simp: go_update_def go_index_def nth_list_update split: if_splits)

subsection \<open>Time and randomness\<close>

text \<open>
  What a call of \<open>resetElectionTimeout\<close> reads: \<open>time.Now()\<close> in nanoseconds and the value
  \<open>rand.Int63n(200)\<close> returns.
\<close>

record clock =
  now :: int
  rand200 :: nat

subsection \<open>Majorities\<close>

text \<open>A quorum is a set of peers with more members than \<open>len(peers)/2\<close>.\<close>

definition majority :: "nat \<Rightarrow> nat set \<Rightarrow> bool" where
  "majority n Q \<longleftrightarrow> Q \<subseteq> {..<n} \<and> n div 2 < card Q"

lemma majority_finite: "majority n Q \<Longrightarrow> finite Q"
  by (auto simp: majority_def intro: finite_subset)

text \<open>The interface the election and commit arguments rest on: any two quorums meet.\<close>

locale quorum_system =
  fixes quorum :: "'p set \<Rightarrow> bool"
  assumes meet: "quorum Q \<Longrightarrow> quorum Q' \<Longrightarrow> \<exists>p. p \<in> Q \<and> p \<in> Q'"
begin

lemma unique_choice:
  \<comment> \<open>if every voter votes for one candidate at most, two candidates cannot both win\<close>
  assumes "quorum Q" and "\<forall>p\<in>Q. vote p = Some c"
    and "quorum Q'" and "\<forall>p\<in>Q'. vote p = Some c'"
  shows "c = c'"
  using meet [OF assms(1,3)] assms(2,4) by force

lemma unique_winner:
  \<comment> \<open>the same for a relation of votes cast, single-valued in the voter\<close>
  assumes fn: "\<And>p a b. (p, a) \<in> V \<Longrightarrow> (p, b) \<in> V \<Longrightarrow> a = b"
    and "quorum Q" and "\<forall>p\<in>Q. (p, c) \<in> V"
    and "quorum Q'" and "\<forall>p\<in>Q'. (p, c') \<in> V"
  shows "c = c'"
  using meet [OF assms(2,4)] assms(3,5) fn by blast

lemma nonempty: "quorum Q \<Longrightarrow> Q \<noteq> {}"
  using meet by blast

end

lemma majority_meet:
  assumes "majority n Q" and "majority n Q'"
  shows "\<exists>p. p \<in> Q \<and> p \<in> Q'"
proof (rule ccontr)
  assume "\<nexists>p. p \<in> Q \<and> p \<in> Q'"
  then have "card (Q \<union> Q') = card Q + card Q'"
    using assms by (intro card_Un_disjoint) (auto dest: majority_finite)
  moreover have "card (Q \<union> Q') \<le> n"
    using assms card_mono [of "{..<n}" "Q \<union> Q'"] by (auto simp: majority_def)
  ultimately show False
    using assms by (auto simp: majority_def)
qed

interpretation maj: quorum_system "majority n" for n
  by unfold_locales (rule majority_meet)

end
