(* ===== verification/Core.thy ===== *)
theory Core
  imports Prelude "HOL-Library.Finite_Map"
begin

section \<open>Domain types (internal/core)\<close>

text \<open>
  The types of \<open>internal/core\<close>: error codes, KV requests and replies, Raft log entries and RPC
  messages, the operation wrapper of the replicated state machine, shard configurations and the
  migration RPCs, plus \<open>Key2Shard\<close>. Field names carry a short prefix of their struct because
  HOL record fields are global. A reply or argument behind Go's \<open>interface{}\<close> is one of the
  constructors of \<open>payload\<close> and \<open>result\<close>.
\<close>

subsection \<open>KV types (core/kv.go)\<close>

datatype Err = OK | ErrNoKey | ErrVersion | ErrMaybe | ErrWrongLeader | ErrWrongGroup | ErrFrozen

type_synonym version = "64 word"

record PutArgs =
  pa_Key :: string
  pa_Value :: string
  pa_Version :: version

record PutReply =
  pr_Err :: Err

record GetArgs =
  ga_Key :: string

record GetReply =
  gr_Err :: Err
  gr_Value :: string
  gr_Version :: version

subsection \<open>Shard types (core/shard.go)\<close>

definition NShards :: nat where
  "NShards = 10"

record ShardConfig =
  sc_Num :: int
  sc_Shards :: "int list"                \<comment> \<open>length \<open>NShards\<close>; 0 = unassigned\<close>
  sc_Groups :: "(int, string list) fmap"

text \<open>\<open>key[0]\<close> is a byte; the empty key goes to shard 0.\<close>

definition Key2Shard :: "string \<Rightarrow> int" where
  "Key2Shard key =
     (let shard = (if length key > 0 then of_char (hd key) else 0)
      in shard mod int NShards)"

record VersionedValue =
  vv_Value :: string
  vv_Version :: version

type_synonym kvmap = "string \<rightharpoonup> VersionedValue"

record FreezeShardArgs =
  fa_Shard :: int
  fa_ConfigNum :: int

record FreezeShardReply =
  fr_Err :: Err
  fr_Data :: kvmap

record InstallShardArgs =
  ia_Shard :: int
  ia_ConfigNum :: int
  ia_Data :: kvmap

record InstallShardReply =
  ir_Err :: Err

record DeleteShardArgs =
  da_Shard :: int
  da_ConfigNum :: int

record DeleteShardReply =
  dr_Err :: Err

subsection \<open>Operations of the replicated state machine (core/rsm.go)\<close>

datatype payload =
    GetOp GetArgs
  | PutOp PutArgs
  | FreezeOp FreezeShardArgs
  | InstallOp InstallShardArgs
  | DeleteOp DeleteShardArgs
  | OtherOp                       \<comment> \<open>a value of any other Go type\<close>

datatype result =
    GetRep GetReply
  | PutRep PutReply
  | FreezeRep FreezeShardReply
  | InstallRep InstallShardReply
  | DeleteRep DeleteShardReply
  | NilRep                        \<comment> \<open>Go's \<open>nil\<close>\<close>

record Op =
  op_ID :: int
  op_Payload :: payload

subsection \<open>Raft types (core/raft.go)\<close>

datatype RaftRole = Follower | Candidate | Leader

record 'c LogEntry =
  le_Term :: int
  le_Index :: int
  le_Command :: "'c option"       \<comment> \<open>\<open>None\<close> is the nil command of the dummy entry\<close>

record RequestVoteArgs =
  rv_Term :: int
  rv_CandidateID :: int
  rv_LastLogIndex :: int
  rv_LastLogTerm :: int

record RequestVoteReply =
  rvr_Term :: int
  rvr_VoteGranted :: bool

record 'c AppendEntriesArgs =
  ae_Term :: int
  ae_LeaderID :: int
  ae_PrevLogIndex :: int
  ae_PrevLogTerm :: int
  ae_Entries :: "'c LogEntry list"
  ae_LeaderCommit :: int

record AppendEntriesReply =
  aer_Term :: int
  aer_Success :: bool
  aer_XTerm :: int
  aer_XIndex :: int
  aer_XLen :: int

text \<open>
  A byte slice of the program holds what \<open>encoding/gob\<close> wrote into it. It is modelled as the
  list of the values encoded, in order: \<open>Encode\<close> appends one, \<open>Decode\<close> takes the first and fails
  when it has another type. The framing bytes of gob are abstracted; \<open>len(data) == 0\<close> is the
  empty list.
\<close>

record ShardGroupSnapshot =
  sgs_Shards :: "kvmap option list"
  sgs_Owned :: "bool list"
  sgs_Frozen :: "bool list"
  sgs_ConfigNums :: "int list"

datatype 'c gob =
    GInt int
  | GLog "'c LogEntry list"
  | GStore kvmap
  | GShardGroup ShardGroupSnapshot

type_synonym 'c bytes = "'c gob list"

text \<open>\<open>d.Decode(&x)\<close> for an \<open>int\<close> and for a \<open>[]LogEntry\<close>: the value and the rest of the stream.\<close>

fun gob_decode_int :: "'c bytes \<Rightarrow> (int \<times> 'c bytes) option" where
  "gob_decode_int (GInt i # r) = Some (i, r)"
| "gob_decode_int _ = None"

fun gob_decode_log :: "'c bytes \<Rightarrow> ('c LogEntry list \<times> 'c bytes) option" where
  "gob_decode_log (GLog l # r) = Some (l, r)"
| "gob_decode_log _ = None"

fun gob_decode_store :: "'c bytes \<Rightarrow> (kvmap \<times> 'c bytes) option" where
  "gob_decode_store (GStore m # r) = Some (m, r)"
| "gob_decode_store _ = None"

fun gob_decode_shardgroup :: "'c bytes \<Rightarrow> (ShardGroupSnapshot \<times> 'c bytes) option" where
  "gob_decode_shardgroup (GShardGroup s # r) = Some (s, r)"
| "gob_decode_shardgroup _ = None"

record 'c InstallSnapshotArgs =
  is_Term :: int
  is_LeaderID :: int
  is_LastIncludedIndex :: int
  is_LastIncludedTerm :: int
  is_Data :: "'c bytes option"          \<comment> \<open>\<open>None\<close> is the nil slice\<close>

record InstallSnapshotReply =
  isr_Term :: int

text \<open>An \<open>ApplyMsg\<close> is a committed command or a snapshot (\<open>CommandValid\<close>, \<open>SnapshotValid\<close>).\<close>

datatype 'c ApplyMsg =
    CommandMsg (am_Command: "'c option") (am_CommandIndex: int)
  | SnapshotMsg (am_Snapshot: "'c bytes option") (am_SnapshotTerm: int) (am_SnapshotIndex: int)

text \<open>\<open>len(b)\<close> and the contents of a possibly nil slice.\<close>

definition slice :: "'a list option \<Rightarrow> 'a list" where
  "slice b = (case b of None \<Rightarrow> [] | Some xs \<Rightarrow> xs)"

lemma slice_simps [simp]: "slice None = []" "slice (Some xs) = xs"
  by (simp_all add: slice_def)

subsection \<open>Log positions\<close>

text \<open>
  The election restriction compares logs by the term of the last entry and then by its index:
  a linear order on the pair, made an instance of \<open>linorder\<close> so that the library's order
  reasoning applies to it.
\<close>

datatype log_position = Pos (pos_term: int) (pos_index: int)

instantiation log_position :: linorder
begin

definition less_eq_log_position :: "log_position \<Rightarrow> log_position \<Rightarrow> bool" where
  "less_eq_log_position a b \<longleftrightarrow>
     pos_term a < pos_term b \<or> pos_term a = pos_term b \<and> pos_index a \<le> pos_index b"

definition less_log_position :: "log_position \<Rightarrow> log_position \<Rightarrow> bool" where
  "less_log_position a b \<longleftrightarrow>
     pos_term a < pos_term b \<or> pos_term a = pos_term b \<and> pos_index a < pos_index b"

instance
  by standard (auto simp: less_eq_log_position_def less_log_position_def log_position.expand)

end

subsection \<open>Facts about the shard hash\<close>

lemma Key2Shard_range: "0 \<le> Key2Shard key \<and> Key2Shard key < int NShards"
  by (simp add: Key2Shard_def NShards_def Let_def)

lemma Key2Shard_nonneg [simp]: "0 \<le> Key2Shard key"
  using Key2Shard_range by blast

lemma Key2Shard_less [simp]: "Key2Shard key < 10"
  using Key2Shard_range [of key] by (simp add: NShards_def)

end
