(* ===== verification/StateMachine.thy ===== *)
theory StateMachine
  imports Core
begin

section \<open>The replicated state machine contract (core.StateMachine)\<close>

text \<open>
  The interface the RSM drives: \<open>DoOp\<close> applies a committed operation (\<open>None\<close> when it panics),
  \<open>Snapshot\<close> serialises the state, \<open>Restore\<close> replaces it (\<open>None\<close> when the snapshot does not decode).
  \<open>peer s t\<close> says that \<open>s\<close> and \<open>t\<close> are states of replicas of one group, which agree on what is
  fixed at start-up and is not in the snapshot.
\<close>

fun run_ops :: "(payload \<Rightarrow> 's \<Rightarrow> (result \<times> 's) option) \<Rightarrow> payload list \<Rightarrow> 's \<Rightarrow> 's option" where
  "run_ops doop [] s = Some s"
| "run_ops doop (p # ps) s = do { (_, s') \<leftarrow> doop p s; run_ops doop ps s' }"

lemma run_ops_append:
  "run_ops doop (ps @ qs) s = do { s' \<leftarrow> run_ops doop ps s; run_ops doop qs s' }"
  by (induction ps arbitrary: s) (auto split: Option.bind_splits)

locale state_machine =
  fixes doop :: "payload \<Rightarrow> 's \<Rightarrow> (result \<times> 's) option"
    and snapshot :: "'s \<Rightarrow> Op bytes"
    and restore :: "Op bytes \<Rightarrow> 's \<Rightarrow> 's option"
    and wf :: "'s \<Rightarrow> bool"
    and peer :: "'s \<Rightarrow> 's \<Rightarrow> bool"
  assumes peer_refl: "peer s s"
    and peer_sym: "peer s t \<Longrightarrow> peer t s"
    and restore_snapshot: "wf s \<Longrightarrow> peer s t \<Longrightarrow> restore (snapshot s) t = Some s"
    and doop_wf: "wf s \<Longrightarrow> doop p s = Some (r, s') \<Longrightarrow> wf s'"
    and doop_peer: "wf s \<Longrightarrow> doop p s = Some (r, s') \<Longrightarrow> peer s t \<Longrightarrow> peer s' t"
begin

lemma run_wf: "wf s \<Longrightarrow> run_ops doop ps s = Some s' \<Longrightarrow> wf s'"
  by (induction ps arbitrary: s) (auto dest: doop_wf split: Option.bind_splits)

lemma run_peer: "wf s \<Longrightarrow> run_ops doop ps s = Some s' \<Longrightarrow> peer s t \<Longrightarrow> peer s' t"
proof (induction ps arbitrary: s)
  case Nil
  then show ?case by simp
next
  case (Cons p ps)
  from Cons.prems(2) obtain r s1 where "doop p s = Some (r, s1)" "run_ops doop ps s1 = Some s'"
    by (auto split: Option.bind_splits)
  with Cons show ?case by (meson doop_wf doop_peer)
qed

text \<open>
  Log compaction is invisible: a replica that restores the snapshot taken after \<open>ps\<close> and applies
  the rest of the log reaches the state of a replica that applied everything.
\<close>

lemma snapshot_replay:
  assumes "wf s0" and "peer s0 t" and "run_ops doop ps s0 = Some m"
  shows "do { t' \<leftarrow> restore (snapshot m) t; run_ops doop qs t' } = run_ops doop (ps @ qs) s0"
  using assms run_wf run_peer restore_snapshot by (simp add: run_ops_append)

end

end
