(* ===== verification/KVServer.thy ===== *)
theory KVServer
  imports StateMachine
begin

section \<open>The versioned key/value server (internal/kvsrv/server.go)\<close>

text \<open>
  The server's state is its store, a map from keys to versioned values; \<open>kv.mu\<close> makes each handler
  atomic. Besides the server this theory holds the contract of a versioned store as a locale
  (what \<open>Get\<close> and \<open>Put\<close> promise of the part of the state they show), whose lemmas carry the
  at-most-once argument for retransmitted puts, and the contract of a replicated state machine
  (\<open>core.StateMachine\<close>), whose lemmas say that replaying a log is deterministic and that a snapshot
  stands for the log before it. Both are interpreted here on the server and again in
  \<open>ShardGroup\<close>.
\<close>

subsection \<open>The server\<close>

record KVServer =
  store :: kvmap

definition KVServer_New :: KVServer where
  "KVServer_New = \<lparr>store = Map.empty\<rparr>"

definition KVServer_Get :: "GetArgs \<Rightarrow> KVServer \<Rightarrow> GetReply" where
  "KVServer_Get args kv =
     (case store kv (ga_Key args) of
        None \<Rightarrow> \<lparr>gr_Err = ErrNoKey, gr_Value = [], gr_Version = 0\<rparr>
      | Some val \<Rightarrow> \<lparr>gr_Err = OK, gr_Value = vv_Value val, gr_Version = vv_Version val\<rparr>)"

definition KVServer_Put :: "PutArgs \<Rightarrow> KVServer \<Rightarrow> PutReply \<times> KVServer" where
  "KVServer_Put args kv =
     (let current = store kv (pa_Key args); exists = current \<noteq> None in
      if pa_Version args = 0 then
        if exists then (\<lparr>pr_Err = ErrVersion\<rparr>, kv)
        else (\<lparr>pr_Err = OK\<rparr>,
              kv\<lparr>store := (store kv)(pa_Key args \<mapsto>
                            \<lparr>vv_Value = pa_Value args, vv_Version = 1\<rparr>)\<rparr>)
      else case current of
        None \<Rightarrow> (\<lparr>pr_Err = ErrNoKey\<rparr>, kv)
      | Some cur \<Rightarrow>
          if vv_Version cur \<noteq> pa_Version args then (\<lparr>pr_Err = ErrVersion\<rparr>, kv)
          else (\<lparr>pr_Err = OK\<rparr>,
                kv\<lparr>store := (store kv)(pa_Key args \<mapsto>
                              \<lparr>vv_Value = pa_Value args, vv_Version = vv_Version cur + 1\<rparr>)\<rparr>))"

definition KVServer_DoOp :: "payload \<Rightarrow> KVServer \<Rightarrow> result \<times> KVServer" where
  "KVServer_DoOp op kv =
     (case op of
        GetOp args \<Rightarrow> (GetRep (KVServer_Get args kv), kv)
      | PutOp args \<Rightarrow> (let (reply, kv') = KVServer_Put args kv in (PutRep reply, kv'))
      | _ \<Rightarrow> (NilRep, kv))"

definition KVServer_Snapshot :: "KVServer \<Rightarrow> 'c bytes" where
  "KVServer_Snapshot kv = [GStore (store kv)]"

text \<open>A snapshot that does not decode makes \<open>Restore\<close> panic.\<close>

definition KVServer_Restore :: "'c bytes \<Rightarrow> KVServer \<Rightarrow> KVServer option" where
  "KVServer_Restore snapshot kv =
     (if length snapshot = 0 then Some (kv\<lparr>store := Map.empty\<rparr>)
      else do { (s, _) \<leftarrow> gob_decode_store snapshot; Some (kv\<lparr>store := s\<rparr>) })"

subsection \<open>The contract of a versioned store\<close>

text \<open>
  \<open>view s\<close> is the map the state \<open>s\<close> shows to clients and \<open>serves s k\<close> says that it answers for the
  key \<open>k\<close>; what it does for other keys is not part of the contract.
\<close>

definition put_view :: "PutArgs \<Rightarrow> kvmap \<Rightarrow> Err \<times> kvmap" where
  "put_view a m =
     (case m (pa_Key a) of
        None \<Rightarrow> if pa_Version a = 0
                then (OK, m(pa_Key a \<mapsto> \<lparr>vv_Value = pa_Value a, vv_Version = 1\<rparr>))
                else (ErrNoKey, m)
      | Some v \<Rightarrow> if pa_Version a \<noteq> 0 \<and> vv_Version v = pa_Version a
                 then (OK, m(pa_Key a \<mapsto> \<lparr>vv_Value = pa_Value a, vv_Version = vv_Version v + 1\<rparr>))
                 else (ErrVersion, m))"

definition get_view :: "string \<Rightarrow> kvmap \<Rightarrow> GetReply" where
  "get_view k m =
     (case m k of
        None \<Rightarrow> \<lparr>gr_Err = ErrNoKey, gr_Value = [], gr_Version = 0\<rparr>
      | Some v \<Rightarrow> \<lparr>gr_Err = OK, gr_Value = vv_Value v, gr_Version = vv_Version v\<rparr>)"

text \<open>
  A put with version \<open>ver\<close> can no longer succeed on \<open>k\<close>: the key exists, and either the put would
  create it, or its version has moved past \<open>ver\<close>, or its version has wrapped around to 0.
\<close>

definition stale :: "string \<Rightarrow> version \<Rightarrow> kvmap \<Rightarrow> bool" where
  "stale k ver m \<longleftrightarrow>
     (\<exists>v. m k = Some v \<and> (ver = 0 \<or> vv_Version v = 0 \<or> ver < vv_Version v))"

lemma word_step_up: "(v :: version) + 1 = 0 \<or> v < v + 1"
  by unat_arith

lemma stale_put: "fst (put_view a m) = OK \<Longrightarrow> stale (pa_Key a) (pa_Version a) (snd (put_view a m))"
  using word_step_up [of "pa_Version a"]
  by (auto simp: put_view_def stale_def split: option.splits if_splits)

lemma stale_fails: "stale (pa_Key a) (pa_Version a) m \<Longrightarrow> put_view a m = (ErrVersion, m)"
  by (auto simp: put_view_def stale_def)

lemma stale_mono: "stale k ver m \<Longrightarrow> stale k ver (snd (put_view a m))"
proof -
  assume "stale k ver m"
  then obtain v where v: "m k = Some v" "ver = 0 \<or> vv_Version v = 0 \<or> ver < vv_Version v"
    by (auto simp: stale_def)
  have "vv_Version v + 1 = 0 \<or> vv_Version v < vv_Version v + 1"
    by (rule word_step_up)
  with v show ?thesis
    by (auto simp: stale_def put_view_def split: option.splits)
qed

lemma put_view_frame: "k \<noteq> pa_Key a \<Longrightarrow> snd (put_view a m) k = m k"
  by (auto simp: put_view_def split: option.splits)

lemma put_view_keeps_keys: "dom m \<subseteq> dom (snd (put_view a m))"
  by (auto simp: put_view_def split: option.splits)

lemma put_view_errs: "fst (put_view a m) \<in> {OK, ErrNoKey, ErrVersion}"
  by (auto simp: put_view_def split: option.splits)

locale versioned_store =
  fixes get :: "string \<Rightarrow> 's \<Rightarrow> GetReply"
    and put :: "PutArgs \<Rightarrow> 's \<Rightarrow> PutReply \<times> 's"
    and view :: "'s \<Rightarrow> kvmap"
    and serves :: "'s \<Rightarrow> string \<Rightarrow> bool"
  assumes get_law: "serves s k \<Longrightarrow> get k s = get_view k (view s)"
    and put_err: "serves s (pa_Key a) \<Longrightarrow> pr_Err (fst (put a s)) = fst (put_view a (view s))"
    and put_state: "serves s (pa_Key a) \<Longrightarrow> view (snd (put a s)) = snd (put_view a (view s))"
    and put_serves: "serves s (pa_Key a) \<Longrightarrow> serves (snd (put a s)) k \<longleftrightarrow> serves s k"
begin

fun puts :: "PutArgs list \<Rightarrow> 's \<Rightarrow> 's" where
  "puts [] s = s"
| "puts (a # as) s = puts as (snd (put a s))"

lemma read_your_write:
  assumes "serves s (pa_Key a)" and "pr_Err (fst (put a s)) = OK"
  shows "get (pa_Key a) (snd (put a s)) =
    \<lparr>gr_Err = OK, gr_Value = pa_Value a, gr_Version = pa_Version a + 1\<rparr>"
  using assms
  by (auto simp: get_law put_err put_state put_serves get_view_def put_view_def
      split: option.splits if_splits)

lemma failed_put_no_effect:
  assumes "serves s (pa_Key a)" and "pr_Err (fst (put a s)) \<noteq> OK"
  shows "view (snd (put a s)) = view s"
  using assms by (auto simp: put_err put_state put_view_def split: option.splits if_splits)

lemma other_keys:
  assumes "serves s (pa_Key a)" and "serves s k" and "k \<noteq> pa_Key a"
  shows "get k (snd (put a s)) = get k s"
  using assms by (simp add: get_law put_state put_serves get_view_def put_view_frame)

lemma put_ok_iff:
  assumes "serves s (pa_Key a)"
  shows "pr_Err (fst (put a s)) = OK \<longleftrightarrow>
    (if pa_Version a = 0 then view s (pa_Key a) = None
     else \<exists>v. view s (pa_Key a) = Some v \<and> vv_Version v = pa_Version a)"
  using assms by (auto simp: put_err put_view_def split: option.splits if_splits)

lemma puts_serves:
  "\<forall>a\<in>set as. serves s (pa_Key a) \<Longrightarrow> serves (puts as s) k \<longleftrightarrow> serves s k"
  by (induction as arbitrary: s) (auto simp: put_serves)

lemma puts_stale:
  "stale k ver (view s) \<Longrightarrow> \<forall>a\<in>set as. serves s (pa_Key a) \<Longrightarrow> stale k ver (view (puts as s))"
  by (induction as arbitrary: s) (auto simp: put_serves put_state stale_mono)

text \<open>At most once: after a put took effect, no later copy of it does, whatever runs between.\<close>

lemma at_most_once:
  assumes srv: "\<forall>b\<in>set (a # as). serves s (pa_Key b)"
    and ok: "pr_Err (fst (put a s)) = OK"
  shows "pr_Err (fst (put a (puts as (snd (put a s))))) = ErrVersion"
    and "view (snd (put a (puts as (snd (put a s))))) = view (puts as (snd (put a s)))"
proof -
  let ?t = "puts as (snd (put a s))"
  have "stale (pa_Key a) (pa_Version a) (view (snd (put a s)))"
    using srv ok by (simp add: put_err put_state stale_put)
  then have st: "stale (pa_Key a) (pa_Version a) (view ?t)"
    using srv by (intro puts_stale) (auto simp: put_serves)
  have sv: "serves ?t (pa_Key a)"
    using srv by (subst puts_serves) (auto simp: put_serves)
  show "pr_Err (fst (put a ?t)) = ErrVersion" "view (snd (put a ?t)) = view ?t"
    using stale_fails [OF st] sv by (simp_all add: put_err put_state)
qed

end

lemma KVServer_Put_view:
  "pr_Err (fst (KVServer_Put a kv)) = fst (put_view a (store kv))"
  "store (snd (KVServer_Put a kv)) = snd (put_view a (store kv))"
  by (auto simp: KVServer_Put_def put_view_def Let_def split: option.splits)

lemma KVServer_Get_view: "KVServer_Get a kv = get_view (ga_Key a) (store kv)"
  by (simp add: KVServer_Get_def get_view_def)

interpretation kvs: versioned_store "\<lambda>k. KVServer_Get \<lparr>ga_Key = k\<rparr>" KVServer_Put store "\<lambda>_ _. True"
  by unfold_locales (simp_all add: KVServer_Put_view KVServer_Get_view)

subsection \<open>The server as a replicated state machine\<close>

interpretation kvs_sm: state_machine "\<lambda>p kv. Some (KVServer_DoOp p kv)" KVServer_Snapshot
    KVServer_Restore "\<lambda>_. True" "\<lambda>_ _. True"
  by unfold_locales (simp_all add: KVServer_Snapshot_def KVServer_Restore_def)

lemma KVServer_New_empty: "KVServer_Get a KVServer_New = \<lparr>gr_Err = ErrNoKey, gr_Value = [], gr_Version = 0\<rparr>"
  by (simp add: KVServer_New_def KVServer_Get_def)

lemma KVServer_DoOp_reply:
  "KVServer_DoOp (GetOp g) kv = (GetRep (KVServer_Get g kv), kv)"
  "KVServer_DoOp (PutOp a) kv = (PutRep (fst (KVServer_Put a kv)), snd (KVServer_Put a kv))"
  by (simp_all add: KVServer_DoOp_def split: prod.splits)

end
