(* ===== verification/KVClerk.thy ===== *)
theory KVClerk
  imports KVServer
begin

section \<open>The key/value clerk over an unreliable network (internal/kvsrv/client.go)\<close>

text \<open>
  \<open>core.Network\<close> is an interface: a call takes the state \<open>'w\<close> of everything outside the caller
  and answers a reply, or \<open>None\<close> when \<open>Call\<close> returns false (a reply of another type than the caller's
  pointer does not decode, which is a failed call too). The clerk's retry loops may run forever, so
  they are partial functions: \<open>None\<close> is a loop that never returns. The theory then builds the
  network the comments of the code describe, one that loses requests and replies, delivers late
  copies of old requests at any time and interleaves other clients, and proves what the clerk's
  answers mean over it: \<open>OK\<close> is exactly once, \<open>ErrVersion\<close> and \<open>ErrNoKey\<close> are never, and only
  \<open>ErrMaybe\<close> is ambiguous.
\<close>

type_synonym 'w network = "string \<Rightarrow> string \<Rightarrow> payload \<Rightarrow> 'w \<Rightarrow> result option \<times> 'w"

partial_function (option) KVClerk_Get ::
  "'w network \<Rightarrow> string \<Rightarrow> string \<Rightarrow> 'w \<Rightarrow> ((string \<times> version \<times> Err) \<times> 'w) option" where
  "KVClerk_Get Call server key w =
     (case Call server ''KVServer.Get'' (GetOp \<lparr>ga_Key = key\<rparr>) w of
        (Some (GetRep reply), w) \<Rightarrow> Some ((gr_Value reply, gr_Version reply, gr_Err reply), w)
      | (_, w) \<Rightarrow> KVClerk_Get Call server key w)"

partial_function (option) KVClerk_PutLoop ::
  "'w network \<Rightarrow> string \<Rightarrow> PutArgs \<Rightarrow> bool \<Rightarrow> 'w \<Rightarrow> (Err \<times> 'w) option" where
  "KVClerk_PutLoop Call server args retried w =
     (case Call server ''KVServer.Put'' (PutOp args) w of
        (Some (PutRep reply), w) \<Rightarrow>
          if pr_Err reply = ErrVersion \<and> retried then Some (ErrMaybe, w) else Some (pr_Err reply, w)
      | (_, w) \<Rightarrow> KVClerk_PutLoop Call server args True w)"

definition KVClerk_Put ::
  "'w network \<Rightarrow> string \<Rightarrow> string \<Rightarrow> string \<Rightarrow> version \<Rightarrow> 'w \<Rightarrow> (Err \<times> 'w) option" where
  "KVClerk_Put Call server key val ver w =
     KVClerk_PutLoop Call server \<lparr>pa_Key = key, pa_Value = val, pa_Version = ver\<rparr> False w"

subsection \<open>An unreliable network in front of one server\<close>

text \<open>
  The fate of each call is scripted, and before it any number of other requests run: puts of other
  clients, and late copies of requests the clerk sent earlier. After the script every call is
  delivered. \<open>kw_took\<close> counts, for each put, the executions that took effect (history).
\<close>

datatype action = Other PutArgs | LateCopy nat
datatype fate = Delivered | RequestLost | ReplyLost

record kv_world =
  kw_srv :: KVServer
  kw_script :: "(action list \<times> fate) list"
  kw_sent :: "PutArgs list"
  kw_took :: "PutArgs \<Rightarrow> nat"

definition execPut :: "PutArgs \<Rightarrow> kv_world \<Rightarrow> PutReply \<times> kv_world" where
  "execPut a w = (let (r, kv) = KVServer_Put a (kw_srv w) in
     (r, w\<lparr>kw_srv := kv,
           kw_took := (if pr_Err r = OK then (kw_took w)(a := kw_took w a + 1) else kw_took w)\<rparr>))"

fun act :: "action \<Rightarrow> kv_world \<Rightarrow> kv_world" where
  "act (Other b) w = w\<lparr>kw_srv := snd (KVServer_Put b (kw_srv w))\<rparr>"
| "act (LateCopy n) w = (if n < length (kw_sent w) then snd (execPut (kw_sent w ! n) w) else w)"

definition next_fate :: "kv_world \<Rightarrow> fate \<times> kv_world" where
  "next_fate w = (case kw_script w of
     [] \<Rightarrow> (Delivered, w)
   | (acts, f) # rest \<Rightarrow> (f, fold act acts (w\<lparr>kw_script := rest\<rparr>)))"

definition execOp :: "payload \<Rightarrow> kv_world \<Rightarrow> result \<times> kv_world" where
  "execOp op w = (case op of
     GetOp g \<Rightarrow> (GetRep (KVServer_Get g (kw_srv w)), w)
   | PutOp a \<Rightarrow> (let (r, w') = execPut a w in (PutRep r, w'))
   | _ \<Rightarrow> (NilRep, w))"

definition sending :: "payload \<Rightarrow> kv_world \<Rightarrow> kv_world" where
  "sending op w = (case op of PutOp a \<Rightarrow> w\<lparr>kw_sent := kw_sent w @ [a]\<rparr> | _ \<Rightarrow> w)"

definition lossy :: "kv_world network" where
  "lossy server meth op w =
     (case next_fate w of (f, w1) \<Rightarrow>
       (case f of
          RequestLost \<Rightarrow> (None, sending op w1)
        | ReplyLost \<Rightarrow> (None, snd (execOp op (sending op w1)))
        | Delivered \<Rightarrow> (case execOp op (sending op w1) of (r, w2) \<Rightarrow> (Some r, w2))))"

subsection \<open>What every execution keeps\<close>

text \<open>
  \<open>settled a w\<close>: the put \<open>a\<close> took effect at most once, and once it did it is stale, so that no copy
  of it can take effect again.
\<close>

definition settled :: "PutArgs \<Rightarrow> kv_world \<Rightarrow> bool" where
  "settled a w \<longleftrightarrow> kw_took w a = 0 \<or>
     kw_took w a = 1 \<and> stale (pa_Key a) (pa_Version a) (store (kw_srv w))"

lemma execPut_took:
  "kw_took (snd (execPut b w)) a =
     kw_took w a + (if a = b \<and> pr_Err (fst (execPut b w)) = OK then 1 else 0)"
  by (simp add: execPut_def Let_def split: prod.splits)

lemma execPut_fields [simp]:
  "kw_sent (snd (execPut b w)) = kw_sent w" "kw_script (snd (execPut b w)) = kw_script w"
  "pr_Err (fst (execPut b w)) = fst (put_view b (store (kw_srv w)))"
  "store (kw_srv (snd (execPut b w))) = snd (put_view b (store (kw_srv w)))"
  using KVServer_Put_view [of b "kw_srv w"]
  by (simp_all add: execPut_def Let_def case_prod_beta)

lemma execPut_settled:
  assumes "settled a w"
  shows "settled a (snd (execPut b w))"
proof -
  consider (no) "kw_took w a = 0"
    | (once) "kw_took w a = 1" "stale (pa_Key a) (pa_Version a) (store (kw_srv w))"
    using assms by (auto simp: settled_def)
  then show ?thesis
  proof cases
    case no
    then show ?thesis
      using stale_put [of b "store (kw_srv w)"] by (auto simp: settled_def execPut_took)
  next
    case once
    then show ?thesis
      using stale_fails [of b "store (kw_srv w)"] stale_mono [of "pa_Key a" "pa_Version a" _ b]
      by (auto simp: settled_def execPut_took)
  qed
qed

lemma act_settled: "settled a w \<Longrightarrow> settled a (act x w)"
  using execPut_settled stale_mono
  by (cases x) (auto simp: settled_def KVServer_Put_view)

lemma act_sent [simp]: "kw_sent (act x w) = kw_sent w" "kw_script (act x w) = kw_script w"
  by (cases x; simp)+

lemma fold_act:
  "kw_sent (fold act xs w) = kw_sent w" "kw_script (fold act xs w) = kw_script w"
  "settled a w \<Longrightarrow> settled a (fold act xs w)"
  by (induction xs arbitrary: w) (simp_all add: act_settled)

lemma act_unsent: "a \<notin> set (kw_sent w) \<Longrightarrow> kw_took (act x w) a = kw_took w a"
  by (cases x) (auto simp: execPut_took)

lemma fold_act_unsent: "a \<notin> set (kw_sent w) \<Longrightarrow> kw_took (fold act xs w) a = kw_took w a"
  by (induction xs arbitrary: w) (simp_all add: act_unsent)

lemma settled_frame [simp]:
  "settled a (w\<lparr>kw_script := s\<rparr>) = settled a w" "settled a (w\<lparr>kw_sent := l\<rparr>) = settled a w"
  by (simp_all add: settled_def)

lemma next_fate_keeps:
  assumes "next_fate w = (f, w')"
  shows "kw_sent w' = kw_sent w" and "settled a w \<Longrightarrow> settled a w'"
    and "a \<notin> set (kw_sent w) \<Longrightarrow> kw_took w' a = kw_took w a"
    and "kw_script w = [] \<and> f = Delivered \<or> length (kw_script w') < length (kw_script w)"
  using assms
  by (auto simp: next_fate_def fold_act fold_act_unsent split: list.splits)

subsection \<open>What the clerk's answers mean\<close>

text \<open>One call of a put: what it leaves behind, answered or not.\<close>

lemma lossy_put:
  assumes "lossy server meth (PutOp a) w = (res, w')" and "settled a w"
  shows "settled a w'" and "a \<in> set (kw_sent w')"
    and "kw_script w = [] \<and> res \<noteq> None \<or> length (kw_script w') < length (kw_script w)"
    and "res \<noteq> None \<Longrightarrow> \<exists>e. res = Some (PutRep \<lparr>pr_Err = e\<rparr>) \<and> e \<in> {OK, ErrNoKey, ErrVersion} \<and>
      (e = OK \<longrightarrow> kw_took w' a = 1) \<and> (e = ErrNoKey \<longrightarrow> kw_took w' a = 0) \<and>
      (a \<notin> set (kw_sent w) \<and> kw_took w a = 0 \<and> e = ErrVersion \<longrightarrow> kw_took w' a = 0)"
proof -
  obtain f w1 where nf: "next_fate w = (f, w1)" by fastforce
  note k = next_fate_keeps [OF nf]
  let ?s = "w1\<lparr>kw_sent := kw_sent w1 @ [a]\<rparr>"
  have s1: "settled a ?s" using k(2) assms(2) by simp
  have e: "execOp (PutOp a) ?s = (PutRep (fst (execPut a ?s)), snd (execPut a ?s))"
    by (simp add: execOp_def Let_def case_prod_beta)
  have w': "w' = ?s \<or> w' = snd (execPut a ?s)"
    using assms(1) nf e by (auto simp: lossy_def sending_def split: fate.splits)
  then show "settled a w'" "a \<in> set (kw_sent w')"
    using s1 execPut_settled [OF s1] by auto
  show "kw_script w = [] \<and> res \<noteq> None \<or> length (kw_script w') < length (kw_script w)"
    using k(4) w' assms(1) nf by (auto simp: lossy_def split: fate.splits prod.splits)
  assume "res \<noteq> None"
  then have res: "res = Some (PutRep (fst (execPut a ?s)))" "w' = snd (execPut a ?s)"
    using assms(1) nf e by (auto simp: lossy_def sending_def split: fate.splits)
  let ?e = "pr_Err (fst (execPut a ?s))"
  have "fst (execPut a ?s) = \<lparr>pr_Err = ?e\<rparr>" by simp
  moreover have "?e \<in> {OK, ErrNoKey, ErrVersion}" using put_view_errs by simp
  moreover have "?e = OK \<longrightarrow> kw_took w' a = 1"
    using s1 stale_fails [of a "store (kw_srv ?s)"] res(2) by (auto simp: settled_def execPut_took)
  moreover have "?e = ErrNoKey \<longrightarrow> kw_took w' a = 0"
    using s1 stale_fails [of a "store (kw_srv ?s)"] res(2) by (auto simp: settled_def execPut_took)
  moreover have "a \<notin> set (kw_sent w) \<and> kw_took w a = 0 \<and> ?e = ErrVersion \<longrightarrow> kw_took w' a = 0"
    using k(3) res(2) by (auto simp: execPut_took)
  ultimately show "\<exists>e. res = Some (PutRep \<lparr>pr_Err = e\<rparr>) \<and> e \<in> {OK, ErrNoKey, ErrVersion} \<and>
      (e = OK \<longrightarrow> kw_took w' a = 1) \<and> (e = ErrNoKey \<longrightarrow> kw_took w' a = 0) \<and>
      (a \<notin> set (kw_sent w) \<and> kw_took w a = 0 \<and> e = ErrVersion \<longrightarrow> kw_took w' a = 0)"
    using res(1) by metis
qed

lemma PutLoop_outcome:
  assumes "settled a w" and "retried \<or> a \<notin> set (kw_sent w) \<and> kw_took w a = 0"
  shows "\<exists>e w'. KVClerk_PutLoop lossy server a retried w = Some (e, w') \<and>
    e \<in> {OK, ErrNoKey, ErrVersion, ErrMaybe} \<and> kw_took w' a \<le> 1 \<and>
    (e = OK \<longrightarrow> kw_took w' a = 1) \<and> (e \<in> {ErrNoKey, ErrVersion} \<longrightarrow> kw_took w' a = 0)"
  using assms
proof (induction "length (kw_script w)" arbitrary: w retried rule: less_induct)
  case less
  obtain res w1 where call: "lossy server ''KVServer.Put'' (PutOp a) w = (res, w1)" by fastforce
  note k = lossy_put [OF call less.prems(1)]
  show ?case
  proof (cases res)
    case None
    with k(3) have "length (kw_script w1) < length (kw_script w)" by auto
    from less.hyps [OF this k(1), of True] obtain e w' where r:
      "KVClerk_PutLoop lossy server a True w1 = Some (e, w')"
      "e \<in> {OK, ErrNoKey, ErrVersion, ErrMaybe}" "kw_took w' a \<le> 1"
      "e = OK \<longrightarrow> kw_took w' a = 1" "e \<in> {ErrNoKey, ErrVersion} \<longrightarrow> kw_took w' a = 0"
      by blast
    moreover have "KVClerk_PutLoop lossy server a retried w = KVClerk_PutLoop lossy server a True w1"
      using call None by (subst KVClerk_PutLoop.simps) simp
    ultimately show ?thesis by metis
  next
    case (Some r)
    with k(4) obtain e where e: "res = Some (PutRep \<lparr>pr_Err = e\<rparr>)" "e \<in> {OK, ErrNoKey, ErrVersion}"
      "e = OK \<longrightarrow> kw_took w1 a = 1" "e = ErrNoKey \<longrightarrow> kw_took w1 a = 0"
      "a \<notin> set (kw_sent w) \<and> kw_took w a = 0 \<and> e = ErrVersion \<longrightarrow> kw_took w1 a = 0"
      by auto
    have "KVClerk_PutLoop lossy server a retried w =
        Some (if e = ErrVersion \<and> retried then ErrMaybe else e, w1)"
      using call e(1) by (subst KVClerk_PutLoop.simps) simp
    moreover have "kw_took w1 a \<le> 1" using k(1) by (auto simp: settled_def)
    ultimately show ?thesis using e(2-5) less.prems(2) by (cases retried) auto
  qed
qed

text \<open>A read changes nothing but the script, and returns what the server holds when it runs.\<close>

lemma lossy_get:
  assumes "lossy server meth (GetOp g) w = (res, w')"
  shows "settled a w \<Longrightarrow> settled a w'"
    and "kw_script w = [] \<and> res \<noteq> None \<or> length (kw_script w') < length (kw_script w)"
    and "res \<noteq> None \<Longrightarrow> res = Some (GetRep (KVServer_Get g (kw_srv w')))"
proof -
  obtain f w1 where nf: "next_fate w = (f, w1)" by fastforce
  note k = next_fate_keeps [OF nf]
  have e: "execOp (GetOp g) u = (GetRep (KVServer_Get g (kw_srv u)), u)" for u
    by (simp add: execOp_def)
  show "settled a w \<Longrightarrow> settled a w'"
    "kw_script w = [] \<and> res \<noteq> None \<or> length (kw_script w') < length (kw_script w)"
    "res \<noteq> None \<Longrightarrow> res = Some (GetRep (KVServer_Get g (kw_srv w')))"
    using assms nf k(2,4) e by (auto simp: lossy_def sending_def split: fate.splits)
qed

lemma Get_outcome:
  "\<exists>w'. KVClerk_Get lossy server key w =
     (let r = KVServer_Get \<lparr>ga_Key = key\<rparr> (kw_srv w') in Some ((gr_Value r, gr_Version r, gr_Err r), w'))"
proof (induction "length (kw_script w)" arbitrary: w rule: less_induct)
  case less
  obtain res w1 where call: "lossy server ''KVServer.Get'' (GetOp \<lparr>ga_Key = key\<rparr>) w = (res, w1)" by fastforce
  note k = lossy_get [OF call]
  show ?case
  proof (cases res)
    case None
    with k(2) have "length (kw_script w1) < length (kw_script w)" by auto
    moreover have "KVClerk_Get lossy server key w = KVClerk_Get lossy server key w1"
      using call None by (subst KVClerk_Get.simps) simp
    ultimately show ?thesis using less.hyps by metis
  next
    case (Some r)
    with k(3) call have "KVClerk_Get lossy server key w =
      (let r = KVServer_Get \<lparr>ga_Key = key\<rparr> (kw_srv w1) in Some ((gr_Value r, gr_Version r, gr_Err r), w1))"
      by (subst KVClerk_Get.simps) (simp add: Let_def)
    then show ?thesis by blast
  qed
qed

end
