(* ===== verification/KVLock.thy ===== *)
theory KVLock
  imports KVClerk
begin

section \<open>The lock over versioned puts (internal/kvsrv/lock.go)\<close>

text \<open>
  First the code: \<open>NewLock\<close>, \<open>Acquire\<close> and \<open>Release\<close> over an arbitrary network, their branches
  as functions of what the clerk answered. Then the lock under concurrency: any number of clients
  run the same branches step by step against one server; a put may be executed late and more than
  once, replies may be lost or arrive late, and other keys change at any time. The invariant says
  which value a put in flight can still overwrite, and gives mutual exclusion.
\<close>

subsection \<open>The code\<close>

record Lock =
  lk_lockName :: string
  lk_clientID :: string

definition hexDigit :: "nat \<Rightarrow> char" where
  "hexDigit n = (if n < 10 then char_of (48 + n) else char_of (87 + n))"

text \<open>\<open>hex.EncodeToString\<close> of the bytes read from \<open>crypto/rand\<close>.\<close>

fun hexEncode :: "nat list \<Rightarrow> string" where
  "hexEncode [] = []"
| "hexEncode (b # bs) = hexDigit (b div 16) # hexDigit (b mod 16) # hexEncode bs"

definition NewLock :: "nat list \<Rightarrow> string \<Rightarrow> Lock" where
  "NewLock rnd lockName = \<lparr>lk_lockName = lockName, lk_clientID = hexEncode rnd\<rparr>"

datatype decision = Done | TryPut version | Again

fun acquireDecide :: "string \<Rightarrow> string \<times> version \<times> Err \<Rightarrow> decision" where
  "acquireDecide clientID (val, ver, err) =
     (if err = ErrNoKey then TryPut 0
      else if err = OK then
        (if val = clientID then Done else if val = [] then TryPut ver else Again)
      else Again)"

definition putHappened :: "Err \<Rightarrow> bool" where
  "putHappened e \<longleftrightarrow> e = OK \<or> e = ErrMaybe"

fun acquireCheck :: "string \<Rightarrow> string \<times> version \<times> Err \<Rightarrow> bool" where
  "acquireCheck clientID (v, _, e) \<longleftrightarrow> e = OK \<and> v = clientID"

fun releaseDecide :: "string \<Rightarrow> string \<times> version \<times> Err \<Rightarrow> decision" where
  "releaseDecide clientID (val, ver, err) =
     (if err = OK then (if val \<noteq> clientID then Done else TryPut ver) else Done)"

fun releaseCheck :: "string \<times> version \<times> Err \<Rightarrow> bool" where
  "releaseCheck (v, _, e) \<longleftrightarrow> e = ErrNoKey \<or> e = OK \<and> v = []"

partial_function (option) Lock_Acquire :: "'w network \<Rightarrow> string \<Rightarrow> Lock \<Rightarrow> 'w \<Rightarrow> 'w option" where
  "Lock_Acquire Call server l w = do {
     (g, w) \<leftarrow> KVClerk_Get Call server (lk_lockName l) w;
     case acquireDecide (lk_clientID l) g of
       Done \<Rightarrow> Some w
     | Again \<Rightarrow> Lock_Acquire Call server l w
     | TryPut ver \<Rightarrow> do {
         (putErr, w) \<leftarrow> KVClerk_Put Call server (lk_lockName l) (lk_clientID l) ver w;
         if putHappened putErr then do {
           (g, w) \<leftarrow> KVClerk_Get Call server (lk_lockName l) w;
           if acquireCheck (lk_clientID l) g then Some w else Lock_Acquire Call server l w
         } else Lock_Acquire Call server l w
       }
   }"

partial_function (option) Lock_Release :: "'w network \<Rightarrow> string \<Rightarrow> Lock \<Rightarrow> 'w \<Rightarrow> 'w option" where
  "Lock_Release Call server l w = do {
     (g, w) \<leftarrow> KVClerk_Get Call server (lk_lockName l) w;
     case releaseDecide (lk_clientID l) g of
       Done \<Rightarrow> Some w
     | Again \<Rightarrow> Lock_Release Call server l w
     | TryPut ver \<Rightarrow> do {
         (putErr, w) \<leftarrow> KVClerk_Put Call server (lk_lockName l) [] ver w;
         if putHappened putErr then do {
           (g, w) \<leftarrow> KVClerk_Get Call server (lk_lockName l) w;
           if releaseCheck g then Some w else Lock_Release Call server l w
         } else Lock_Release Call server l w
       }
   }"

subsection \<open>Client identities\<close>

lemma hexDigit_eq: "m < 16 \<Longrightarrow> n < 16 \<Longrightarrow> hexDigit m = hexDigit n \<longleftrightarrow> m = n"
  by (auto simp: hexDigit_def char_of_eq_iff take_bit_eq_mod split: if_splits)

lemma hexEncode_inj:
  "\<forall>b\<in>set bs. b < 256 \<Longrightarrow> \<forall>b\<in>set cs. b < 256 \<Longrightarrow> hexEncode bs = hexEncode cs \<longleftrightarrow> bs = cs"
proof (induction bs arbitrary: cs)
  case Nil
  then show ?case by (cases cs) auto
next
  case (Cons b bs)
  show ?case
  proof (cases cs)
    case (Cons c cs')
    have "b < 256" "c < 256" using Cons.prems Cons by auto
    then have "hexDigit (b div 16) = hexDigit (c div 16) \<and> hexDigit (b mod 16) = hexDigit (c mod 16) \<longleftrightarrow> b = c"
      by (auto simp: hexDigit_eq) (metis div_mult_mod_eq)
    then show ?thesis using Cons.IH [of cs'] Cons.prems Cons by auto
  qed simp
qed

subsection \<open>Many clients against one server\<close>

text \<open>
  Where a client is in \<open>Acquire\<close> or \<open>Release\<close>: about to read, inside the clerk's put loop with
  its version and \<open>retried\<close> flag, or about to check. \<open>Held\<close> is between the two calls.
\<close>

datatype lock_pc =
    Idle | AcqGet | AcqPut version bool | AcqCheck | Held | RelGet | RelPut version bool | RelCheck

record lock_system =
  ls_srv :: KVServer
  ls_pc :: "nat \<Rightarrow> lock_pc"
  ls_read :: "nat \<Rightarrow> GetReply option"        \<comment> \<open>a read executed, its reply on the way\<close>
  ls_sent :: "(nat \<times> PutArgs) set"           \<comment> \<open>puts that may still be executed\<close>
  ls_replies :: "(nat \<times> PutArgs \<times> Err) set"  \<comment> \<open>puts executed, their reply on the way\<close>

fun put_of :: "string \<Rightarrow> string \<Rightarrow> lock_pc \<Rightarrow> PutArgs option" where
  "put_of lock cid (AcqPut ver _) = Some \<lparr>pa_Key = lock, pa_Value = cid, pa_Version = ver\<rparr>"
| "put_of lock cid (RelPut ver _) = Some \<lparr>pa_Key = lock, pa_Value = [], pa_Version = ver\<rparr>"
| "put_of lock cid _ = None"

definition reading :: "lock_pc \<Rightarrow> bool" where
  "reading pc \<longleftrightarrow> pc \<in> {AcqGet, AcqCheck, RelGet, RelCheck}"

fun after_get :: "string \<Rightarrow> lock_pc \<Rightarrow> string \<times> version \<times> Err \<Rightarrow> lock_pc" where
  "after_get cid AcqGet g =
     (case acquireDecide cid g of Done \<Rightarrow> Held | TryPut ver \<Rightarrow> AcqPut ver False | Again \<Rightarrow> AcqGet)"
| "after_get cid AcqCheck g = (if acquireCheck cid g then Held else AcqGet)"
| "after_get cid RelGet g =
     (case releaseDecide cid g of Done \<Rightarrow> Idle | TryPut ver \<Rightarrow> RelPut ver False | Again \<Rightarrow> RelGet)"
| "after_get cid RelCheck g = (if releaseCheck g then Idle else RelGet)"
| "after_get cid pc g = pc"

text \<open>The answer of the clerk's loop for the server's error, and the branch taken on it.\<close>

definition clerkErr :: "bool \<Rightarrow> Err \<Rightarrow> Err" where
  "clerkErr retried e = (if e = ErrVersion \<and> retried then ErrMaybe else e)"

fun after_put :: "lock_pc \<Rightarrow> Err \<Rightarrow> lock_pc" where
  "after_put (AcqPut ver retried) e = (if putHappened (clerkErr retried e) then AcqCheck else AcqGet)"
| "after_put (RelPut ver retried) e = (if putHappened (clerkErr retried e) then RelCheck else RelGet)"
| "after_put pc e = pc"

fun set_retried :: "lock_pc \<Rightarrow> lock_pc" where
  "set_retried (AcqPut ver _) = AcqPut ver True"
| "set_retried (RelPut ver _) = RelPut ver True"
| "set_retried pc = pc"

definition read_triple :: "GetReply \<Rightarrow> string \<times> version \<times> Err" where
  "read_triple r = (gr_Value r, gr_Version r, gr_Err r)"

inductive lock_step :: "string \<Rightarrow> (nat \<Rightarrow> string) \<Rightarrow> lock_system \<Rightarrow> lock_system \<Rightarrow> bool"
  for lock :: string and ids :: "nat \<Rightarrow> string" where
  acquire: "ls_pc s i = Idle \<Longrightarrow>
    lock_step lock ids s (s\<lparr>ls_pc := (ls_pc s)(i := AcqGet), ls_read := (ls_read s)(i := None)\<rparr>)"
| release: "ls_pc s i = Held \<Longrightarrow>
    lock_step lock ids s (s\<lparr>ls_pc := (ls_pc s)(i := RelGet), ls_read := (ls_read s)(i := None)\<rparr>)"
| read: "reading (ls_pc s i) \<Longrightarrow>
    lock_step lock ids s
      (s\<lparr>ls_read := (ls_read s)(i \<mapsto> KVServer_Get \<lparr>ga_Key = lock\<rparr> (ls_srv s))\<rparr>)"
| read_reply: "\<lbrakk>reading (ls_pc s i); ls_read s i = Some r\<rbrakk> \<Longrightarrow>
    lock_step lock ids s (s\<lparr>ls_read := (ls_read s)(i := None),
      ls_pc := (ls_pc s)(i := after_get (ids i) (ls_pc s i) (read_triple r))\<rparr>)"
| send: "put_of lock (ids i) (ls_pc s i) = Some a \<Longrightarrow>
    lock_step lock ids s (s\<lparr>ls_sent := insert (i, a) (ls_sent s)\<rparr>)"
| lost: "put_of lock (ids i) (ls_pc s i) = Some a \<Longrightarrow>
    lock_step lock ids s (s\<lparr>ls_pc := (ls_pc s)(i := set_retried (ls_pc s i))\<rparr>)"
| execute: "\<lbrakk>(i, a) \<in> ls_sent s; KVServer_Put a (ls_srv s) = (r, kv)\<rbrakk> \<Longrightarrow>
    lock_step lock ids s
      (s\<lparr>ls_srv := kv, ls_replies := insert (i, a, pr_Err r) (ls_replies s)\<rparr>)"
| put_reply: "\<lbrakk>put_of lock (ids i) (ls_pc s i) = Some a; (i, a, e) \<in> ls_replies s\<rbrakk> \<Longrightarrow>
    lock_step lock ids s (s\<lparr>ls_pc := (ls_pc s)(i := after_put (ls_pc s i) e),
      ls_read := (ls_read s)(i := None)\<rparr>)"
| other_key: "pa_Key a \<noteq> lock \<Longrightarrow>
    lock_step lock ids s (s\<lparr>ls_srv := snd (KVServer_Put a (ls_srv s))\<rparr>)"

text \<open>Every client idle, and a server on which the lock has not been created or is free.\<close>

definition lock_initial :: "string \<Rightarrow> lock_system \<Rightarrow> bool" where
  "lock_initial lock s \<longleftrightarrow> ls_pc s = (\<lambda>_. Idle) \<and> ls_read s = (\<lambda>_. None) \<and> ls_sent s = {} \<and>
     ls_replies s = {} \<and> (\<forall>v. store (ls_srv s) lock = Some v \<longrightarrow> vv_Value v = [])"

inductive lock_reachable :: "string \<Rightarrow> (nat \<Rightarrow> string) \<Rightarrow> lock_system \<Rightarrow> bool"
  for lock :: string and ids :: "nat \<Rightarrow> string" where
  start: "lock_initial lock s \<Longrightarrow> lock_reachable lock ids s"
| step: "lock_reachable lock ids s \<Longrightarrow> lock_step lock ids s s' \<Longrightarrow> lock_reachable lock ids s'"

subsection \<open>The invariant\<close>

text \<open>
  A put with version \<open>ver\<close> is stale, or it would overwrite exactly the value \<open>old\<close> (which is the
  empty string also while the key does not exist).
\<close>

definition overwrites :: "string \<Rightarrow> version \<Rightarrow> string \<Rightarrow> kvmap \<Rightarrow> bool" where
  "overwrites k ver old m \<longleftrightarrow> stale k ver m \<or> ver = 0 \<and> old = [] \<and> m k = None \<or>
     (\<exists>x. m k = Some x \<and> vv_Version x = ver \<and> vv_Value x = old \<and> ver \<noteq> 0)"

fun expected :: "string \<Rightarrow> lock_pc \<Rightarrow> string" where
  "expected cid (RelPut _ _) = cid"
| "expected cid _ = []"

text \<open>The client is known to hold the lock; the client is known not to.\<close>

definition owner_known :: "string \<Rightarrow> lock_pc \<Rightarrow> GetReply option \<Rightarrow> bool" where
  "owner_known cid pc rd \<longleftrightarrow> pc = Held \<or>
     pc \<in> {AcqGet, AcqCheck} \<and> (\<exists>r. rd = Some r \<and> gr_Err r = OK \<and> gr_Value r = cid)"

definition free_known :: "string \<Rightarrow> lock_pc \<Rightarrow> GetReply option \<Rightarrow> bool" where
  "free_known cid pc rd \<longleftrightarrow> pc = Idle \<or>
     pc \<in> {RelGet, RelCheck} \<and> (\<exists>r. rd = Some r \<and> \<not> (gr_Err r = OK \<and> gr_Value r = cid))"

definition client_inv :: "string \<Rightarrow> string \<Rightarrow> kvmap \<Rightarrow> lock_pc \<Rightarrow> GetReply option \<Rightarrow> bool" where
  "client_inv lock cid m pc rd \<longleftrightarrow>
     (\<forall>a. put_of lock cid pc = Some a \<longrightarrow> overwrites lock (pa_Version a) (expected cid pc) m) \<and>
     (\<forall>r. rd = Some r \<longrightarrow> gr_Err r \<in> {OK, ErrNoKey} \<and>
        (gr_Err r = ErrNoKey \<longrightarrow> overwrites lock 0 [] m) \<and>
        (gr_Err r = OK \<longrightarrow> overwrites lock (gr_Version r) (gr_Value r) m)) \<and>
     (owner_known cid pc rd \<longrightarrow> (\<exists>x. m lock = Some x \<and> vv_Value x = cid)) \<and>
     (free_known cid pc rd \<longrightarrow> (\<forall>x. m lock = Some x \<longrightarrow> vv_Value x \<noteq> cid))"

definition lock_inv :: "string \<Rightarrow> (nat \<Rightarrow> string) \<Rightarrow> lock_system \<Rightarrow> bool" where
  "lock_inv lock ids s \<longleftrightarrow>
     (\<forall>j. client_inv lock (ids j) (store (ls_srv s)) (ls_pc s j) (ls_read s j)) \<and>
     (\<forall>j a. (j, a) \<in> ls_sent s \<longrightarrow> pa_Key a = lock \<and>
        (stale lock (pa_Version a) (store (ls_srv s)) \<or> put_of lock (ids j) (ls_pc s j) = Some a)) \<and>
     (\<forall>j a e. (j, a, e) \<in> ls_replies s \<longrightarrow> stale lock (pa_Version a) (store (ls_srv s)))"

lemma overwrites_put: "overwrites k ver old m \<Longrightarrow> overwrites k ver old (snd (put_view b m))"
proof -
  assume "overwrites k ver old m"
  then consider (stale) "stale k ver m" | (absent) "ver = 0" "old = []" "m k = None"
    | (present) x where "m k = Some x" "vv_Version x = ver" "vv_Value x = old" "ver \<noteq> 0"
    by (auto simp: overwrites_def)
  then show ?thesis
  proof cases
    case stale
    then show ?thesis by (simp add: overwrites_def stale_mono)
  next
    case absent
    then show ?thesis
      by (cases "pa_Key b = k") (auto simp: overwrites_def put_view_def stale_def split: option.splits)
  next
    case present
    have "ver + 1 = 0 \<or> ver < ver + 1" by (rule word_step_up)
    with present show ?thesis
      by (cases "pa_Key b = k") (auto simp: overwrites_def put_view_def stale_def split: option.splits)
  qed
qed

text \<open>A put that succeeds has overwritten what its client expected there.\<close>

lemma overwrites_ok:
  assumes "overwrites (pa_Key a) (pa_Version a) old m"
  shows "fst (put_view a m) = OK \<longleftrightarrow> \<not> stale (pa_Key a) (pa_Version a) m"
    and "fst (put_view a m) = OK \<Longrightarrow> case m (pa_Key a) of None \<Rightarrow> old = [] | Some x \<Rightarrow> vv_Value x = old"
  using assms stale_fails [of a m]
  by (auto simp: overwrites_def put_view_def split: option.splits)

lemma put_view_fails: "fst (put_view a m) \<noteq> OK \<Longrightarrow> snd (put_view a m) = m"
  by (auto simp: put_view_def split: option.splits)

lemma put_view_writes:
  "fst (put_view a m) = OK \<Longrightarrow> \<exists>x. snd (put_view a m) (pa_Key a) = Some x \<and> vv_Value x = pa_Value a"
  by (auto simp: put_view_def split: option.splits if_splits)

subsection \<open>Its preservation\<close>

lemma put_of_value: "put_of lock cid pc = Some a \<Longrightarrow> pa_Key a = lock \<and>
    (pa_Value a = cid \<and> expected cid pc = [] \<and> (\<exists>v b. pc = AcqPut v b) \<or>
     pa_Value a = [] \<and> expected cid pc = cid \<and> (\<exists>v b. pc = RelPut v b))"
  by (cases pc) auto

lemma client_inv_execute:
  assumes ids: "inj ids" "\<And>j. ids j \<noteq> []" and inv: "lock_inv lock ids s" and sent: "(i, a) \<in> ls_sent s"
  shows "client_inv lock (ids j) (snd (put_view a (store (ls_srv s)))) (ls_pc s j) (ls_read s j)"
proof (cases "fst (put_view a (store (ls_srv s))) = OK")
  case False
  with inv show ?thesis by (simp add: put_view_fails lock_inv_def)
next
  case True
  let ?m = "store (ls_srv s)" and ?m' = "snd (put_view a (store (ls_srv s)))"
  have key: "pa_Key a = lock" and "stale lock (pa_Version a) ?m \<or> put_of lock (ids i) (ls_pc s i) = Some a"
    using inv sent by (auto simp: lock_inv_def)
  with True stale_fails [of a ?m] have put: "put_of lock (ids i) (ls_pc s i) = Some a" by auto
  have ci: "\<And>j. client_inv lock (ids j) ?m (ls_pc s j) (ls_read s j)" using inv by (simp add: lock_inv_def)
  with put have "overwrites (pa_Key a) (pa_Version a) (expected (ids i) (ls_pc s i)) ?m"
    using key by (auto simp: client_inv_def)
  from overwrites_ok(2) [OF this True]
  have old: "case ?m lock of None \<Rightarrow> expected (ids i) (ls_pc s i) = [] | Some x \<Rightarrow> vv_Value x = expected (ids i) (ls_pc s i)"
    using key by simp
  from put_view_writes [OF True] obtain x where new: "?m' lock = Some x" "vv_Value x = pa_Value a"
    using key by auto
  have pv: "pa_Value a = ids i \<and> expected (ids i) (ls_pc s i) = [] \<and> (\<exists>v b. ls_pc s i = AcqPut v b) \<or>
     pa_Value a = [] \<and> expected (ids i) (ls_pc s i) = ids i \<and> (\<exists>v b. ls_pc s i = RelPut v b)"
    using put_of_value [OF put] by simp
  have same: "ids i = ids j \<Longrightarrow> j = i" using ids(1) by (simp add: inj_eq)
  have own: "\<not> owner_known (ids j) (ls_pc s j) (ls_read s j)"
  proof
    assume o: "owner_known (ids j) (ls_pc s j) (ls_read s j)"
    then obtain y where y: "?m lock = Some y" "vv_Value y = ids j" using ci [of j] by (auto simp: client_inv_def)
    with old have "expected (ids i) (ls_pc s i) = ids j" by simp
    with pv ids(2) [of j] same have "j = i \<and> (\<exists>v b. ls_pc s i = RelPut v b)" by metis
    with o show False by (auto simp: owner_known_def)
  qed
  have free: "vv_Value x \<noteq> ids j" if f: "free_known (ids j) (ls_pc s j) (ls_read s j)"
  proof
    assume "vv_Value x = ids j"
    with new pv ids(2) [of j] same have "j = i \<and> (\<exists>v b. ls_pc s i = AcqPut v b)" by metis
    with f show False by (auto simp: free_known_def)
  qed
  have "overwrites lock v c ?m'" if "overwrites lock v c ?m" for v c
    using that by (rule overwrites_put)
  with ci [of j] own free new show ?thesis unfolding client_inv_def by simp
qed

lemma client_inv_read:
  assumes "client_inv lock cid (store kv) pc rd" and "reading pc"
  shows "client_inv lock cid (store kv) pc (Some (KVServer_Get \<lparr>ga_Key = lock\<rparr> kv))"
  using assms
  by (cases "store kv lock")
    (auto simp: client_inv_def KVServer_Get_def overwrites_def stale_def owner_known_def free_known_def reading_def)

lemma client_inv_read_reply:
  assumes "client_inv lock cid m pc (Some r)" and "reading pc" and cid: "cid \<noteq> []"
  shows "client_inv lock cid m (after_get cid pc (read_triple r)) None"
proof -
  from assms(1) have e: "gr_Err r = OK \<or> gr_Err r = ErrNoKey"
    and nokey: "gr_Err r = ErrNoKey \<Longrightarrow> overwrites lock 0 [] m"
    and ok: "gr_Err r = OK \<Longrightarrow> overwrites lock (gr_Version r) (gr_Value r) m"
    and own: "owner_known cid pc (Some r) \<Longrightarrow> \<exists>x. m lock = Some x \<and> vv_Value x = cid"
    and free: "free_known cid pc (Some r) \<Longrightarrow> \<forall>x. m lock = Some x \<longrightarrow> vv_Value x \<noteq> cid"
    by (auto simp: client_inv_def)
  from assms(2) consider "pc = AcqGet" | "pc = AcqCheck" | "pc = RelGet" | "pc = RelCheck"
    by (auto simp: reading_def)
  then show ?thesis
  proof cases
    case 1
    with e nokey ok own show ?thesis
      by (auto simp: client_inv_def read_triple_def owner_known_def free_known_def)
  next
    case 2
    with e own show ?thesis
      by (auto simp: client_inv_def read_triple_def owner_known_def free_known_def)
  next
    case 3
    with e ok free show ?thesis
      by (auto simp: client_inv_def read_triple_def owner_known_def free_known_def)
  next
    case 4
    show ?thesis
    proof (cases "releaseCheck (read_triple r)")
      case True
      with 4 have idle: "after_get cid pc (read_triple r) = Idle" by simp
      have "\<not> (gr_Err r = OK \<and> gr_Value r = cid)"
        using True cid by (auto simp: read_triple_def)
      with 4 free idle show ?thesis by (auto simp: client_inv_def owner_known_def free_known_def)
    next
      case False
      with 4 show ?thesis by (simp add: client_inv_def owner_known_def free_known_def)
    qed
  qed
qed

lemma client_inv_idle:
  "client_inv lock cid m Idle rd \<Longrightarrow> client_inv lock cid m AcqGet None"
  "client_inv lock cid m Held rd \<Longrightarrow> client_inv lock cid m RelGet None"
  by (simp_all add: client_inv_def owner_known_def free_known_def)

lemma client_inv_retried:
  "client_inv lock cid m pc rd \<Longrightarrow> client_inv lock cid m (set_retried pc) rd"
  by (cases pc) (simp_all add: client_inv_def owner_known_def free_known_def)

lemma client_inv_after_put:
  "client_inv lock cid m pc rd \<Longrightarrow> put_of lock cid pc = Some a \<Longrightarrow>
    client_inv lock cid m (after_put pc e) None"
  by (cases pc) (auto simp: client_inv_def owner_known_def free_known_def)

lemma lock_invD:
  assumes "lock_inv lock ids s"
  shows "client_inv lock (ids j) (store (ls_srv s)) (ls_pc s j) (ls_read s j)"
    and "(j, a) \<in> ls_sent s \<Longrightarrow> pa_Key a = lock"
    and "(j, a) \<in> ls_sent s \<Longrightarrow>
      stale lock (pa_Version a) (store (ls_srv s)) \<or> put_of lock (ids j) (ls_pc s j) = Some a"
    and "(j, a, e) \<in> ls_replies s \<Longrightarrow> stale lock (pa_Version a) (store (ls_srv s))"
  using assms unfolding lock_inv_def by blast+

text \<open>A client moves: its own invariant holds at the new place, and the puts it leaves are stale.\<close>

lemma lock_inv_move:
  assumes "lock_inv lock ids s" and "client_inv lock (ids i) (store (ls_srv s)) pc rd"
    and "\<And>a. (i, a) \<in> ls_sent s \<Longrightarrow> put_of lock (ids i) (ls_pc s i) = Some a \<Longrightarrow>
      stale lock (pa_Version a) (store (ls_srv s)) \<or> put_of lock (ids i) pc = Some a"
  shows "lock_inv lock ids (s\<lparr>ls_pc := (ls_pc s)(i := pc), ls_read := (ls_read s)(i := rd)\<rparr>)"
  unfolding lock_inv_def
proof (intro conjI allI impI)
  let ?s = "s\<lparr>ls_pc := (ls_pc s)(i := pc), ls_read := (ls_read s)(i := rd)\<rparr>"
  fix j
  show "client_inv lock (ids j) (store (ls_srv ?s)) (ls_pc ?s j) (ls_read ?s j)"
    using assms(2) lock_invD(1) [OF assms(1), of j] by simp
  fix a
  show "pa_Key a = lock" if "(j, a) \<in> ls_sent ?s" using lock_invD(2) [OF assms(1)] that by simp
  show "stale lock (pa_Version a) (store (ls_srv ?s)) \<or> put_of lock (ids j) (ls_pc ?s j) = Some a"
    if "(j, a) \<in> ls_sent ?s"
    using lock_invD(3) [OF assms(1), of j a] assms(3) [of a] that by (cases "j = i") auto
  fix e
  show "stale lock (pa_Version a) (store (ls_srv ?s))" if "(j, a, e) \<in> ls_replies ?s"
    using lock_invD(4) [OF assms(1)] that by simp
qed

lemma lock_inv_step:
  assumes ids: "inj ids" "\<And>j. ids j \<noteq> []" and inv: "lock_inv lock ids s" and st: "lock_step lock ids s s'"
  shows "lock_inv lock ids s'"
  using st
proof cases
  case (acquire i)
  then show ?thesis
    using lock_inv_move [OF inv, of i AcqGet None] client_inv_idle(1) lock_invD(1) [OF inv, of i] by simp
next
  case (release i)
  then show ?thesis
    using lock_inv_move [OF inv, of i RelGet None] client_inv_idle(2) lock_invD(1) [OF inv, of i] by simp
next
  case (read i)
  have "lock_inv lock ids (s\<lparr>ls_pc := (ls_pc s)(i := ls_pc s i), ls_read := (ls_read s)(i \<mapsto>
      KVServer_Get \<lparr>ga_Key = lock\<rparr> (ls_srv s))\<rparr>)"
    using client_inv_read [OF lock_invD(1) [OF inv] read(2)] by (intro lock_inv_move [OF inv]) auto
  with read show ?thesis by simp
next
  case (read_reply i r)
  have np: "put_of lock (ids i) (ls_pc s i) = None" using read_reply(2) by (auto simp: reading_def)
  have "client_inv lock (ids i) (store (ls_srv s)) (ls_pc s i) (Some r)"
    using lock_invD(1) [OF inv, of i] read_reply by simp
  from client_inv_read_reply [OF this read_reply(2) ids(2)] np
  have "lock_inv lock ids (s\<lparr>ls_pc := (ls_pc s)(i := after_get (ids i) (ls_pc s i) (read_triple r)),
      ls_read := (ls_read s)(i := None)\<rparr>)"
    by (intro lock_inv_move [OF inv]) auto
  moreover have "s' = s\<lparr>ls_pc := (ls_pc s)(i := after_get (ids i) (ls_pc s i) (read_triple r)),
      ls_read := (ls_read s)(i := None)\<rparr>" using read_reply(1) by simp
  ultimately show ?thesis by simp
next
  case (send i a)
  with inv put_of_value [OF send(2)] show ?thesis by (auto simp: lock_inv_def)
next
  case (lost i a)
  have "put_of lock (ids i) (set_retried (ls_pc s i)) = put_of lock (ids i) (ls_pc s i)"
    by (cases "ls_pc s i") auto
  then have "lock_inv lock ids (s\<lparr>ls_pc := (ls_pc s)(i := set_retried (ls_pc s i)),
      ls_read := (ls_read s)(i := ls_read s i)\<rparr>)"
    using client_inv_retried [OF lock_invD(1) [OF inv]] by (intro lock_inv_move [OF inv]) auto
  with lost show ?thesis by simp
next
  case (execute i a r kv)
  let ?m = "store (ls_srv s)"
  have kv: "store kv = snd (put_view a ?m)" "pr_Err r = fst (put_view a ?m)"
    using KVServer_Put_view [of a "ls_srv s"] execute(3) by simp_all
  have key: "pa_Key a = lock" using lock_invD(2) [OF inv execute(2)] .
  have "stale lock (pa_Version a) (store kv)"
  proof (cases "fst (put_view a ?m) = OK")
    case True
    with stale_put [OF True] key kv show ?thesis by simp
  next
    case False
    have "stale lock (pa_Version a) ?m"
      using lock_invD(3) [OF inv execute(2)]
    proof
      assume p: "put_of lock (ids i) (ls_pc s i) = Some a"
      with lock_invD(1) [OF inv, of i]
      have "overwrites (pa_Key a) (pa_Version a) (expected (ids i) (ls_pc s i)) ?m"
        using key by (auto simp: client_inv_def)
      from overwrites_ok(1) [OF this] False key show ?thesis by simp
    qed
    with stale_mono kv show ?thesis by simp
  qed
  moreover have "stale lock v (store kv)" if "stale lock v ?m" for v
    using stale_mono [OF that] kv by simp
  ultimately show ?thesis
    using client_inv_execute [OF ids inv execute(2)] lock_invD(2-4) [OF inv] execute(1) kv
    unfolding lock_inv_def by fastforce
next
  case (put_reply i a e)
  have st: "stale lock (pa_Version b) (store (ls_srv s))"
    if "put_of lock (ids i) (ls_pc s i) = Some b" for b
    using that put_reply(2) lock_invD(4) [OF inv put_reply(3)] by simp
  have "lock_inv lock ids (s\<lparr>ls_pc := (ls_pc s)(i := after_put (ls_pc s i) e), ls_read := (ls_read s)(i := None)\<rparr>)"
    using client_inv_after_put [OF lock_invD(1) [OF inv] put_reply(2)] st by (intro lock_inv_move [OF inv]) auto
  with put_reply show ?thesis by simp
next
  case (other_key a)
  let ?kv = "snd (KVServer_Put a (ls_srv s))"
  have same: "store ?kv lock = store (ls_srv s) lock"
    using put_view_frame [of lock a] other_key(2) by (simp add: KVServer_Put_view)
  then have "client_inv lock c (store ?kv) pc rd = client_inv lock c (store (ls_srv s)) pc rd" for c pc rd
    by (simp add: client_inv_def overwrites_def stale_def)
  moreover have "stale lock v (store ?kv) = stale lock v (store (ls_srv s))" for v
    using same by (simp add: stale_def)
  ultimately show ?thesis using inv other_key(1) by (simp add: lock_inv_def)
qed

theorem lock_inv_reachable:
  assumes "inj ids" and "\<And>j. ids j \<noteq> []" and "lock_reachable lock ids s"
  shows "lock_inv lock ids s"
  using assms(3)
proof (induction rule: lock_reachable.induct)
  case (start s)
  then show ?case
    using assms(2) not_sym [OF assms(2)] by (auto simp: lock_initial_def lock_inv_def client_inv_def owner_known_def free_known_def)
next
  case (step s s')
  then show ?case using lock_inv_step [OF assms(1,2)] by blast
qed

end
