(* ===== verification/GoStrings.thy ===== *)
theory GoStrings
  imports Prelude
begin

section \<open>Strings and numbers of the Go standard library\<close>

text \<open>
  What the code uses of \<open>strings\<close> and \<open>strconv\<close>: splitting, trimming, decimal printing and parsing.
  A string is its list of bytes.
\<close>

fun splitOn :: "char \<Rightarrow> string \<Rightarrow> string list" where
  "splitOn c [] = [[]]"
| "splitOn c (x # xs) =
     (if x = c then [] # splitOn c xs
      else case splitOn c xs of p # ps \<Rightarrow> (x # p) # ps | [] \<Rightarrow> [[x]])"

text \<open>ASCII white space; \<open>strings.TrimSpace\<close> also knows the Unicode ones.\<close>

definition isSpace :: "char \<Rightarrow> bool" where
  "isSpace c \<longleftrightarrow> of_char c \<in> {9, 10, 11, 12, 13, 32 :: nat}"

definition TrimSpace :: "string \<Rightarrow> string" where
  "TrimSpace s = rev (dropWhile isSpace (rev (dropWhile isSpace s)))"

definition isDigit :: "char \<Rightarrow> bool" where
  "isDigit c \<longleftrightarrow> 48 \<le> (of_char c :: nat) \<and> (of_char c :: nat) \<le> 57"

fun natDigits :: "nat \<Rightarrow> string" where
  "natDigits n = (if n < 10 then [char_of (48 + n)] else natDigits (n div 10) @ [char_of (48 + n mod 10)])"

declare natDigits.simps [simp del]

text \<open>\<open>%d\<close> and \<open>strconv.Itoa\<close>.\<close>

definition itoa :: "int \<Rightarrow> string" where
  "itoa i = (if i < 0 then CHR ''-'' # natDigits (nat (- i)) else natDigits (nat i))"

text \<open>Decimal digits to a number; \<open>strconv.Atoi\<close> of a string (\<open>None\<close> is its error).\<close>

definition digitsVal :: "string \<Rightarrow> nat" where
  "digitsVal ds = foldl (\<lambda>n c. 10 * n + (of_char c - 48)) 0 ds"

definition Atoi :: "string \<Rightarrow> int option" where
  "Atoi s =
     (let neg = (take 1 s = ''-''); ds = (if take 1 s = ''-'' \<or> take 1 s = ''+'' then tl s else s);
          v = int (digitsVal ds)
      in if ds = [] \<or> \<not> list_all isDigit ds then None
         else if neg then (if v \<le> 2 ^ 63 then Some (- v) else None)
         else (if v < 2 ^ 63 then Some v else None))"

lemma isDigit_char [simp]: "(n :: nat) < 10 \<Longrightarrow> isDigit (char_of (48 + n))"
  by (simp add: isDigit_def)

lemma natDigits_digits: "c \<in> set (natDigits n) \<Longrightarrow> isDigit c"
  by (induction n rule: natDigits.induct) (subst (asm) natDigits.simps, auto split: if_splits)

lemma dropWhile_all: "(\<And>x. x \<in> set xs \<Longrightarrow> P x) \<Longrightarrow> dropWhile P (xs @ ys) = dropWhile P ys"
  by (induction xs) auto

lemma natDigits_nonempty [simp]: "natDigits n \<noteq> []"
  by (subst natDigits.simps) simp

lemma digitsVal_snoc: "digitsVal (ds @ [c]) = 10 * digitsVal ds + (of_char c - 48)"
  by (simp add: digitsVal_def)

lemma digitsVal_natDigits [simp]: "digitsVal (natDigits n) = n"
proof (induction n rule: natDigits.induct)
  case (1 n)
  show ?case
  proof (cases "n < 10")
    case True
    then show ?thesis by (subst natDigits.simps) (simp add: digitsVal_def)
  next
    case False
    with 1 have "digitsVal (natDigits (n div 10) @ [char_of (48 + n mod 10)]) = 10 * (n div 10) + n mod 10"
      by (simp add: digitsVal_snoc)
    with False show ?thesis by (subst natDigits.simps) simp
  qed
qed

text \<open>No leading zero.\<close>

lemma natDigits_hd: "hd (natDigits n) = CHR ''0'' \<Longrightarrow> n = 0"
proof (induction n rule: natDigits.induct)
  case (1 n)
  show ?case
  proof (cases "n < 10")
    case True
    with 1(2) have "char_of (48 + n) = CHR ''0''" by (simp add: natDigits.simps)
    then have "of_char (char_of (48 + n) :: char) = (48 :: nat)" by (simp only: ) simp
    with True show ?thesis by simp
  next
    case False
    with 1(2) have "hd (natDigits (n div 10)) = CHR ''0''" by (simp add: natDigits.simps [of n])
    with 1(1) False have "n div 10 = 0" by simp
    with False show ?thesis by simp
  qed
qed

lemma natDigits_0: "natDigits 0 = ''0''"
  by (subst natDigits.simps) (simp add: char_of_eq_iff)

lemma isDigit_minus [simp]: "\<not> isDigit (CHR ''-'')" "\<not> isDigit (CHR ''+'')"
  by (simp_all add: isDigit_def)

lemma natDigits_split:
  assumes "rest = [] \<or> \<not> isDigit (hd rest)"
  shows "takeWhile isDigit (natDigits n @ rest) = natDigits n"
    and "dropWhile isDigit (natDigits n @ rest) = rest"
  using assms natDigits_digits
  by (cases rest; force simp: takeWhile_append2 dropWhile_append2)+

text \<open>Printing and parsing a number is a round trip.\<close>

lemma Atoi_itoa:
  assumes "- (2 ^ 63) \<le> i" and "i < 2 ^ 63"
  shows "Atoi (itoa i) = Some i"
proof -
  have d: "list_all isDigit (natDigits n)" for n
    using natDigits_digits by (simp add: list_all_iff)
  have h: "hd (natDigits n) \<noteq> CHR ''-''" "hd (natDigits n) \<noteq> CHR ''+''" for n
    using natDigits_digits [of "hd (natDigits n)" n] by auto
  have t: "take 1 (natDigits n) = [hd (natDigits n)]" for n
    by (cases "natDigits n") auto
  show ?thesis
  proof (cases "i < 0")
    case True
    with assms d show ?thesis by (simp add: Atoi_def itoa_def Let_def)
  next
    case False
    with assms d h t show ?thesis by (simp add: Atoi_def itoa_def Let_def)
  qed
qed

end
