(* ===== verification/Transport.thy ===== *)
theory Transport
  imports KVClerk GoStrings
begin

section \<open>The two transports (internal/transport)\<close>

text \<open>
  \<open>GRPCNetwork\<close> (net/rpc over pooled TCP connections, with one hidden retry) and \<open>LocalNetwork\<close>
  (in-memory calls with partitions, used by the tests), and the \<open>.env\<close> file that maps addresses.
  The library calls underneath are arguments: \<open>Dial\<close> connects to an address, \<open>rpcCall\<close> is
  \<open>client.Call\<close> on a connection. A connection is named by the address it was dialled to.
\<close>

subsection \<open>The environment file (transport/grpc.go)\<close>

text \<open>What a directory on the path to the root holds under the name \<open>.env\<close>.\<close>

datatype env_file = Missing | Unreadable | EnvLines "string list"

definition parseEnvLine :: "string \<Rightarrow> (string \<rightharpoonup> string) \<Rightarrow> (string \<rightharpoonup> string)" where
  "parseEnvLine raw m =
     (let line = TrimSpace raw in
      if line = [] \<or> take 1 line = ''#'' then m
      else if CHR ''='' \<in> set line then
        m(TrimSpace (takeWhile (\<lambda>c. c \<noteq> CHR ''='') line) \<mapsto>
          TrimSpace (tl (dropWhile (\<lambda>c. c \<noteq> CHR ''='') line)))
      else m)"

fun walkEnv :: "env_file list \<Rightarrow> (string \<rightharpoonup> string)" where
  "walkEnv [] = Map.empty"
| "walkEnv (Missing # parents) = walkEnv parents"
| "walkEnv (Unreadable # _) = Map.empty"
| "walkEnv (EnvLines ls # _) = fold parseEnvLine ls Map.empty"

text \<open>The directories from the working directory up; \<open>None\<close> when \<open>os.Getwd\<close> fails.\<close>

definition loadEnvFile :: "env_file list option \<Rightarrow> (string \<rightharpoonup> string)" where
  "loadEnvFile cwd = (case cwd of None \<Rightarrow> Map.empty | Some dirs \<Rightarrow> walkEnv dirs)"

record environment =
  env_os :: "string \<Rightarrow> string"              \<comment> \<open>\<open>os.Getenv\<close>, empty when unset\<close>
  env_dirs :: "env_file list option"

definition GetEnv :: "environment \<Rightarrow> string \<Rightarrow> string \<Rightarrow> string" where
  "GetEnv env key defaultVal =
     (if env_os env key \<noteq> [] then env_os env key
      else case loadEnvFile (env_dirs env) key of Some val \<Rightarrow> val | None \<Rightarrow> defaultVal)"

definition translateAddr :: "environment \<Rightarrow> string \<Rightarrow> string" where
  "translateAddr env addr = GetEnv env (''MAP_'' @ addr) addr"

subsection \<open>GRPCNetwork\<close>

record 'w grpc =
  gn_conns :: "string \<rightharpoonup> string"          \<comment> \<open>peer address to the connection\<close>
  gn_world :: 'w

definition NewGRPCNetwork :: "'w \<Rightarrow> 'w grpc" where
  "NewGRPCNetwork w = \<lparr>gn_conns = Map.empty, gn_world = w\<rparr>"

text \<open>\<open>rpc.Dial\<close> of the translated address, and the new client put in the pool.\<close>

definition dialPeer ::
  "(string \<Rightarrow> 'w \<Rightarrow> bool \<times> 'w) \<Rightarrow> environment \<Rightarrow> string \<Rightarrow> 'w grpc \<Rightarrow> string option \<times> 'w grpc" where
  "dialPeer Dial env peerAddr gn =
     (let translatedAddr = translateAddr env peerAddr;
          (ok, w) = Dial translatedAddr (gn_world gn)
      in if ok then (Some translatedAddr,
           gn\<lparr>gn_world := w, gn_conns := (gn_conns gn)(peerAddr \<mapsto> translatedAddr)\<rparr>)
         else (None, gn\<lparr>gn_world := w\<rparr>))"

definition clientCall ::
  "'w network \<Rightarrow> string \<Rightarrow> string \<Rightarrow> payload \<Rightarrow> 'w grpc \<Rightarrow> result option \<times> 'w grpc" where
  "clientCall rpcCall client meth args gn =
     (let (rep, w) = rpcCall client meth args (gn_world gn) in (rep, gn\<lparr>gn_world := w\<rparr>))"

definition GRPC_Call ::
  "(string \<Rightarrow> 'w \<Rightarrow> bool \<times> 'w) \<Rightarrow> 'w network \<Rightarrow> environment \<Rightarrow> 'w grpc network" where
  "GRPC_Call Dial rpcCall env peerAddr meth args gn =
     (case (case gn_conns gn peerAddr of
              Some client \<Rightarrow> (Some client, gn)
            | None \<Rightarrow> dialPeer Dial env peerAddr gn) of
        (None, gn) \<Rightarrow> (None, gn)
      | (Some client, gn) \<Rightarrow>
          (case clientCall rpcCall client meth args gn of
             (Some reply, gn) \<Rightarrow> (Some reply, gn)
           | (None, gn) \<Rightarrow>
               let gn = gn\<lparr>gn_conns := (gn_conns gn)(peerAddr := None)\<rparr> in
               (case dialPeer Dial env peerAddr gn of
                  (None, gn) \<Rightarrow> (None, gn)
                | (Some client, gn) \<Rightarrow> clientCall rpcCall client meth args gn)))"

definition GRPC_Close :: "'w grpc \<Rightarrow> 'w grpc" where
  "GRPC_Close gn = gn\<lparr>gn_conns := Map.empty\<rparr>"

subsection \<open>LocalNetwork\<close>

text \<open>
  The requests the code sends, as far as \<open>getCallerAddr\<close> tells them apart, and a receiver as the map
  from its method names to their code.
\<close>

datatype 'c rpc_args =
    KVArgs payload
  | VoteArgs RequestVoteArgs
  | AppendArgs "'c AppendEntriesArgs"
  | SnapArgs "'c InstallSnapshotArgs"

type_synonym ('c, 'r, 'w) receiver = "string \<rightharpoonup> ('c rpc_args \<Rightarrow> 'w \<Rightarrow> 'r \<times> 'w)"

record ('c, 'r, 'w) LocalNetwork =
  ln_receivers :: "string \<rightharpoonup> (string \<rightharpoonup> ('c, 'r, 'w) receiver)"
  ln_disabled :: "string \<rightharpoonup> (string \<rightharpoonup> bool)"
  ln_unreliable :: bool

definition NewLocalNetwork :: "('c, 'r, 'w) LocalNetwork" where
  "NewLocalNetwork = \<lparr>ln_receivers = Map.empty, ln_disabled = Map.empty, ln_unreliable = False\<rparr>"

definition LN_Register ::
  "string \<Rightarrow> string \<Rightarrow> ('c, 'r, 'w) receiver \<Rightarrow> ('c, 'r, 'w) LocalNetwork \<Rightarrow> ('c, 'r, 'w) LocalNetwork" where
  "LN_Register peerAddr serviceName rcvr ln =
     (let srvs = (case ln_receivers ln peerAddr of None \<Rightarrow> Map.empty | Some m \<Rightarrow> m) in
      ln\<lparr>ln_receivers := (ln_receivers ln)(peerAddr \<mapsto> srvs(serviceName \<mapsto> rcvr))\<rparr>)"

text \<open>The \<open>int\<close> field \<open>CandidateID\<close>, \<open>LeaderID\<close> or \<open>Me\<close> of the arguments, -1 when there is none.\<close>

fun callerIndex :: "'c rpc_args \<Rightarrow> int" where
  "callerIndex (KVArgs _) = -1"
| "callerIndex (VoteArgs a) = rv_CandidateID a"
| "callerIndex (AppendArgs a) = ae_LeaderID a"
| "callerIndex (SnapArgs a) = is_LeaderID a"

definition getCallerAddr :: "string \<Rightarrow> 'c rpc_args \<Rightarrow> string" where
  "getCallerAddr destAddr args =
     (let idx = callerIndex args in
      if idx = -1 then []
      else rev (dropWhile isDigit (rev destAddr)) @ itoa idx)"

definition isDisabled :: "string \<Rightarrow> string \<Rightarrow> ('c, 'r, 'w) LocalNetwork \<Rightarrow> bool" where
  "isDisabled caller peer ln =
     (case ln_disabled ln caller of None \<Rightarrow> False | Some m \<Rightarrow> m peer = Some True)"

text \<open>\<open>lost\<close> is \<open>rand.Intn(100) < 15\<close>; \<open>None\<close> is false, and then nothing was called.\<close>

definition LN_Call ::
  "bool \<Rightarrow> ('c, 'r, 'w) LocalNetwork \<Rightarrow> string \<Rightarrow> string \<Rightarrow> 'c rpc_args \<Rightarrow> 'w \<Rightarrow> 'r option \<times> 'w" where
  "LN_Call lost ln peerAddr meth args w =
     (let parts = splitOn (CHR ''.'') meth in
      if length parts \<noteq> 2 then (None, w)
      else
        let serviceName = parts ! 0; methodName = parts ! 1 in
        if ln_unreliable ln \<and> lost then (None, w)
        else
          let callerAddr = getCallerAddr peerAddr args in
          if callerAddr \<noteq> [] \<and> isDisabled callerAddr peerAddr ln then (None, w)
          else case ln_receivers ln peerAddr of
            None \<Rightarrow> (None, w)
          | Some srvs \<Rightarrow> (case srvs serviceName of
              None \<Rightarrow> (None, w)
            | Some rcvr \<Rightarrow> (case rcvr methodName of
                None \<Rightarrow> (None, w)
              | Some m \<Rightarrow> (case m args w of (r, w') \<Rightarrow> (Some r, w')))))"

definition LN_Partition :: "string \<Rightarrow> string \<Rightarrow> ('c, 'r, 'w) LocalNetwork \<Rightarrow> ('c, 'r, 'w) LocalNetwork" where
  "LN_Partition peer1 peer2 ln =
     (let ensure = (\<lambda>p d. case d p of None \<Rightarrow> d(p \<mapsto> Map.empty) | Some _ \<Rightarrow> d);
          put = (\<lambda>p q d. d(p \<mapsto> (the (d p))(q \<mapsto> True)));
          d = ensure peer2 (ensure peer1 (ln_disabled ln))
      in ln\<lparr>ln_disabled := put peer2 peer1 (put peer1 peer2 d)\<rparr>)"

definition LN_Heal :: "string \<Rightarrow> string \<Rightarrow> ('c, 'r, 'w) LocalNetwork \<Rightarrow> ('c, 'r, 'w) LocalNetwork" where
  "LN_Heal peer1 peer2 ln =
     (let del = (\<lambda>p q d. case d p of None \<Rightarrow> d | Some m \<Rightarrow> d(p \<mapsto> m(q := None)))
      in ln\<lparr>ln_disabled := del peer2 peer1 (del peer1 peer2 (ln_disabled ln))\<rparr>)"

definition LN_SetUnreliable :: "bool \<Rightarrow> ('c, 'r, 'w) LocalNetwork \<Rightarrow> ('c, 'r, 'w) LocalNetwork" where
  "LN_SetUnreliable unreliable ln = ln\<lparr>ln_unreliable := unreliable\<rparr>"

subsection \<open>Partitions\<close>

lemma isDisabled_Partition:
  "isDisabled a b (LN_Partition p q ln) \<longleftrightarrow>
     (a = p \<and> b = q) \<or> (a = q \<and> b = p) \<or> isDisabled a b ln"
  by (auto simp: isDisabled_def LN_Partition_def Let_def split: option.splits)

lemma isDisabled_Heal:
  "isDisabled a b (LN_Heal p q ln) \<longleftrightarrow>
     \<not> (a = p \<and> b = q) \<and> \<not> (a = q \<and> b = p) \<and> isDisabled a b ln"
  by (auto simp: isDisabled_def LN_Heal_def Let_def split: option.splits)

lemma LN_frame [simp]:
  "ln_receivers (LN_Partition p q ln) = ln_receivers ln" "ln_receivers (LN_Heal p q ln) = ln_receivers ln"
  "ln_unreliable (LN_Partition p q ln) = ln_unreliable ln" "ln_unreliable (LN_Heal p q ln) = ln_unreliable ln"
  by (simp_all add: LN_Partition_def LN_Heal_def Let_def)

lemma LN_Call_blocked:
  assumes "getCallerAddr peer args \<noteq> []" and "isDisabled (getCallerAddr peer args) peer ln"
  shows "LN_Call lost ln peer meth args w = (None, w)"
  using assms by (simp add: LN_Call_def Let_def)

lemma LN_Call_cong:
  assumes "ln_receivers ln' peer = ln_receivers ln peer" and "ln_unreliable ln' = ln_unreliable ln"
    and "getCallerAddr peer args \<noteq> [] \<Longrightarrow>
      isDisabled (getCallerAddr peer args) peer ln' = isDisabled (getCallerAddr peer args) peer ln"
  shows "LN_Call lost ln' peer meth args w = LN_Call lost ln peer meth args w"
  using assms by (cases "getCallerAddr peer args = []") (simp_all add: LN_Call_def Let_def)

subsection \<open>Addresses of peers\<close>

text \<open>The peers of a group are named by a common prefix and their index.\<close>

lemma getCallerAddr_peer:
  assumes "prefix \<noteq> []" and "\<not> isDigit (last prefix)" and "0 \<le> i" and "callerIndex args = i" and "0 \<le> j"
  shows "getCallerAddr (prefix @ itoa j) args = prefix @ itoa i"
proof -
  have "dropWhile isDigit (rev (itoa j) @ rev prefix) = dropWhile isDigit (rev prefix)"
    using natDigits_digits assms(5) by (intro dropWhile_all) (auto simp: itoa_def)
  also have "\<dots> = rev prefix"
    using assms(1,2) by (cases prefix rule: rev_cases) simp_all
  finally show ?thesis using assms by (simp add: getCallerAddr_def Let_def)
qed

subsection \<open>The hidden retry\<close>

text \<open>A call that succeeds at once runs once; otherwise the request may have run twice.\<close>

lemma GRPC_Call_cases:
  assumes "GRPC_Call Dial rpcCall env peer meth args gn = (res, gn')"
  obtains (no_connection) "res = None"
  | (one_attempt) client w where "rpcCall client meth args w = (res, gn_world gn')" "res \<noteq> None"
  | (two_attempts) client w w1 client2 w2 where "rpcCall client meth args w = (None, w1)"
      "rpcCall client2 meth args w2 = (res, gn_world gn')"
      "Dial (translateAddr env peer) w1 = (True, w2)"
  using assms
  by (auto simp: GRPC_Call_def dialPeer_def clientCall_def Let_def
      split: option.splits prod.splits if_splits)

end
