(* ===== verification/Persist.thy ===== *)
theory Persist
  imports Core
begin

section \<open>Durable storage (internal/persist, core.Persister)\<close>

text \<open>
  The \<open>Persister\<close> interface as a locale, and its two implementations: \<open>MemoryPersister\<close>
  (persist/memory.go) and \<open>DiskPersister\<close> (persist/disk.go) over a file system given as a map
  from paths to contents. A system call of the disk persister may fail; which ones do is the
  argument \<open>io\<close> of the operation.
\<close>

subsection \<open>The interface\<close>

text \<open>
  The laws Raft relies on. The snapshot is compared by its contents, since Raft tests only
  \<open>len(snapshot) > 0\<close>; \<open>readSnap_keep\<close> is the law behind \<open>persist()\<close>, which saves the state with the
  snapshot it has just read.
\<close>

locale persister_spec =
  fixes save :: "'b list \<Rightarrow> 'b list option \<Rightarrow> 'p \<Rightarrow> 'p"
    and readState :: "'p \<Rightarrow> 'b list"
    and readSnap :: "'p \<Rightarrow> 'b list option"
    and ok :: "'p \<Rightarrow> bool"
  assumes ok_save: "ok p \<Longrightarrow> ok (save s d p)"
    and readState_save: "ok p \<Longrightarrow> readState (save s d p) = s"
    and readSnap_save: "ok p \<Longrightarrow> slice d \<noteq> [] \<Longrightarrow> slice (readSnap (save s d p)) = slice d"
    and readSnap_keep: "ok p \<Longrightarrow> slice (readSnap (save s (readSnap p) p)) = slice (readSnap p)"
begin

fun saves :: "('b list \<times> 'b list option) list \<Rightarrow> 'p \<Rightarrow> 'p" where
  "saves [] p = p"
| "saves ((s, None) # es) p = saves es (save s (readSnap p) p)"
| "saves ((s, Some d) # es) p = saves es (save s (Some d) p)"

text \<open>What the two reads return after a run of Raft's saves depends on the run alone.\<close>

fun last_state :: "('b list \<times> 'b list option) list \<Rightarrow> 'b list \<Rightarrow> 'b list" where
  "last_state [] s0 = s0"
| "last_state ((s, d) # es) s0 = last_state es s"

fun last_snap :: "('b list \<times> 'b list option) list \<Rightarrow> 'b list \<Rightarrow> 'b list" where
  "last_snap [] d0 = d0"
| "last_snap ((s, None) # es) d0 = last_snap es d0"
| "last_snap ((s, Some d) # es) d0 = last_snap es d"

lemma saves_reads:
  assumes "ok p" and "\<forall>(s, d) \<in> set es. d \<noteq> Some []"
  shows "readState (saves es p) = last_state es (readState p)"
    and "slice (readSnap (saves es p)) = last_snap es (slice (readSnap p))"
    and "ok (saves es p)"
  using assms
proof (induction es p rule: saves.induct)
  case (1 p)
  { case 1 then show ?case by simp next case 2 then show ?case by simp
    next case 3 then show ?case by simp }
next
  case (2 s es p)
  { case 1 with "2.IH"(1) show ?case by (simp add: ok_save readState_save)
    next case 2 with "2.IH"(2) show ?case by (simp add: ok_save readSnap_keep)
    next case 3 with "2.IH"(3) show ?case by (simp add: ok_save) }
next
  case (3 s d es p)
  { case 1 with "3.IH"(1) show ?case by (simp add: ok_save readState_save)
    next case 2 with "3.IH"(2) show ?case by (simp add: ok_save readSnap_save)
    next case 3 with "3.IH"(3) show ?case by (simp add: ok_save) }
qed

end

subsection \<open>MemoryPersister\<close>

record 'b MemoryPersister =
  mp_raftstate :: "'b list"
  mp_snapshot :: "'b list option"

definition NewMemoryPersister :: "'b MemoryPersister" where
  "NewMemoryPersister = \<lparr>mp_raftstate = [], mp_snapshot = None\<rparr>"

definition Mem_Save :: "'b list \<Rightarrow> 'b list option \<Rightarrow> 'b MemoryPersister \<Rightarrow> 'b MemoryPersister" where
  "Mem_Save raftstate snapshot p =
     (let p = p\<lparr>mp_raftstate := raftstate\<rparr>
      in if snapshot \<noteq> None then p\<lparr>mp_snapshot := snapshot\<rparr> else p)"

definition Mem_ReadRaftState :: "'b MemoryPersister \<Rightarrow> 'b list" where
  "Mem_ReadRaftState p = mp_raftstate p"

definition Mem_ReadSnapshot :: "'b MemoryPersister \<Rightarrow> 'b list option" where
  "Mem_ReadSnapshot p = mp_snapshot p"

lemmas Mem_defs = Mem_Save_def Mem_ReadRaftState_def Mem_ReadSnapshot_def Let_def

interpretation mem: persister_spec Mem_Save Mem_ReadRaftState Mem_ReadSnapshot "\<lambda>_. True"
  by unfold_locales (auto simp: Mem_defs)

subsection \<open>DiskPersister\<close>

type_synonym path = string
type_synonym 'b fs = "path \<rightharpoonup> 'b list"

record DiskPersister =
  dp_dir :: path

text \<open>
  \<open>os.MkdirAll\<close>, whose error is ignored, makes a directory; a directory that could not be made shows
  as failures of the later calls.
\<close>

definition NewDiskPersister :: "path \<Rightarrow> DiskPersister" where
  "NewDiskPersister dir = \<lparr>dp_dir = dir\<rparr>"

text \<open>Outcome of the system calls of one \<open>writeAtomic\<close>: \<open>io_write = Some k\<close> fails after \<open>k\<close> items.\<close>

record io =
  io_open :: bool
  io_write :: "nat option"
  io_sync :: bool
  io_rename :: bool

definition io_fine :: io where
  "io_fine = \<lparr>io_open = True, io_write = None, io_sync = True, io_rename = True\<rparr>"

definition writeAtomic :: "io \<Rightarrow> path \<Rightarrow> 'b list \<Rightarrow> 'b fs \<Rightarrow> 'b fs" where
  "writeAtomic io filename data fs =
     (let tmpPath = filename @ ''.tmp'' in
      if \<not> io_open io then fs
      else let fs = fs(tmpPath \<mapsto> []) in
      case io_write io of
        Some k \<Rightarrow> fs(tmpPath \<mapsto> take k data)
      | None \<Rightarrow>
        let fs = fs(tmpPath \<mapsto> data) in
        if \<not> io_sync io then fs
        else if \<not> io_rename io then fs
        else (fs(filename := fs tmpPath))(tmpPath := None))"

text \<open>\<open>filepath.Join\<close> of a directory and a plain file name.\<close>

definition joinPath :: "path \<Rightarrow> path \<Rightarrow> path" where
  "joinPath dir name = dir @ ''/'' @ name"

definition statePath :: "path \<Rightarrow> path" where
  "statePath dir = joinPath dir ''raftstate.bin''"

definition snapPath :: "path \<Rightarrow> path" where
  "snapPath dir = joinPath dir ''snapshot.bin''"

text \<open>
  \<open>Save\<close> is two writes (or a write and a removal) one after the other. \<open>Disk_Save_state\<close> is the
  file system between them, where a crash can happen.
\<close>

definition Disk_Save_state :: "path \<Rightarrow> io \<Rightarrow> 'b list \<Rightarrow> 'b fs \<Rightarrow> 'b fs" where
  "Disk_Save_state dir io raftstate fs = writeAtomic io (statePath dir) raftstate fs"

definition Disk_Save_snap :: "path \<Rightarrow> io \<Rightarrow> 'b list option \<Rightarrow> 'b fs \<Rightarrow> 'b fs" where
  "Disk_Save_snap dir io snapshot fs =
     (if length (slice snapshot) > 0 then writeAtomic io (snapPath dir) (slice snapshot) fs
      else fs(snapPath dir := None))"

definition Disk_Save ::
  "path \<Rightarrow> io \<Rightarrow> io \<Rightarrow> 'b list \<Rightarrow> 'b list option \<Rightarrow> 'b fs \<Rightarrow> 'b fs" where
  "Disk_Save dir io1 io2 raftstate snapshot fs =
     Disk_Save_snap dir io2 snapshot (Disk_Save_state dir io1 raftstate fs)"

definition Disk_ReadRaftState :: "path \<Rightarrow> 'b fs \<Rightarrow> 'b list" where
  "Disk_ReadRaftState dir fs = slice (fs (statePath dir))"

definition Disk_ReadSnapshot :: "path \<Rightarrow> 'b fs \<Rightarrow> 'b list option" where
  "Disk_ReadSnapshot dir fs = fs (snapPath dir)"

text \<open>\<open>os.Stat\<close> of the state file; \<open>blen\<close> gives the length of its contents in bytes.\<close>

definition Disk_PersistBytes :: "('b list \<Rightarrow> int) \<Rightarrow> path \<Rightarrow> 'b fs \<Rightarrow> int" where
  "Disk_PersistBytes blen dir fs = (case fs (statePath dir) of None \<Rightarrow> 0 | Some data \<Rightarrow> blen data)"

lemmas Disk_defs = Disk_Save_def Disk_Save_state_def Disk_Save_snap_def
  Disk_ReadRaftState_def Disk_ReadSnapshot_def

lemma path_distinct [simp]:
  "statePath d \<noteq> snapPath d" "snapPath d \<noteq> statePath d"
  "statePath d \<noteq> snapPath d @ ''.tmp''" "snapPath d \<noteq> statePath d @ ''.tmp''"
  "statePath d @ ''.tmp'' \<noteq> snapPath d" "snapPath d @ ''.tmp'' \<noteq> statePath d"
  by (simp_all add: statePath_def snapPath_def joinPath_def)

lemma writeAtomic_other [simp]:
  "q \<noteq> f \<Longrightarrow> q \<noteq> f @ ''.tmp'' \<Longrightarrow> writeAtomic io f data fs q = fs q"
  by (auto simp: writeAtomic_def Let_def split: option.splits)

lemma writeAtomic_fine [simp]: "writeAtomic io_fine f data fs f = Some data"
  by (simp add: writeAtomic_def Let_def io_fine_def)

text \<open>Whatever fails, the target holds either its old contents or all of the new ones.\<close>

lemma writeAtomic_all_or_nothing:
  "writeAtomic io f data fs f = fs f \<or> writeAtomic io f data fs f = Some data"
  by (auto simp: writeAtomic_def Let_def split: option.splits)

interpretation disk: persister_spec "Disk_Save dir io_fine io_fine" "Disk_ReadRaftState dir"
    "Disk_ReadSnapshot dir" "\<lambda>_. True" for dir
  by unfold_locales (auto simp: Disk_defs split: option.splits)

text \<open>
  What a \<open>DiskPersister\<close> holds, as a \<open>MemoryPersister\<close>. Raft saves the snapshot it has read or a
  snapshot that is not empty, and for these saves the two do the same: a Raft peer over one behaves
  as over the other.
\<close>

definition disk_contents :: "DiskPersister \<Rightarrow> 'b fs \<Rightarrow> 'b MemoryPersister" where
  "disk_contents dp fs = \<lparr>mp_raftstate = Disk_ReadRaftState (dp_dir dp) fs,
     mp_snapshot = Disk_ReadSnapshot (dp_dir dp) fs\<rparr>"

lemma disk_contents_Save:
  assumes "d = mp_snapshot (disk_contents dp fs) \<or> slice d \<noteq> []"
    and "mp_snapshot (disk_contents dp fs) \<noteq> Some []"
  shows "disk_contents dp (Disk_Save (dp_dir dp) io_fine io_fine s d fs) = Mem_Save s d (disk_contents dp fs)"
    and "mp_snapshot (Mem_Save s d (disk_contents dp fs)) \<noteq> Some []"
  using assms by (cases d; auto simp: disk_contents_def Disk_defs Mem_defs)+

lemma disk_contents_empty:
  "fs (statePath (dp_dir dp)) = None \<Longrightarrow> fs (snapPath (dp_dir dp)) = None \<Longrightarrow> disk_contents dp fs = NewMemoryPersister"
  by (simp add: disk_contents_def Disk_defs NewMemoryPersister_def)

end
