(* ===== verification/KVProperties.thy ===== *)
theory KVProperties
  imports KVLock Transport Persist
begin

section \<open>Properties of the key/value server, its clerk, its lock and the transports\<close>

text \<open>
  The claims about one key/value server: at-most-once puts and their versions, what the clerk's
  answers mean over an unreliable network, mutual exclusion of the lock, the transports, and the
  files of the persister. Each claim stands right after the sentence that states it.
\<close>

subsection \<open>Versioned puts\<close>

text \<open>C22: A put that succeeded never takes effect a second time: whatever other puts run in between,
  a copy of it is answered \<open>ErrVersion\<close> and changes nothing.\<close>

theorem put_at_most_once:
  assumes "pr_Err (fst (KVServer_Put a kv)) = OK"
  shows "pr_Err (fst (KVServer_Put a (kvs.puts as (snd (KVServer_Put a kv))))) = ErrVersion \<and>
    store (snd (KVServer_Put a (kvs.puts as (snd (KVServer_Put a kv))))) =
      store (kvs.puts as (snd (KVServer_Put a kv)))"
  using kvs.at_most_once [of a as kv] assms by simp

definition demo_create :: PutArgs where
  "demo_create = \<lparr>pa_Key = ''k'', pa_Value = ''a'', pa_Version = 0\<rparr>"

lemma put_at_most_once_witness:
  "pr_Err (fst (KVServer_Put demo_create (kvs.puts [\<lparr>pa_Key = ''k'', pa_Value = ''b'', pa_Version = 1\<rparr>]
     (snd (KVServer_Put demo_create KVServer_New))))) = ErrVersion"
  using put_at_most_once [of demo_create KVServer_New "[\<lparr>pa_Key = ''k'', pa_Value = ''b'', pa_Version = 1\<rparr>]"]
  by (simp add: demo_create_def KVServer_New_def KVServer_Put_def)


text \<open>The version counter wraps: a key at version 2^64 - 1 accepts one more put, is then at
  version 0, and from then on every put to it is refused.\<close>

theorem version_wraps:
  assumes "store kv k = Some \<lparr>vv_Value = v, vv_Version = - 1\<rparr>"
  shows "KVServer_Put \<lparr>pa_Key = k, pa_Value = v1, pa_Version = - 1\<rparr> kv =
      (\<lparr>pr_Err = OK\<rparr>, kv\<lparr>store := (store kv)(k \<mapsto> \<lparr>vv_Value = v1, vv_Version = 0\<rparr>)\<rparr>) \<and>
    (\<forall>a. pa_Key a = k \<longrightarrow>
       KVServer_Put a (kv\<lparr>store := (store kv)(k \<mapsto> \<lparr>vv_Value = v1, vv_Version = 0\<rparr>)\<rparr>) =
       (\<lparr>pr_Err = ErrVersion\<rparr>, kv\<lparr>store := (store kv)(k \<mapsto> \<lparr>vv_Value = v1, vv_Version = 0\<rparr>)\<rparr>))"
  using assms by (auto simp: KVServer_Put_def Let_def)

lemma version_wraps_witness:
  "KVServer_Put \<lparr>pa_Key = ''k'', pa_Value = ''b'', pa_Version = - 1\<rparr>
     \<lparr>store = [''k'' \<mapsto> \<lparr>vv_Value = ''a'', vv_Version = - 1\<rparr>]\<rparr> =
   (\<lparr>pr_Err = OK\<rparr>, \<lparr>store = [''k'' \<mapsto> \<lparr>vv_Value = ''b'', vv_Version = 0\<rparr>]\<rparr>)"
  using version_wraps [of "\<lparr>store = [''k'' \<mapsto> \<lparr>vv_Value = ''a'', vv_Version = - 1\<rparr>]\<rparr>" "''k''" "''a''" "''b''"]
  by simp

text \<open>C29: Log compaction is invisible to the key/value server: restoring the snapshot of the state
  after the operations \<open>ps\<close>, into any other server, and then running \<open>qs\<close> gives the state of
  running \<open>ps @ qs\<close> from the start.\<close>

theorem kvserver_snapshot_replay:
  assumes "run_ops (\<lambda>p kv. Some (KVServer_DoOp p kv)) ps s0 = Some m"
  shows "do { t \<leftarrow> KVServer_Restore (KVServer_Snapshot m :: Op bytes) other;
              run_ops (\<lambda>p kv. Some (KVServer_DoOp p kv)) qs t } =
    run_ops (\<lambda>p kv. Some (KVServer_DoOp p kv)) (ps @ qs) s0"
  by (rule kvs_sm.snapshot_replay) (use assms in simp_all)

lemma kvserver_snapshot_replay_witness:
  "do { t \<leftarrow> KVServer_Restore (KVServer_Snapshot (snd (KVServer_Put demo_create KVServer_New)) :: Op bytes) KVServer_New;
        run_ops (\<lambda>p kv. Some (KVServer_DoOp p kv)) [GetOp \<lparr>ga_Key = ''k''\<rparr>] t } =
   run_ops (\<lambda>p kv. Some (KVServer_DoOp p kv)) [PutOp demo_create, GetOp \<lparr>ga_Key = ''k''\<rparr>] KVServer_New"
  using kvserver_snapshot_replay [of "[PutOp demo_create]" KVServer_New
      "snd (KVServer_Put demo_create KVServer_New)" KVServer_New "[GetOp \<lparr>ga_Key = ''k''\<rparr>]"]
  by (simp add: KVServer_DoOp_reply)

subsection \<open>The clerk\<close>


definition demo_world :: "(action list \<times> fate) list \<Rightarrow> kv_world" where
  "demo_world script = \<lparr>kw_srv = KVServer_New, kw_script = script, kw_sent = [], kw_took = (\<lambda>_. 0)\<rparr>"


text \<open>\<open>ErrMaybe\<close> is ambiguous: with the reply of the first attempt lost the put took effect, with
  the request lost and another client's put in between it did not, and the clerk answers
  \<open>ErrMaybe\<close> both times.\<close>

theorem err_maybe_ambiguous:
  "(\<exists>w'. KVClerk_Put lossy server ''k'' ''a'' 0 (demo_world [([], ReplyLost)]) = Some (ErrMaybe, w') \<and>
      kw_took w' demo_create = 1) \<and>
   (\<exists>w'. KVClerk_Put lossy server ''k'' ''a'' 0
       (demo_world [([], RequestLost), ([Other \<lparr>pa_Key = ''k'', pa_Value = ''b'', pa_Version = 0\<rparr>], Delivered)]) =
      Some (ErrMaybe, w') \<and> kw_took w' demo_create = 0)"
  by (simp add: KVClerk_Put_def KVClerk_PutLoop.simps [of lossy server] lossy_def next_fate_def demo_world_def
      execOp_def execPut_def sending_def KVServer_Put_def KVServer_New_def demo_create_def)

text \<open>Through \<open>GRPCNetwork\<close>, whose \<open>Call\<close> repeats a failed request by itself, the clerk answers
  \<open>ErrVersion\<close> for a put that took effect: the repeated request is the first one it knows of.\<close>

theorem grpc_hides_retry:
  assumes "\<And>w. Dial (translateAddr env server) w = (True, w)"
  shows "\<exists>w'. KVClerk_Put (GRPC_Call Dial lossy env) server ''k'' ''a'' 0
      (NewGRPCNetwork (demo_world [([], ReplyLost)])) = Some (ErrVersion, w') \<and>
    kw_took (gn_world w') demo_create = 1"
  using assms
  by (simp add: KVClerk_Put_def KVClerk_PutLoop.simps [of "GRPC_Call Dial lossy env" server] GRPC_Call_def
      NewGRPCNetwork_def dialPeer_def clientCall_def Let_def lossy_def next_fate_def demo_world_def
      execOp_def execPut_def sending_def KVServer_Put_def KVServer_New_def demo_create_def)

lemma grpc_hides_retry_witness:
  "\<exists>w'. KVClerk_Put (GRPC_Call (\<lambda>_ w. (True, w)) lossy \<lparr>env_os = (\<lambda>_. []), env_dirs = None\<rparr>) ''s'' ''k'' ''a'' 0
      (NewGRPCNetwork (demo_world [([], ReplyLost)])) = Some (ErrVersion, w')"
  using grpc_hides_retry [of "\<lambda>_ w. (True, w)" "\<lparr>env_os = (\<lambda>_. []), env_dirs = None\<rparr>" "''s''"] by auto

subsection \<open>The lock\<close>

text \<open>C10: Mutual exclusion: with distinct client identities, whatever is lost, repeated, late or
  interleaved, no two clients are between \<open>Acquire\<close> and \<open>Release\<close> at the same time, and the one
  that is there is the one named by the lock's value.\<close>

theorem lock_mutual_exclusion:
  assumes "inj ids" and "\<And>j. ids j \<noteq> []" and "lock_reachable lock ids s" and "ls_pc s i = Held"
  shows "(\<exists>x. store (ls_srv s) lock = Some x \<and> vv_Value x = ids i) \<and> (\<forall>j. ls_pc s j = Held \<longrightarrow> j = i)"
proof -
  have inv: "client_inv lock (ids j) (store (ls_srv s)) (ls_pc s j) (ls_read s j)" for j
    using lock_inv_reachable [OF assms(1-3)] by (rule lock_invD(1))
  have own: "\<exists>x. store (ls_srv s) lock = Some x \<and> vv_Value x = ids j" if "ls_pc s j = Held" for j
    using inv [of j] that by (simp add: client_inv_def owner_known_def)
  show ?thesis
    using own [OF assms(4)] own injD [OF assms(1)] by fastforce
qed

text \<open>C40: Once \<open>Release\<close> has returned, the lock does not name the client any more, and no late copy of
  one of its puts can make it do so again.\<close>

theorem released_lock_stays_released:
  assumes "inj ids" and "\<And>j. ids j \<noteq> []" and "lock_reachable lock ids s" and "ls_pc s i = Idle"
  shows "(\<forall>x. store (ls_srv s) lock = Some x \<longrightarrow> vv_Value x \<noteq> ids i) \<and>
    (\<forall>a kv. (i, a) \<in> ls_sent s \<longrightarrow> KVServer_Put a (ls_srv s) = (\<lparr>pr_Err = ErrVersion\<rparr>, ls_srv s))"
proof -
  note inv = lock_inv_reachable [OF assms(1-3)]
  have "\<forall>x. store (ls_srv s) lock = Some x \<longrightarrow> vv_Value x \<noteq> ids i"
    using lock_invD(1) [OF inv, of i] assms(4) by (simp add: client_inv_def free_known_def)
  moreover have "KVServer_Put a (ls_srv s) = (\<lparr>pr_Err = ErrVersion\<rparr>, ls_srv s)" if "(i, a) \<in> ls_sent s" for a
  proof -
    have "stale (pa_Key a) (pa_Version a) (store (ls_srv s))"
      using lock_invD(2,3) [OF inv that] assms(4) by simp
    then show ?thesis
      by (auto simp: stale_def KVServer_Put_def Let_def)
  qed
  ultimately show ?thesis by blast
qed

definition demo_ids :: "nat \<Rightarrow> string" where
  "demo_ids j = hexEncode [1] @ replicate j (CHR ''a'')"

definition demo_lock :: "lock_pc \<Rightarrow> GetReply option \<Rightarrow> (nat \<times> PutArgs) set \<Rightarrow> (nat \<times> PutArgs \<times> Err) set \<Rightarrow> kvmap \<Rightarrow> lock_system" where
  "demo_lock pc rd sent replies m = \<lparr>ls_srv = \<lparr>store = m\<rparr>, ls_pc = (\<lambda>_. Idle)(0 := pc),
     ls_read = (\<lambda>_. None)(0 := rd), ls_sent = sent, ls_replies = replies\<rparr>"

definition demo_acq :: PutArgs where
  "demo_acq = \<lparr>pa_Key = ''l'', pa_Value = demo_ids 0, pa_Version = 0\<rparr>"

definition demo_val :: VersionedValue where
  "demo_val = \<lparr>vv_Value = demo_ids 0, vv_Version = 1\<rparr>"

definition demo_rep :: GetReply where
  "demo_rep = \<lparr>gr_Err = OK, gr_Value = demo_ids 0, gr_Version = 1\<rparr>"

lemma demo_ids_ok: "inj demo_ids" "demo_ids j \<noteq> []"
  by (auto simp: inj_def demo_ids_def dest: arg_cong [where f = length])

lemma store_eta [simp]: "\<lparr>store = store kv\<rparr> = kv"
  by (cases kv) simp

lemma demo_lock_step:
  assumes "lock_reachable ''l'' demo_ids (demo_lock pc rd sent replies m)"
  shows "pc = Idle \<Longrightarrow> lock_reachable ''l'' demo_ids (demo_lock AcqGet None sent replies m)"
    and "reading pc \<Longrightarrow> lock_reachable ''l'' demo_ids
      (demo_lock pc (Some (KVServer_Get \<lparr>ga_Key = ''l''\<rparr> \<lparr>store = m\<rparr>)) sent replies m)"
    and "reading pc \<Longrightarrow> rd = Some r \<Longrightarrow> lock_reachable ''l'' demo_ids
      (demo_lock (after_get (demo_ids 0) pc (read_triple r)) None sent replies m)"
    and "put_of ''l'' (demo_ids 0) pc = Some a \<Longrightarrow>
      lock_reachable ''l'' demo_ids (demo_lock pc rd (insert (0, a) sent) replies m)"
    and "(0, a) \<in> sent \<Longrightarrow> KVServer_Put a \<lparr>store = m\<rparr> = (rep, kv) \<Longrightarrow>
      lock_reachable ''l'' demo_ids (demo_lock pc rd sent (insert (0, a, pr_Err rep) replies) (store kv))"
    and "put_of ''l'' (demo_ids 0) pc = Some a \<Longrightarrow> (0, a, e) \<in> replies \<Longrightarrow>
      lock_reachable ''l'' demo_ids (demo_lock (after_put pc e) None sent replies m)"
  using lock_reachable.step [OF assms lock_step.acquire [of _ 0]]
    lock_reachable.step [OF assms lock_step.read [of _ 0]]
    lock_reachable.step [OF assms lock_step.read_reply [of _ 0 r]]
    lock_reachable.step [OF assms lock_step.send [of _ _ 0 _ a]]
    lock_reachable.step [OF assms lock_step.execute [of 0 a _ rep kv]]
    lock_reachable.step [OF assms lock_step.put_reply [of _ _ 0 _ a e]]
  by (simp_all add: demo_lock_def)

lemma demo_held: "lock_reachable ''l'' demo_ids
    (demo_lock Held None {(0, demo_acq)} {(0, demo_acq, OK)} [''l'' \<mapsto> demo_val])"
proof -
  let ?R = "\<lambda>pc rd sent replies m. lock_reachable ''l'' demo_ids (demo_lock pc rd sent replies m)"
  have "?R Idle None {} {} Map.empty"
    by (rule lock_reachable.start) (simp add: lock_initial_def demo_lock_def fun_upd_idem)
  then have "?R AcqGet None {} {} Map.empty" by (rule demo_lock_step(1)) simp
  then have "?R AcqGet (Some \<lparr>gr_Err = ErrNoKey, gr_Value = [], gr_Version = 0\<rparr>) {} {} Map.empty"
    using demo_lock_step(2) by (fastforce simp: reading_def KVServer_Get_def)
  then have "?R (AcqPut 0 False) None {} {} Map.empty"
    using demo_lock_step(3) by (fastforce simp: reading_def read_triple_def)
  then have "?R (AcqPut 0 False) None {(0, demo_acq)} {} Map.empty"
    by (rule demo_lock_step(4)) (simp add: demo_acq_def)
  then have "?R (AcqPut 0 False) None {(0, demo_acq)} {(0, demo_acq, OK)} [''l'' \<mapsto> demo_val]"
    using demo_lock_step(5) [of _ _ "{(0, demo_acq)}" "{}" Map.empty demo_acq]
    by (fastforce simp: KVServer_Put_def demo_acq_def demo_val_def)
  then have "?R AcqCheck None {(0, demo_acq)} {(0, demo_acq, OK)} [''l'' \<mapsto> demo_val]"
    using demo_lock_step(6) [where a = demo_acq and e = OK]
    by (fastforce simp: demo_acq_def clerkErr_def putHappened_def)
  then have "?R AcqCheck (Some demo_rep) {(0, demo_acq)} {(0, demo_acq, OK)} [''l'' \<mapsto> demo_val]"
    using demo_lock_step(2) by (fastforce simp: reading_def KVServer_Get_def demo_val_def demo_rep_def)
  then show ?thesis
    using demo_lock_step(3) by (fastforce simp: reading_def read_triple_def demo_rep_def)
qed

lemma lock_mutual_exclusion_witness:
  "\<exists>x. store (ls_srv (demo_lock Held None {(0, demo_acq)} {(0, demo_acq, OK)} [''l'' \<mapsto> demo_val])) ''l'' = Some x \<and>
     vv_Value x = demo_ids 0"
  using lock_mutual_exclusion [OF demo_ids_ok demo_held, of 0] by (simp add: demo_lock_def)

text \<open>The same client releases the lock: its put of the empty value, and the state after it.\<close>

definition demo_rel :: PutArgs where
  "demo_rel = \<lparr>pa_Key = ''l'', pa_Value = [], pa_Version = 1\<rparr>"

definition demo_free :: VersionedValue where
  "demo_free = \<lparr>vv_Value = [], vv_Version = 2\<rparr>"

definition demo_released :: lock_system where
  "demo_released = demo_lock Idle None {(0, demo_rel), (0, demo_acq)} {(0, demo_rel, OK), (0, demo_acq, OK)}
     [''l'' \<mapsto> demo_free]"

lemma demo_idle: "lock_reachable ''l'' demo_ids demo_released"
proof -
  let ?R = "\<lambda>pc rd sent replies m. lock_reachable ''l'' demo_ids (demo_lock pc rd sent replies m)"
  let ?S = "{(0, demo_acq)}" and ?P = "{(0, demo_acq, OK)}"
  let ?S2 = "{(0, demo_rel), (0, demo_acq)}" and ?P2 = "{(0, demo_rel, OK), (0, demo_acq, OK)}"
  have "?R RelGet None ?S ?P [''l'' \<mapsto> demo_val]"
    using lock_reachable.step [OF demo_held lock_step.release [of _ 0]] by (simp add: demo_lock_def)
  then have "?R RelGet (Some demo_rep) ?S ?P [''l'' \<mapsto> demo_val]"
    using demo_lock_step(2) by (fastforce simp: reading_def KVServer_Get_def demo_val_def demo_rep_def)
  then have "?R (RelPut 1 False) None ?S ?P [''l'' \<mapsto> demo_val]"
    using demo_lock_step(3) by (fastforce simp: reading_def read_triple_def demo_rep_def)
  then have "?R (RelPut 1 False) None ?S2 ?P [''l'' \<mapsto> demo_val]"
    by (rule demo_lock_step(4)) (simp add: demo_rel_def)
  then have "?R (RelPut 1 False) None ?S2 ?P2 [''l'' \<mapsto> demo_free]"
    using demo_lock_step(5) [of _ _ ?S2 ?P "[''l'' \<mapsto> demo_val]" demo_rel]
    by (fastforce simp: KVServer_Put_def demo_rel_def demo_val_def demo_free_def)
  then have "?R RelCheck None ?S2 ?P2 [''l'' \<mapsto> demo_free]"
    using demo_lock_step(6) [where a = demo_rel and e = OK]
    by (fastforce simp: demo_rel_def clerkErr_def putHappened_def)
  then have "?R RelCheck (Some \<lparr>gr_Err = OK, gr_Value = [], gr_Version = 2\<rparr>) ?S2 ?P2 [''l'' \<mapsto> demo_free]"
    using demo_lock_step(2) by (fastforce simp: reading_def KVServer_Get_def demo_free_def)
  then show ?thesis
    using demo_lock_step(3) by (fastforce simp: reading_def read_triple_def demo_released_def)
qed

lemma released_lock_witness:
  "KVServer_Put demo_acq (ls_srv demo_released) = (\<lparr>pr_Err = ErrVersion\<rparr>, ls_srv demo_released)"
  using released_lock_stays_released [OF demo_ids_ok demo_idle, of 0]
  by (simp add: demo_released_def demo_lock_def)

subsection \<open>The transports and the files\<close>

lemma itoa_inj:
  assumes ij: "0 \<le> i" "0 \<le> j"
  shows "itoa i = itoa j \<longleftrightarrow> i = j"
proof
  show "i = j" if "itoa i = itoa j"
  proof -
    have "digitsVal (natDigits (nat i)) = digitsVal (natDigits (nat j))" using that ij by (simp add: itoa_def)
    then show ?thesis using ij by simp
  qed
qed simp

text \<open>Partitioning peers \<open>i\<close> and \<open>j\<close> of a group makes every call of \<open>i\<close> to \<open>j\<close> and of \<open>j\<close> to \<open>i\<close>
  fail without reaching the handler, and leaves the calls of every other peer, and of the
  clients (whose requests name no sender), as they were.\<close>

theorem partition_isolates:
  assumes "prefix \<noteq> []" and "\<not> isDigit (last prefix)" and "0 \<le> i" and "0 \<le> j"
    and "ln' = LN_Partition (prefix @ itoa i) (prefix @ itoa j) ln"
  shows "(callerIndex args = i \<longrightarrow> LN_Call lost ln' (prefix @ itoa j) meth args w = (None, w)) \<and>
    (callerIndex args = j \<longrightarrow> LN_Call lost ln' (prefix @ itoa i) meth args w = (None, w)) \<and>
    (0 \<le> callerIndex args \<and> callerIndex args \<notin> {i, j} \<or> callerIndex args = -1 \<longrightarrow>
       (\<forall>k\<ge>0. LN_Call lost ln' (prefix @ itoa k) meth args w = LN_Call lost ln (prefix @ itoa k) meth args w))"
proof (intro conjI impI allI)
  note addr = getCallerAddr_peer [OF assms(1,2)]
  show "LN_Call lost ln' (prefix @ itoa j) meth args w = (None, w)" if "callerIndex args = i"
    using addr [OF assms(3) that assms(4)] assms(1,5) by (intro LN_Call_blocked) (simp_all add: isDisabled_Partition)
  show "LN_Call lost ln' (prefix @ itoa i) meth args w = (None, w)" if "callerIndex args = j"
    using addr [OF assms(4) that assms(3)] assms(1,5) by (intro LN_Call_blocked) (simp_all add: isDisabled_Partition)
  fix k :: int
  assume k: "0 \<le> k" and c: "0 \<le> callerIndex args \<and> callerIndex args \<notin> {i, j} \<or> callerIndex args = -1"
  show "LN_Call lost ln' (prefix @ itoa k) meth args w = LN_Call lost ln (prefix @ itoa k) meth args w"
  proof (cases "callerIndex args = -1")
    case True
    then show ?thesis using assms(5) by (intro LN_Call_cong) (simp_all add: getCallerAddr_def)
  next
    case False
    with c have c': "0 \<le> callerIndex args" "callerIndex args \<noteq> i" "callerIndex args \<noteq> j" by auto
    show ?thesis
      using addr [OF c'(1) refl k] itoa_inj [OF c'(1) assms(3)] itoa_inj [OF c'(1) assms(4)] c' assms(5)
      by (intro LN_Call_cong) (simp_all add: isDisabled_Partition)
  qed
qed

lemma partition_isolates_witness:
  "LN_Call False (LN_Partition ''raft-0'' ''raft-1'' (NewLocalNetwork :: (nat, nat, nat) LocalNetwork)) ''raft-1''
     ''Raft.RequestVote''
     (VoteArgs \<lparr>rv_Term = 1, rv_CandidateID = 0, rv_LastLogIndex = 0, rv_LastLogTerm = 0\<rparr>) 0 = (None, 0)"
proof -
  have d: "itoa 0 = ''0''" "itoa 1 = ''1''"
    by (simp_all add: itoa_def natDigits.simps char_of_eq_iff)
  show ?thesis
    using partition_isolates [of "''raft-''" 0 1
        "LN_Partition ''raft-0'' ''raft-1'' (NewLocalNetwork :: (nat, nat, nat) LocalNetwork)" NewLocalNetwork
        "VoteArgs \<lparr>rv_Term = 1, rv_CandidateID = 0, rv_LastLogIndex = 0, rv_LastLogTerm = 0\<rparr>" False
        "''Raft.RequestVote''" 0]
    by (simp add: d isDigit_def)
qed

text \<open>Healing a partition restores the calls that it had blocked.\<close>

theorem heal_restores:
  assumes "\<not> isDisabled p q ln" and "\<not> isDisabled q p ln"
  shows "LN_Call lost (LN_Heal p q (LN_Partition p q ln)) peer meth args w = LN_Call lost ln peer meth args w"
  using assms by (intro LN_Call_cong) (auto simp: isDisabled_Heal isDisabled_Partition)

lemma heal_restores_witness:
  "LN_Call False (LN_Heal ''a'' ''b'' (LN_Partition ''a'' ''b'' (NewLocalNetwork :: (nat, nat, nat) LocalNetwork)))
     ''b'' ''S.m'' (KVArgs OtherOp) 0 =
     LN_Call False (NewLocalNetwork :: (nat, nat, nat) LocalNetwork) ''b'' ''S.m'' (KVArgs OtherOp) 0"
  using heal_restores [of "''a''" "''b''" "NewLocalNetwork :: (nat, nat, nat) LocalNetwork" False "''b''" "''S.m''"
      "KVArgs OtherOp" 0]
  by (simp add: isDisabled_def NewLocalNetwork_def)

text \<open>Whatever system call fails during \<open>Save\<close>, and wherever a crash cuts it, each of the two files
  holds its old or its new contents, never a part; but the pair is not replaced together: after
  the first write the new state stands beside the old snapshot.\<close>

theorem disk_save_files:
  "Disk_ReadRaftState dir (Disk_Save dir io1 io2 s d fs) \<in> {Disk_ReadRaftState dir fs, s} \<and>
   Disk_ReadSnapshot dir (Disk_Save dir io1 io2 s d fs) \<in>
     {Disk_ReadSnapshot dir fs, if slice d = [] then None else Some (slice d)} \<and>
   Disk_ReadRaftState dir (Disk_Save_state dir io_fine s fs) = s \<and>
   Disk_ReadSnapshot dir (Disk_Save_state dir io_fine s fs) = Disk_ReadSnapshot dir fs"
proof -
  have "Disk_Save dir io1 io2 s d fs (statePath dir) \<in> {fs (statePath dir), Some s}"
    using writeAtomic_all_or_nothing [of io1 "statePath dir" s fs] by (auto simp: Disk_defs)
  moreover have "Disk_Save dir io1 io2 s d fs (snapPath dir) \<in>
      {fs (snapPath dir), if slice d = [] then None else Some (slice d)}"
    using writeAtomic_all_or_nothing [of io2 "snapPath dir" "slice d" "writeAtomic io1 (statePath dir) s fs"]
    by (auto simp: Disk_defs)
  ultimately show ?thesis
    by (auto simp: Disk_ReadRaftState_def Disk_ReadSnapshot_def Disk_Save_state_def)
qed

text \<open>The two persisters do not agree on a nil snapshot: the one in memory keeps the snapshot it
  has, the one on disk removes it.\<close>

theorem persisters_differ_on_nil:
  "Mem_ReadSnapshot (Mem_Save s None p) = Mem_ReadSnapshot p \<and>
   Disk_ReadSnapshot dir (Disk_Save dir io_fine io_fine s None fs) = None"
  by (simp add: Mem_defs Disk_defs)

end
