(* ===== verification/ShardGroup.thy ===== *)
theory ShardGroup
  imports KVServer
begin

section \<open>A shard group (internal/shardgrp/server.go)\<close>

text \<open>
  The state machine of a replica group: ten shards, each with its map, an ownership flag, a frozen
  flag and the highest configuration number seen. \<open>DoOp\<close> panics where the code indexes an array
  with a shard number that is out of range. The theory proves the well-formedness invariant, the
  versioned-store contract for the shards that are served, the snapshot contract, and what freeze,
  install and delete promise to a migration. The RPC handlers take \<open>Submit\<close> of the group's RSM as
  an argument, \<open>None\<close> standing for the nil pointer before \<open>SetRSM\<close>.
\<close>

record ShardGroup =
  sg_gid :: int
  sg_shards :: "kvmap option list"      \<comment> \<open>\<open>None\<close> is a nil map\<close>
  sg_owned :: "bool list"
  sg_frozen :: "bool list"
  sg_configNums :: "int list"

definition ShardGroup_New :: "int \<Rightarrow> ShardGroup" where
  "ShardGroup_New gid = \<lparr>sg_gid = gid, sg_shards = replicate NShards (Some Map.empty),
     sg_owned = replicate NShards False, sg_frozen = replicate NShards False,
     sg_configNums = replicate NShards 0\<rparr>"

subsection \<open>Operations\<close>

text \<open>The map of a shard, after \<open>if sg.shards[shard] == nil { sg.shards[shard] = make(...) }\<close>.\<close>

definition ensureShard :: "int \<Rightarrow> ShardGroup \<Rightarrow> (kvmap \<times> ShardGroup) option" where
  "ensureShard shard sg = do {
     m \<leftarrow> go_index (sg_shards sg) shard;
     case m of
       Some kv \<Rightarrow> Some (kv, sg)
     | None \<Rightarrow> do {
         ss \<leftarrow> go_update (sg_shards sg) shard (Some Map.empty);
         Some (Map.empty, sg\<lparr>sg_shards := ss\<rparr>)
       }
   }"

definition doGet :: "GetArgs \<Rightarrow> ShardGroup \<Rightarrow> (GetReply \<times> ShardGroup) option" where
  "doGet args sg = (let shard = Key2Shard (ga_Key args) in do {
     owned \<leftarrow> go_index (sg_owned sg) shard;
     if \<not> owned then Some (\<lparr>gr_Err = ErrWrongGroup, gr_Value = [], gr_Version = 0\<rparr>, sg)
     else do {
       frozen \<leftarrow> go_index (sg_frozen sg) shard;
       if frozen then Some (\<lparr>gr_Err = ErrFrozen, gr_Value = [], gr_Version = 0\<rparr>, sg)
       else do {
         (m, sg) \<leftarrow> ensureShard shard sg;
         Some (case m (ga_Key args) of
             None \<Rightarrow> \<lparr>gr_Err = ErrNoKey, gr_Value = [], gr_Version = 0\<rparr>
           | Some val \<Rightarrow> \<lparr>gr_Err = OK, gr_Value = vv_Value val, gr_Version = vv_Version val\<rparr>, sg)
       }
     }
   })"

definition storeKey :: "int \<Rightarrow> string \<Rightarrow> VersionedValue \<Rightarrow> kvmap \<Rightarrow> ShardGroup \<Rightarrow> ShardGroup option" where
  "storeKey shard key v m sg = do {
     ss \<leftarrow> go_update (sg_shards sg) shard (Some (m(key \<mapsto> v)));
     Some (sg\<lparr>sg_shards := ss\<rparr>)
   }"

definition doPut :: "PutArgs \<Rightarrow> ShardGroup \<Rightarrow> (PutReply \<times> ShardGroup) option" where
  "doPut args sg = (let shard = Key2Shard (pa_Key args) in do {
     owned \<leftarrow> go_index (sg_owned sg) shard;
     if \<not> owned then Some (\<lparr>pr_Err = ErrWrongGroup\<rparr>, sg)
     else do {
       frozen \<leftarrow> go_index (sg_frozen sg) shard;
       if frozen then Some (\<lparr>pr_Err = ErrFrozen\<rparr>, sg)
       else do {
         (m, sg) \<leftarrow> ensureShard shard sg;
         if pa_Version args = 0 then
           if m (pa_Key args) \<noteq> None then Some (\<lparr>pr_Err = ErrVersion\<rparr>, sg)
           else do {
             sg \<leftarrow> storeKey shard (pa_Key args) \<lparr>vv_Value = pa_Value args, vv_Version = 1\<rparr> m sg;
             Some (\<lparr>pr_Err = OK\<rparr>, sg)
           }
         else case m (pa_Key args) of
           None \<Rightarrow> Some (\<lparr>pr_Err = ErrNoKey\<rparr>, sg)
         | Some current \<Rightarrow>
             if vv_Version current \<noteq> pa_Version args then Some (\<lparr>pr_Err = ErrVersion\<rparr>, sg)
             else do {
               sg \<leftarrow> storeKey shard (pa_Key args)
                       \<lparr>vv_Value = pa_Value args, vv_Version = vv_Version current + 1\<rparr> m sg;
               Some (\<lparr>pr_Err = OK\<rparr>, sg)
             }
       }
     }
   })"

text \<open>The assignments the three migration operations share once the number is not too old.\<close>

definition setShard :: "int \<Rightarrow> int \<Rightarrow> bool \<Rightarrow> bool \<Rightarrow> ShardGroup \<Rightarrow> ShardGroup option" where
  "setShard shard num owned frozen sg = do {
     ns \<leftarrow> go_update (sg_configNums sg) shard num;
     os \<leftarrow> go_update (sg_owned sg) shard owned;
     fs \<leftarrow> go_update (sg_frozen sg) shard frozen;
     Some (sg\<lparr>sg_configNums := ns, sg_owned := os, sg_frozen := fs\<rparr>)
   }"

definition doFreeze :: "FreezeShardArgs \<Rightarrow> ShardGroup \<Rightarrow> (FreezeShardReply \<times> ShardGroup) option" where
  "doFreeze args sg = (let shard = fa_Shard args in do {
     num \<leftarrow> go_index (sg_configNums sg) shard;
     if fa_ConfigNum args < num then Some (\<lparr>fr_Err = ErrVersion, fr_Data = Map.empty\<rparr>, sg)
     else do {
       sg \<leftarrow> setShard shard (fa_ConfigNum args) False True sg;
       m \<leftarrow> go_index (sg_shards sg) shard;
       Some (\<lparr>fr_Err = OK, fr_Data = (case m of None \<Rightarrow> Map.empty | Some kv \<Rightarrow> kv)\<rparr>, sg)
     }
   })"

definition doInstall :: "InstallShardArgs \<Rightarrow> ShardGroup \<Rightarrow> (InstallShardReply \<times> ShardGroup) option" where
  "doInstall args sg = (let shard = ia_Shard args in do {
     num \<leftarrow> go_index (sg_configNums sg) shard;
     if ia_ConfigNum args < num then Some (\<lparr>ir_Err = ErrVersion\<rparr>, sg)
     else do {
       sg \<leftarrow> setShard shard (ia_ConfigNum args) True False sg;
       ss \<leftarrow> go_update (sg_shards sg) shard (Some (ia_Data args));
       Some (\<lparr>ir_Err = OK\<rparr>, sg\<lparr>sg_shards := ss\<rparr>)
     }
   })"

definition doDelete :: "DeleteShardArgs \<Rightarrow> ShardGroup \<Rightarrow> (DeleteShardReply \<times> ShardGroup) option" where
  "doDelete args sg = (let shard = da_Shard args in do {
     num \<leftarrow> go_index (sg_configNums sg) shard;
     if da_ConfigNum args < num then Some (\<lparr>dr_Err = ErrVersion\<rparr>, sg)
     else do {
       sg \<leftarrow> setShard shard (da_ConfigNum args) False False sg;
       ss \<leftarrow> go_update (sg_shards sg) shard (Some Map.empty);
       Some (\<lparr>dr_Err = OK\<rparr>, sg\<lparr>sg_shards := ss\<rparr>)
     }
   })"

definition ShardGroup_DoOp :: "payload \<Rightarrow> ShardGroup \<Rightarrow> (result \<times> ShardGroup) option" where
  "ShardGroup_DoOp op sg =
     (case op of
        GetOp args \<Rightarrow> map_option (apfst GetRep) (doGet args sg)
      | PutOp args \<Rightarrow> map_option (apfst PutRep) (doPut args sg)
      | FreezeOp args \<Rightarrow> map_option (apfst FreezeRep) (doFreeze args sg)
      | InstallOp args \<Rightarrow> map_option (apfst InstallRep) (doInstall args sg)
      | DeleteOp args \<Rightarrow> map_option (apfst DeleteRep) (doDelete args sg)
      | OtherOp \<Rightarrow> Some (NilRep, sg))"

definition ShardGroup_Snapshot :: "ShardGroup \<Rightarrow> 'c bytes" where
  "ShardGroup_Snapshot sg =
     [GShardGroup \<lparr>sgs_Shards = sg_shards sg, sgs_Owned = sg_owned sg,
        sgs_Frozen = sg_frozen sg, sgs_ConfigNums = sg_configNums sg\<rparr>]"

definition ShardGroup_Restore :: "'c bytes \<Rightarrow> ShardGroup \<Rightarrow> ShardGroup option" where
  "ShardGroup_Restore snapshot sg =
     (if length snapshot = 0
      then Some (sg\<lparr>sg_shards := replicate NShards (Some Map.empty),
                    sg_owned := replicate NShards False, sg_frozen := replicate NShards False,
                    sg_configNums := replicate NShards 0\<rparr>)
      else do {
        (snap, _) \<leftarrow> gob_decode_shardgroup snapshot;
        Some (sg\<lparr>sg_shards := sgs_Shards snap, sg_owned := sgs_Owned snap,
                 sg_frozen := sgs_Frozen snap, sg_configNums := sgs_ConfigNums snap\<rparr>)
      })"

subsection \<open>RPC handlers\<close>

text \<open>
  A handler submits its arguments to the RSM and asserts the type of the reply (a wrong type
  panics); an error of \<open>Submit\<close>, or no RSM yet, is \<open>ErrWrongLeader\<close>.
\<close>

type_synonym submit = "(payload \<Rightarrow> string + result) option"

definition ShardGroup_Get :: "submit \<Rightarrow> GetArgs \<Rightarrow> GetReply option" where
  "ShardGroup_Get r args = (let wrong = \<lparr>gr_Err = ErrWrongLeader, gr_Value = [], gr_Version = 0\<rparr> in
     case r of None \<Rightarrow> Some wrong
     | Some Submit \<Rightarrow> (case Submit (GetOp args) of
         Inl e \<Rightarrow> Some wrong
       | Inr rep \<Rightarrow> (case rep of GetRep reply \<Rightarrow> Some reply | _ \<Rightarrow> None)))"

definition ShardGroup_Put :: "submit \<Rightarrow> PutArgs \<Rightarrow> PutReply option" where
  "ShardGroup_Put r args = (let wrong = \<lparr>pr_Err = ErrWrongLeader\<rparr> in
     case r of None \<Rightarrow> Some wrong
     | Some Submit \<Rightarrow> (case Submit (PutOp args) of
         Inl e \<Rightarrow> Some wrong
       | Inr rep \<Rightarrow> (case rep of PutRep reply \<Rightarrow> Some reply | _ \<Rightarrow> None)))"

definition ShardGroup_FreezeShard :: "submit \<Rightarrow> FreezeShardArgs \<Rightarrow> FreezeShardReply option" where
  "ShardGroup_FreezeShard r args = (let wrong = \<lparr>fr_Err = ErrWrongLeader, fr_Data = Map.empty\<rparr> in
     case r of None \<Rightarrow> Some wrong
     | Some Submit \<Rightarrow> (case Submit (FreezeOp args) of
         Inl e \<Rightarrow> Some wrong
       | Inr rep \<Rightarrow> (case rep of FreezeRep reply \<Rightarrow> Some reply | _ \<Rightarrow> None)))"

definition ShardGroup_InstallShard :: "submit \<Rightarrow> InstallShardArgs \<Rightarrow> InstallShardReply option" where
  "ShardGroup_InstallShard r args = (let wrong = \<lparr>ir_Err = ErrWrongLeader\<rparr> in
     case r of None \<Rightarrow> Some wrong
     | Some Submit \<Rightarrow> (case Submit (InstallOp args) of
         Inl e \<Rightarrow> Some wrong
       | Inr rep \<Rightarrow> (case rep of InstallRep reply \<Rightarrow> Some reply | _ \<Rightarrow> None)))"

definition ShardGroup_DeleteShard :: "submit \<Rightarrow> DeleteShardArgs \<Rightarrow> DeleteShardReply option" where
  "ShardGroup_DeleteShard r args = (let wrong = \<lparr>dr_Err = ErrWrongLeader\<rparr> in
     case r of None \<Rightarrow> Some wrong
     | Some Submit \<Rightarrow> (case Submit (DeleteOp args) of
         Inl e \<Rightarrow> Some wrong
       | Inr rep \<Rightarrow> (case rep of DeleteRep reply \<Rightarrow> Some reply | _ \<Rightarrow> None)))"

subsection \<open>Well-formedness\<close>

text \<open>The arrays have ten elements, no map is nil, and a frozen shard is not owned.\<close>

definition wf_group :: "ShardGroup \<Rightarrow> bool" where
  "wf_group sg \<longleftrightarrow>
     length (sg_shards sg) = NShards \<and> length (sg_owned sg) = NShards \<and>
     length (sg_frozen sg) = NShards \<and> length (sg_configNums sg) = NShards \<and>
     (\<forall>i<NShards. sg_shards sg ! i \<noteq> None \<and> (sg_frozen sg ! i \<longrightarrow> \<not> sg_owned sg ! i))"

definition valid_shard :: "int \<Rightarrow> bool" where
  "valid_shard s \<longleftrightarrow> 0 \<le> s \<and> s < int NShards"

text \<open>The shard an operation indexes the arrays with.\<close>

fun op_shard :: "payload \<Rightarrow> int" where
  "op_shard (GetOp a) = Key2Shard (ga_Key a)"
| "op_shard (PutOp a) = Key2Shard (pa_Key a)"
| "op_shard (FreezeOp a) = fa_Shard a"
| "op_shard (InstallOp a) = ia_Shard a"
| "op_shard (DeleteOp a) = da_Shard a"
| "op_shard OtherOp = 0"

text \<open>What is known of one shard: its map, and the three flags.\<close>

definition mapOf :: "ShardGroup \<Rightarrow> int \<Rightarrow> kvmap" where
  "mapOf sg s = (case sg_shards sg ! nat s of None \<Rightarrow> Map.empty | Some m \<Rightarrow> m)"

abbreviation ownedOf :: "ShardGroup \<Rightarrow> int \<Rightarrow> bool" where
  "ownedOf sg s \<equiv> sg_owned sg ! nat s"
abbreviation frozenOf :: "ShardGroup \<Rightarrow> int \<Rightarrow> bool" where
  "frozenOf sg s \<equiv> sg_frozen sg ! nat s"
abbreviation numOf :: "ShardGroup \<Rightarrow> int \<Rightarrow> int" where
  "numOf sg s \<equiv> sg_configNums sg ! nat s"

text \<open>One shard rewritten: its map, flags and number.\<close>

definition withShard :: "int \<Rightarrow> kvmap \<Rightarrow> bool \<Rightarrow> bool \<Rightarrow> int \<Rightarrow> ShardGroup \<Rightarrow> ShardGroup" where
  "withShard s m ow fz num sg = sg\<lparr>sg_shards := (sg_shards sg)[nat s := Some m],
     sg_owned := (sg_owned sg)[nat s := ow], sg_frozen := (sg_frozen sg)[nat s := fz],
     sg_configNums := (sg_configNums sg)[nat s := num]\<rparr>"

lemma valid_key [simp]: "valid_shard (Key2Shard k)"
  by (simp add: valid_shard_def NShards_def)

lemma valid_nat: "valid_shard s \<Longrightarrow> nat s < NShards"
  by (auto simp: valid_shard_def NShards_def)

lemma wf_groupD:
  assumes "wf_group sg" and "valid_shard s"
  shows "nat s < length (sg_shards sg)" and "nat s < length (sg_owned sg)"
    and "nat s < length (sg_frozen sg)" and "nat s < length (sg_configNums sg)"
    and "sg_shards sg ! nat s = Some (mapOf sg s)" and "ownedOf sg s \<Longrightarrow> \<not> frozenOf sg s"
  using assms valid_nat [of s] by (auto simp: wf_group_def mapOf_def)

lemma wf_group_index:
  assumes "wf_group sg" and "valid_shard s"
  shows "go_index (sg_shards sg) s = Some (Some (mapOf sg s))"
    and "go_index (sg_owned sg) s = Some (ownedOf sg s)"
    and "go_index (sg_frozen sg) s = Some (frozenOf sg s)"
    and "go_index (sg_configNums sg) s = Some (numOf sg s)"
    and "go_update (sg_shards sg) s m = Some ((sg_shards sg)[nat s := m])"
    and "go_update (sg_owned sg) s b = Some ((sg_owned sg)[nat s := b])"
    and "go_update (sg_frozen sg) s b = Some ((sg_frozen sg)[nat s := b])"
    and "go_update (sg_configNums sg) s k = Some ((sg_configNums sg)[nat s := k])"
  using wf_groupD [OF assms] assms(2)
  by (simp_all add: go_index_def go_update_def valid_shard_def zless_nat_conj flip: nat_less_iff)

lemma wf_group_New [simp]: "wf_group (ShardGroup_New gid)"
  by (simp add: wf_group_def ShardGroup_New_def)

lemma withShard_wf:
  assumes "wf_group sg" and "valid_shard s" and "fz \<longrightarrow> \<not> ow"
  shows "wf_group (withShard s m ow fz num sg)"
proof -
  have "nat s < NShards" using assms(2) by (rule valid_nat)
  with assms(1,3) show ?thesis by (simp add: wf_group_def withShard_def nth_list_update)
qed

lemma withShard_at:
  assumes "wf_group sg" and "valid_shard s" and "valid_shard t"
  shows "mapOf (withShard s m ow fz num sg) t = (if t = s then m else mapOf sg t)"
    and "ownedOf (withShard s m ow fz num sg) t = (if t = s then ow else ownedOf sg t)"
    and "frozenOf (withShard s m ow fz num sg) t = (if t = s then fz else frozenOf sg t)"
    and "numOf (withShard s m ow fz num sg) t = (if t = s then num else numOf sg t)"
    and "sg_gid (withShard s m ow fz num sg) = sg_gid sg"
  using assms wf_groupD [OF assms(1,2)]
  by (auto simp: withShard_def mapOf_def valid_shard_def nth_list_update eq_nat_nat_iff)

lemma withShard_same:
  assumes "wf_group sg" and "valid_shard s"
  shows "sg\<lparr>sg_shards := (sg_shards sg)[nat s := Some m]\<rparr> =
    withShard s m (ownedOf sg s) (frozenOf sg s) (numOf sg s) sg"
  by (simp add: withShard_def)

lemma setShard_eq:
  assumes "wf_group sg" and "valid_shard s"
  shows "setShard s num ow fz sg = Some (withShard s (mapOf sg s) ow fz num sg)"
proof -
  have "(sg_shards sg)[nat s := Some (mapOf sg s)] = sg_shards sg"
    using list_update_id [of "sg_shards sg" "nat s"] wf_groupD(5) [OF assms] by simp
  then show ?thesis by (simp add: setShard_def wf_group_index [OF assms] withShard_def)
qed

lemma withShard_id:
  assumes "wf_group sg" and "valid_shard s"
  shows "withShard s (mapOf sg s) (ownedOf sg s) (frozenOf sg s) (numOf sg s) sg = sg"
  using list_update_id [of "sg_shards sg" "nat s"] wf_groupD(5) [OF assms]
  by (simp add: withShard_def)

lemma ensureShard_eq:
  "wf_group sg \<Longrightarrow> valid_shard s \<Longrightarrow> ensureShard s sg = Some (mapOf sg s, sg)"
  by (simp add: ensureShard_def wf_group_index)

lemma storeKey_eq:
  "wf_group sg \<Longrightarrow> valid_shard s \<Longrightarrow> storeKey s k v m sg =
     Some (withShard s (m(k \<mapsto> v)) (ownedOf sg s) (frozenOf sg s) (numOf sg s) sg)"
  by (simp add: storeKey_def wf_group_index withShard_def)

subsection \<open>The operations in closed form\<close>

lemma doGet_eq:
  assumes "wf_group sg"
  shows "doGet a sg = Some (if ownedOf sg (Key2Shard (ga_Key a))
      then get_view (ga_Key a) (mapOf sg (Key2Shard (ga_Key a)))
      else \<lparr>gr_Err = ErrWrongGroup, gr_Value = [], gr_Version = 0\<rparr>, sg)"
  using wf_groupD(6) [OF assms valid_key [of "ga_Key a"]]
  by (simp add: doGet_def Let_def wf_group_index [OF assms valid_key] ensureShard_eq [OF assms] get_view_def)

lemma doPut_eq:
  assumes "wf_group sg"
  shows "doPut a sg = Some (let s = Key2Shard (pa_Key a); (e, m) = put_view a (mapOf sg s) in
      if ownedOf sg s then (\<lparr>pr_Err = e\<rparr>, withShard s m True False (numOf sg s) sg)
      else (\<lparr>pr_Err = ErrWrongGroup\<rparr>, sg))"
proof (cases "ownedOf sg (Key2Shard (pa_Key a))")
  case True
  let ?s = "Key2Shard (pa_Key a)"
  have nf: "\<not> frozenOf sg ?s" using wf_groupD(6) [OF assms valid_key True] .
  have same: "withShard ?s (mapOf sg ?s) True False (numOf sg ?s) sg = sg"
    using withShard_id [OF assms valid_key, of "pa_Key a"] True nf by simp
  show ?thesis
  proof (cases "mapOf sg ?s (pa_Key a)")
    case None
    then show ?thesis using True nf same
      by (simp add: doPut_def Let_def wf_group_index [OF assms valid_key] ensureShard_eq [OF assms]
          storeKey_eq [OF assms] put_view_def)
  next
    case (Some v)
    then show ?thesis using True nf same
      by (simp add: doPut_def Let_def wf_group_index [OF assms valid_key] ensureShard_eq [OF assms]
          storeKey_eq [OF assms] put_view_def)
  qed
next
  case False
  then show ?thesis
    by (simp add: doPut_def Let_def wf_group_index [OF assms valid_key] split: prod.split)
qed

lemma doFreeze_eq:
  assumes "wf_group sg" and "valid_shard (fa_Shard a)"
  shows "doFreeze a sg = Some (let s = fa_Shard a in
      if fa_ConfigNum a < numOf sg s then (\<lparr>fr_Err = ErrVersion, fr_Data = Map.empty\<rparr>, sg)
      else (\<lparr>fr_Err = OK, fr_Data = mapOf sg s\<rparr>,
            withShard s (mapOf sg s) False True (fa_ConfigNum a) sg))"
proof -
  have "go_index (sg_shards (withShard (fa_Shard a) (mapOf sg (fa_Shard a)) False True (fa_ConfigNum a) sg))
      (fa_Shard a) = Some (Some (mapOf sg (fa_Shard a)))"
    using wf_group_index(1) [OF withShard_wf [OF assms] assms(2)] withShard_at(1) [OF assms assms(2)]
    by simp
  then show ?thesis
    by (simp add: doFreeze_def Let_def wf_group_index [OF assms] setShard_eq [OF assms])
qed

lemma doInstall_eq:
  assumes "wf_group sg" and "valid_shard (ia_Shard a)"
  shows "doInstall a sg = Some (let s = ia_Shard a in
      if ia_ConfigNum a < numOf sg s then (\<lparr>ir_Err = ErrVersion\<rparr>, sg)
      else (\<lparr>ir_Err = OK\<rparr>, withShard s (ia_Data a) True False (ia_ConfigNum a) sg))"
proof -
  let ?sg = "withShard (ia_Shard a) (mapOf sg (ia_Shard a)) True False (ia_ConfigNum a) sg"
  have "go_update (sg_shards ?sg) (ia_Shard a) m = Some ((sg_shards ?sg)[nat (ia_Shard a) := m])" for m
    by (rule wf_group_index(5) [OF withShard_wf [OF assms] assms(2)]) simp
  then show ?thesis
    by (simp add: doInstall_def Let_def wf_group_index [OF assms] setShard_eq [OF assms])
      (simp add: withShard_def)
qed

lemma doDelete_eq:
  assumes "wf_group sg" and "valid_shard (da_Shard a)"
  shows "doDelete a sg = Some (let s = da_Shard a in
      if da_ConfigNum a < numOf sg s then (\<lparr>dr_Err = ErrVersion\<rparr>, sg)
      else (\<lparr>dr_Err = OK\<rparr>, withShard s Map.empty False False (da_ConfigNum a) sg))"
proof -
  let ?sg = "withShard (da_Shard a) (mapOf sg (da_Shard a)) False False (da_ConfigNum a) sg"
  have "go_update (sg_shards ?sg) (da_Shard a) m = Some ((sg_shards ?sg)[nat (da_Shard a) := m])" for m
    by (rule wf_group_index(5) [OF withShard_wf [OF assms] assms(2)]) simp
  then show ?thesis
    by (simp add: doDelete_def Let_def wf_group_index [OF assms] setShard_eq [OF assms])
      (simp add: withShard_def)
qed

lemmas doOp_eqs = doGet_eq doPut_eq doFreeze_eq doInstall_eq doDelete_eq

text \<open>One operation in terms of the shard it names: nothing, or that shard rewritten.\<close>

lemma DoOp_cases:
  assumes "wf_group sg" and "ShardGroup_DoOp p sg = Some (r, sg')"
  obtains (same) "sg' = sg"
  | (written) m ow fz num where "valid_shard (op_shard p)"
      "sg' = withShard (op_shard p) m ow fz num sg" "fz \<longrightarrow> \<not> ow" "numOf sg (op_shard p) \<le> num"
proof -
  have "sg' = sg \<or> (\<exists>m ow fz num. valid_shard (op_shard p) \<and>
      sg' = withShard (op_shard p) m ow fz num sg \<and> (fz \<longrightarrow> \<not> ow) \<and> numOf sg (op_shard p) \<le> num)"
  proof (cases p)
    case (GetOp a)
    with assms show ?thesis by (auto simp: ShardGroup_DoOp_def doGet_eq)
  next
    case (PutOp a)
    let ?s = "Key2Shard (pa_Key a)"
    have "sg' = sg \<or> sg' = withShard ?s (snd (put_view a (mapOf sg ?s))) True False (numOf sg ?s) sg"
      using assms PutOp by (auto simp: ShardGroup_DoOp_def doPut_eq Let_def split: prod.splits if_splits)
    then show ?thesis using PutOp by fastforce
  next
    case (FreezeOp a)
    show ?thesis
    proof (cases "valid_shard (fa_Shard a)")
      case True
      with assms FreezeOp have "sg' = sg \<or> sg' = withShard (fa_Shard a) (mapOf sg (fa_Shard a)) False True (fa_ConfigNum a) sg
          \<and> numOf sg (fa_Shard a) \<le> fa_ConfigNum a"
        by (auto simp: ShardGroup_DoOp_def doFreeze_eq Let_def split: if_splits)
      with True FreezeOp show ?thesis by fastforce
    next
      case False
      then have "go_index (sg_configNums sg) (fa_Shard a) = None"
        using assms(1) by (auto simp: go_index_eq_None valid_shard_def wf_group_def)
      with assms FreezeOp show ?thesis by (simp add: ShardGroup_DoOp_def doFreeze_def)
    qed
  next
    case (InstallOp a)
    show ?thesis
    proof (cases "valid_shard (ia_Shard a)")
      case True
      with assms InstallOp have "sg' = sg \<or> sg' = withShard (ia_Shard a) (ia_Data a) True False (ia_ConfigNum a) sg
          \<and> numOf sg (ia_Shard a) \<le> ia_ConfigNum a"
        by (auto simp: ShardGroup_DoOp_def doInstall_eq Let_def split: if_splits)
      with True InstallOp show ?thesis by fastforce
    next
      case False
      then have "go_index (sg_configNums sg) (ia_Shard a) = None"
        using assms(1) by (auto simp: go_index_eq_None valid_shard_def wf_group_def)
      with assms InstallOp show ?thesis by (simp add: ShardGroup_DoOp_def doInstall_def)
    qed
  next
    case (DeleteOp a)
    show ?thesis
    proof (cases "valid_shard (da_Shard a)")
      case True
      with assms DeleteOp have "sg' = sg \<or> sg' = withShard (da_Shard a) Map.empty False False (da_ConfigNum a) sg
          \<and> numOf sg (da_Shard a) \<le> da_ConfigNum a"
        by (auto simp: ShardGroup_DoOp_def doDelete_eq Let_def split: if_splits)
      with True DeleteOp show ?thesis by fastforce
    next
      case False
      then have "go_index (sg_configNums sg) (da_Shard a) = None"
        using assms(1) by (auto simp: go_index_eq_None valid_shard_def wf_group_def)
      with assms DeleteOp show ?thesis by (simp add: ShardGroup_DoOp_def doDelete_def)
    qed
  next
    case OtherOp
    with assms show ?thesis by (simp add: ShardGroup_DoOp_def)
  qed
  with that show ?thesis by blast
qed

text \<open>The panic: exactly a migration operation whose shard number is out of range.\<close>

lemma DoOp_panics_iff:
  assumes "wf_group sg"
  shows "ShardGroup_DoOp p sg = None \<longleftrightarrow> \<not> valid_shard (op_shard p)"
proof -
  have out: "go_index (sg_configNums sg) s = None" if "\<not> valid_shard s" for s
    using assms that by (auto simp: go_index_eq_None valid_shard_def wf_group_def)
  show ?thesis
  proof (cases p)
    case (FreezeOp a)
    with assms out show ?thesis
      by (cases "valid_shard (fa_Shard a)") (simp_all add: ShardGroup_DoOp_def doFreeze_eq, simp add: doFreeze_def)
  next
    case (InstallOp a)
    with assms out show ?thesis
      by (cases "valid_shard (ia_Shard a)") (simp_all add: ShardGroup_DoOp_def doInstall_eq, simp add: doInstall_def)
  next
    case (DeleteOp a)
    with assms out show ?thesis
      by (cases "valid_shard (da_Shard a)") (simp_all add: ShardGroup_DoOp_def doDelete_eq, simp add: doDelete_def)
  qed (simp_all add: ShardGroup_DoOp_def doGet_eq doPut_eq assms valid_shard_def NShards_def)
qed

subsection \<open>A served shard is a versioned store\<close>

definition groupGet :: "string \<Rightarrow> ShardGroup \<Rightarrow> GetReply" where
  "groupGet k sg = (case doGet \<lparr>ga_Key = k\<rparr> sg of
     Some (r, _) \<Rightarrow> r | None \<Rightarrow> \<lparr>gr_Err = ErrWrongGroup, gr_Value = [], gr_Version = 0\<rparr>)"

definition groupPut :: "PutArgs \<Rightarrow> ShardGroup \<Rightarrow> PutReply \<times> ShardGroup" where
  "groupPut a sg = (case doPut a sg of Some x \<Rightarrow> x | None \<Rightarrow> (\<lparr>pr_Err = ErrWrongGroup\<rparr>, sg))"

definition groupView :: "ShardGroup \<Rightarrow> kvmap" where
  "groupView sg = (\<lambda>k. mapOf sg (Key2Shard k) k)"

definition groupServes :: "ShardGroup \<Rightarrow> string \<Rightarrow> bool" where
  "groupServes sg k \<longleftrightarrow> wf_group sg \<and> ownedOf sg (Key2Shard k)"

lemma put_view_local:
  assumes "m (pa_Key a) = m' (pa_Key a)"
  shows "fst (put_view a m) = fst (put_view a m')"
    and "snd (put_view a m) (pa_Key a) = snd (put_view a m') (pa_Key a)"
  using assms by (auto simp: put_view_def split: option.splits)

lemma groupPut_spec:
  assumes "groupServes sg (pa_Key a)"
  shows "pr_Err (fst (groupPut a sg)) = fst (put_view a (groupView sg))"
    and "groupView (snd (groupPut a sg)) = snd (put_view a (groupView sg))"
    and "groupServes (snd (groupPut a sg)) k \<longleftrightarrow> groupServes sg k"
proof -
  let ?s = "Key2Shard (pa_Key a)"
  let ?m = "mapOf sg ?s"
  have wf: "wf_group sg" and ow: "ownedOf sg ?s" using assms by (auto simp: groupServes_def)
  have put: "groupPut a sg = (\<lparr>pr_Err = fst (put_view a ?m)\<rparr>,
      withShard ?s (snd (put_view a ?m)) True False (numOf sg ?s) sg)"
    using ow by (simp add: groupPut_def doPut_eq [OF wf] Let_def split: prod.split)
  have key: "?m (pa_Key a) = groupView sg (pa_Key a)" by (simp add: groupView_def)
  show "pr_Err (fst (groupPut a sg)) = fst (put_view a (groupView sg))"
    using put_view_local(1) [of ?m a "groupView sg", OF key] by (simp add: put)
  note at = withShard_at [OF wf valid_key valid_key]
  show "groupView (snd (groupPut a sg)) = snd (put_view a (groupView sg))"
  proof
    fix k
    show "groupView (snd (groupPut a sg)) k = snd (put_view a (groupView sg)) k"
    proof (cases "k = pa_Key a")
      case True
      with put_view_local(2) [of ?m a "groupView sg", OF key] show ?thesis by (simp add: put groupView_def at)
    next
      case False
      then show ?thesis by (simp add: put groupView_def at put_view_frame)
    qed
  qed
  show "groupServes (snd (groupPut a sg)) k \<longleftrightarrow> groupServes sg k"
    using ow withShard_wf [OF wf valid_key] wf by (simp add: put groupServes_def at)
qed

interpretation sg_store: versioned_store groupGet groupPut groupView groupServes
proof unfold_locales
  fix sg k
  assume "groupServes sg k"
  then show "groupGet k sg = get_view k (groupView sg)"
    by (simp add: groupServes_def groupGet_def doGet_eq get_view_def groupView_def)
qed (simp_all add: groupPut_spec)

subsection \<open>The group as a replicated state machine\<close>

lemma DoOp_wf:
  assumes "wf_group sg" and "ShardGroup_DoOp p sg = Some (r, sg')"
  shows "wf_group sg'"
  using assms(2) by (cases rule: DoOp_cases [OF assms]) (use assms(1) withShard_wf in auto)

lemma DoOp_gid:
  assumes "wf_group sg" and "ShardGroup_DoOp p sg = Some (r, sg')"
  shows "sg_gid sg' = sg_gid sg"
  using assms(2) by (cases rule: DoOp_cases [OF assms]) (auto simp: withShard_def)

interpretation sg_sm: state_machine ShardGroup_DoOp ShardGroup_Snapshot ShardGroup_Restore
    wf_group "\<lambda>s t. sg_gid s = sg_gid t"
  by unfold_locales (auto simp: ShardGroup_Snapshot_def ShardGroup_Restore_def DoOp_wf DoOp_gid)

subsection \<open>What the migration operations promise\<close>

lemma DoOp_num_mono:
  assumes "wf_group sg" and "ShardGroup_DoOp p sg = Some (r, sg')" and "valid_shard s"
  shows "numOf sg s \<le> numOf sg' s"
  by (rule DoOp_cases [OF assms(1,2)]) (use assms in \<open>simp_all add: withShard_at\<close>)

lemma run_num_mono:
  assumes "wf_group sg" and "run_ops ShardGroup_DoOp ps sg = Some sg'" and "valid_shard s"
  shows "numOf sg s \<le> numOf sg' s"
  using assms
proof (induction ps arbitrary: sg)
  case (Cons p ps)
  then obtain r sg1 where "ShardGroup_DoOp p sg = Some (r, sg1)" "run_ops ShardGroup_DoOp ps sg1 = Some sg'"
    by (auto split: Option.bind_splits)
  with Cons show ?case using DoOp_wf DoOp_num_mono by (meson order_trans)
qed simp

text \<open>No operation answers \<open>ErrFrozen\<close>: a frozen shard is not owned, which is tested first.\<close>

lemma never_frozen:
  assumes "wf_group sg"
  shows "ShardGroup_DoOp p sg \<noteq> Some (GetRep \<lparr>gr_Err = ErrFrozen, gr_Value = v, gr_Version = n\<rparr>, sg')"
    and "ShardGroup_DoOp p sg \<noteq> Some (PutRep \<lparr>pr_Err = ErrFrozen\<rparr>, sg')"
proof -
  have "fst (put_view a m) \<noteq> ErrFrozen" for a m
    using put_view_errs [of a m] by auto
  then show "ShardGroup_DoOp p sg \<noteq> Some (PutRep \<lparr>pr_Err = ErrFrozen\<rparr>, sg')"
    using assms by (cases p) (auto simp: ShardGroup_DoOp_def doPut_eq Let_def case_prod_beta split: if_splits)
  show "ShardGroup_DoOp p sg \<noteq> Some (GetRep \<lparr>gr_Err = ErrFrozen, gr_Value = v, gr_Version = n\<rparr>, sg')"
    using assms
    by (cases p) (auto simp: ShardGroup_DoOp_def doGet_eq get_view_def split: option.splits if_splits)
qed

text \<open>An operation that would hand a shard to this group: an install of it that is not too old.\<close>

definition installs :: "int \<Rightarrow> int \<Rightarrow> payload \<Rightarrow> bool" where
  "installs s num p \<longleftrightarrow> (\<exists>a. p = InstallOp a \<and> ia_Shard a = s \<and> num \<le> ia_ConfigNum a)"

lemma installs_mono: "installs s n' p \<Longrightarrow> n \<le> n' \<Longrightarrow> installs s n p"
  by (auto simp: installs_def)

lemma DoOp_not_owned:
  assumes wf: "wf_group sg" and op: "ShardGroup_DoOp p sg = Some (r, sg')" and s: "valid_shard s"
    and no: "\<not> ownedOf sg s" and p: "\<not> installs s (numOf sg s) p"
  shows "\<not> ownedOf sg' s"
proof (cases p)
  case (PutOp a)
  show ?thesis
  proof (cases "ownedOf sg (Key2Shard (pa_Key a))")
    case True
    then have "s \<noteq> Key2Shard (pa_Key a)" using no by auto
    with wf op s no True PutOp show ?thesis
      by (auto simp: ShardGroup_DoOp_def doPut_eq withShard_at Let_def split: prod.splits)
  next
    case False
    with wf op no PutOp show ?thesis
      by (auto simp: ShardGroup_DoOp_def doPut_eq Let_def split: prod.splits)
  qed
next
  case (FreezeOp a)
  have v: "valid_shard (fa_Shard a)" using DoOp_panics_iff [OF wf, of p] op FreezeOp by simp
  with wf op s no FreezeOp show ?thesis
    by (auto simp: ShardGroup_DoOp_def doFreeze_eq withShard_at Let_def split: if_splits)
next
  case (InstallOp a)
  have v: "valid_shard (ia_Shard a)" using DoOp_panics_iff [OF wf, of p] op InstallOp by simp
  with wf op s no p InstallOp show ?thesis
    by (auto simp: ShardGroup_DoOp_def doInstall_eq withShard_at installs_def Let_def split: if_splits)
next
  case (DeleteOp a)
  have v: "valid_shard (da_Shard a)" using DoOp_panics_iff [OF wf, of p] op DeleteOp by simp
  with wf op s no DeleteOp show ?thesis
    by (auto simp: ShardGroup_DoOp_def doDelete_eq withShard_at Let_def split: if_splits)
qed (use wf op no in \<open>auto simp: ShardGroup_DoOp_def doGet_eq\<close>)

lemma run_not_owned:
  assumes "wf_group sg" and "run_ops ShardGroup_DoOp ps sg = Some sg'" and "valid_shard s"
    and "\<not> ownedOf sg s" and "\<forall>p\<in>set ps. \<not> installs s (numOf sg s) p"
  shows "\<not> ownedOf sg' s"
  using assms
proof (induction ps arbitrary: sg)
  case (Cons p ps)
  then obtain r sg1 where st: "ShardGroup_DoOp p sg = Some (r, sg1)"
    and rest: "run_ops ShardGroup_DoOp ps sg1 = Some sg'"
    by (auto split: Option.bind_splits)
  have "numOf sg s \<le> numOf sg1 s" using DoOp_num_mono [OF Cons.prems(1) st Cons.prems(3)] .
  then have "\<forall>q\<in>set ps. \<not> installs s (numOf sg1 s) q"
    using Cons.prems(5) installs_mono by (metis list.set_intros(2))
  moreover have "wf_group sg1" using Cons.prems(1) st by (rule DoOp_wf)
  moreover have "\<not> ownedOf sg1 s"
    by (rule DoOp_not_owned [OF Cons.prems(1) st Cons.prems(3,4)]) (use Cons.prems(5) in simp)
  ultimately show ?case using Cons.IH rest Cons.prems(3) by blast
qed simp

text \<open>Freezing answers the data of the shard as it is, and the group then serves it no longer.\<close>

lemma freeze_spec:
  assumes "wf_group sg" and "valid_shard (fa_Shard a)" and "numOf sg (fa_Shard a) \<le> fa_ConfigNum a"
    and "ShardGroup_DoOp (FreezeOp a) sg = Some (r, sg')"
  shows "r = FreezeRep \<lparr>fr_Err = OK, fr_Data = mapOf sg (fa_Shard a)\<rparr>"
    and "\<not> ownedOf sg' (fa_Shard a)" and "numOf sg' (fa_Shard a) = fa_ConfigNum a"
    and "mapOf sg' (fa_Shard a) = mapOf sg (fa_Shard a)" and "wf_group sg'"
  using assms withShard_at [OF assms(1,2,2)] DoOp_wf [OF assms(1,4)]
  by (auto simp: ShardGroup_DoOp_def doFreeze_eq Let_def)

lemma install_spec:
  assumes "wf_group sg" and "valid_shard (ia_Shard a)" and "numOf sg (ia_Shard a) \<le> ia_ConfigNum a"
    and "ShardGroup_DoOp (InstallOp a) sg = Some (r, sg')"
  shows "r = InstallRep \<lparr>ir_Err = OK\<rparr>"
    and "ownedOf sg' (ia_Shard a)" and "numOf sg' (ia_Shard a) = ia_ConfigNum a"
    and "mapOf sg' (ia_Shard a) = ia_Data a" and "wf_group sg'"
  using assms withShard_at [OF assms(1,2,2)] DoOp_wf [OF assms(1,4)]
  by (auto simp: ShardGroup_DoOp_def doInstall_eq Let_def)

lemma delete_spec:
  assumes "wf_group sg" and "valid_shard (da_Shard a)" and "numOf sg (da_Shard a) \<le> da_ConfigNum a"
    and "ShardGroup_DoOp (DeleteOp a) sg = Some (r, sg')"
  shows "r = DeleteRep \<lparr>dr_Err = OK\<rparr>"
    and "\<not> ownedOf sg' (da_Shard a)" and "numOf sg' (da_Shard a) = da_ConfigNum a"
    and "mapOf sg' (da_Shard a) = Map.empty" and "wf_group sg'"
  using assms withShard_at [OF assms(1,2,2)] DoOp_wf [OF assms(1,4)]
  by (auto simp: ShardGroup_DoOp_def doDelete_eq Let_def)

text \<open>A migration operation with a number below the highest one seen changes nothing.\<close>

fun op_num :: "payload \<Rightarrow> int option" where
  "op_num (FreezeOp a) = Some (fa_ConfigNum a)"
| "op_num (InstallOp a) = Some (ia_ConfigNum a)"
| "op_num (DeleteOp a) = Some (da_ConfigNum a)"
| "op_num _ = None"

fun result_err :: "result \<Rightarrow> Err option" where
  "result_err (GetRep r) = Some (gr_Err r)"
| "result_err (PutRep r) = Some (pr_Err r)"
| "result_err (FreezeRep r) = Some (fr_Err r)"
| "result_err (InstallRep r) = Some (ir_Err r)"
| "result_err (DeleteRep r) = Some (dr_Err r)"
| "result_err NilRep = None"

lemma old_op_rejected:
  assumes "wf_group sg" and "valid_shard (op_shard p)" and "op_num p = Some c" and "c < numOf sg (op_shard p)"
  shows "\<exists>r. ShardGroup_DoOp p sg = Some (r, sg) \<and> result_err r = Some ErrVersion"
  using assms
  by (cases p) (auto simp: ShardGroup_DoOp_def doFreeze_eq doInstall_eq doDelete_eq Let_def)

text \<open>Every key of a shard's map hashes to that shard, as long as installs bring such maps.\<close>

definition placed :: "ShardGroup \<Rightarrow> bool" where
  "placed sg \<longleftrightarrow> (\<forall>s k. valid_shard s \<and> mapOf sg s k \<noteq> None \<longrightarrow> Key2Shard k = s)"

definition well_placed :: "payload \<Rightarrow> bool" where
  "well_placed p \<longleftrightarrow> (\<forall>a k. p = InstallOp a \<and> ia_Data a k \<noteq> None \<longrightarrow> Key2Shard k = ia_Shard a)"

lemma placed_withShard:
  assumes "wf_group sg" and "placed sg" and "valid_shard s" and "\<And>k. m k \<noteq> None \<Longrightarrow> Key2Shard k = s"
  shows "placed (withShard s m ow fz num sg)"
  unfolding placed_def
proof (intro allI impI)
  fix t k
  assume t: "valid_shard t \<and> mapOf (withShard s m ow fz num sg) t k \<noteq> None"
  show "Key2Shard k = t"
  proof (cases "t = s")
    case True
    with t assms show ?thesis by (simp add: withShard_at)
  next
    case False
    with t withShard_at(1) [OF assms(1,3), of t m ow fz num] have "mapOf sg t k \<noteq> None" by simp
    with t assms(2) show ?thesis by (simp add: placed_def)
  qed
qed

lemma DoOp_placed:
  assumes wf: "wf_group sg" and pl: "placed sg" and p: "well_placed p"
    and op: "ShardGroup_DoOp p sg = Some (r, sg')"
  shows "placed sg'"
proof (cases p)
  case (PutOp a)
  let ?s = "Key2Shard (pa_Key a)"
  have "snd (put_view a (mapOf sg ?s)) k \<noteq> None \<Longrightarrow> Key2Shard k = ?s" for k
    using pl put_view_frame [of k a] by (cases "k = pa_Key a") (auto simp: placed_def)
  then have "placed (withShard ?s (snd (put_view a (mapOf sg ?s))) True False (numOf sg ?s) sg)"
    by (intro placed_withShard [OF wf pl valid_key])
  with wf op pl PutOp show ?thesis
    by (auto simp: ShardGroup_DoOp_def doPut_eq Let_def case_prod_beta split: if_splits)
next
  case (FreezeOp a)
  have v: "valid_shard (fa_Shard a)" using DoOp_panics_iff [OF wf, of p] op FreezeOp by simp
  have "placed (withShard (fa_Shard a) (mapOf sg (fa_Shard a)) False True (fa_ConfigNum a) sg)"
    using pl v by (intro placed_withShard [OF wf pl v]) (simp add: placed_def)
  with wf op pl v FreezeOp show ?thesis
    by (auto simp: ShardGroup_DoOp_def doFreeze_eq Let_def split: if_splits)
next
  case (InstallOp a)
  have v: "valid_shard (ia_Shard a)" using DoOp_panics_iff [OF wf, of p] op InstallOp by simp
  have "placed (withShard (ia_Shard a) (ia_Data a) True False (ia_ConfigNum a) sg)"
    using p InstallOp by (intro placed_withShard [OF wf pl v]) (simp add: well_placed_def)
  with wf op pl v InstallOp show ?thesis
    by (auto simp: ShardGroup_DoOp_def doInstall_eq Let_def split: if_splits)
next
  case (DeleteOp a)
  have v: "valid_shard (da_Shard a)" using DoOp_panics_iff [OF wf, of p] op DeleteOp by simp
  have "placed (withShard (da_Shard a) Map.empty False False (da_ConfigNum a) sg)"
    by (intro placed_withShard [OF wf pl v]) simp
  with wf op pl v DeleteOp show ?thesis
    by (auto simp: ShardGroup_DoOp_def doDelete_eq Let_def split: if_splits)
qed (use wf op pl in \<open>auto simp: ShardGroup_DoOp_def doGet_eq\<close>)

end
