(* ===== verification/ShardClerk.thy ===== *)
theory ShardClerk
  imports KVClerk ShardGroup
begin

section \<open>The clerk of a shard group (internal/shardgrp/client.go)\<close>

text \<open>
  The clerk tries the servers of the group in turn, forever, until one answers something other than
  \<open>ErrWrongLeader\<close>. The five methods of the code share this loop; \<open>sel\<close> reads the reply of the
  method's type and \<open>err\<close> its error. \<open>None\<close> is a loop that never returns.
\<close>

fun tryServers ::
  "'w network \<Rightarrow> string \<Rightarrow> payload \<Rightarrow> (result \<Rightarrow> 'r option) \<Rightarrow> ('r \<Rightarrow> Err) \<Rightarrow> string list \<Rightarrow> 'w \<Rightarrow>
   'r option \<times> 'w" where
  "tryServers Call meth args sel err [] w = (None, w)"
| "tryServers Call meth args sel err (srv # srvs) w =
     (case Call srv meth args w of
        (None, w) \<Rightarrow> tryServers Call meth args sel err srvs w
      | (Some rep, w) \<Rightarrow>
          (case sel rep of
             Some reply \<Rightarrow> if err reply \<noteq> ErrWrongLeader then (Some reply, w)
                           else tryServers Call meth args sel err srvs w
           | None \<Rightarrow> tryServers Call meth args sel err srvs w))"

partial_function (option) callGroup ::
  "'w network \<Rightarrow> string \<Rightarrow> payload \<Rightarrow> (result \<Rightarrow> 'r option) \<Rightarrow> ('r \<Rightarrow> Err) \<Rightarrow> string list \<Rightarrow> 'w \<Rightarrow>
   ('r \<times> 'w) option" where
  "callGroup Call meth args sel err servers w =
     (case tryServers Call meth args sel err servers w of
        (Some reply, w) \<Rightarrow> Some (reply, w)
      | (None, w) \<Rightarrow> callGroup Call meth args sel err servers w)"

definition ShardClerk_Get :: "'w network \<Rightarrow> string list \<Rightarrow> GetArgs \<Rightarrow> 'w \<Rightarrow> (GetReply \<times> 'w) option" where
  "ShardClerk_Get Call servers args w = callGroup Call ''ShardGroup.Get'' (GetOp args)
     (\<lambda>rep. case rep of GetRep r \<Rightarrow> Some r | _ \<Rightarrow> None) gr_Err servers w"

definition ShardClerk_Put :: "'w network \<Rightarrow> string list \<Rightarrow> PutArgs \<Rightarrow> 'w \<Rightarrow> (PutReply \<times> 'w) option" where
  "ShardClerk_Put Call servers args w = callGroup Call ''ShardGroup.Put'' (PutOp args)
     (\<lambda>rep. case rep of PutRep r \<Rightarrow> Some r | _ \<Rightarrow> None) pr_Err servers w"

definition ShardClerk_FreezeShard ::
  "'w network \<Rightarrow> string list \<Rightarrow> FreezeShardArgs \<Rightarrow> 'w \<Rightarrow> (FreezeShardReply \<times> 'w) option" where
  "ShardClerk_FreezeShard Call servers args w = callGroup Call ''ShardGroup.FreezeShard'' (FreezeOp args)
     (\<lambda>rep. case rep of FreezeRep r \<Rightarrow> Some r | _ \<Rightarrow> None) fr_Err servers w"

definition ShardClerk_InstallShard ::
  "'w network \<Rightarrow> string list \<Rightarrow> InstallShardArgs \<Rightarrow> 'w \<Rightarrow> (InstallShardReply \<times> 'w) option" where
  "ShardClerk_InstallShard Call servers args w = callGroup Call ''ShardGroup.InstallShard'' (InstallOp args)
     (\<lambda>rep. case rep of InstallRep r \<Rightarrow> Some r | _ \<Rightarrow> None) ir_Err servers w"

definition ShardClerk_DeleteShard ::
  "'w network \<Rightarrow> string list \<Rightarrow> DeleteShardArgs \<Rightarrow> 'w \<Rightarrow> (DeleteShardReply \<times> 'w) option" where
  "ShardClerk_DeleteShard Call servers args w = callGroup Call ''ShardGroup.DeleteShard'' (DeleteOp args)
     (\<lambda>rep. case rep of DeleteRep r \<Rightarrow> Some r | _ \<Rightarrow> None) dr_Err servers w"

lemmas ShardClerk_defs = ShardClerk_Get_def ShardClerk_Put_def ShardClerk_FreezeShard_def
  ShardClerk_InstallShard_def ShardClerk_DeleteShard_def

text \<open>Over a group without servers the loop never returns.\<close>

lemma callGroup_no_servers: "callGroup Call meth args sel err [] w = None"
proof -
  have "servers \<noteq> []" if "callGroup Call meth args sel err servers w = Some y" for servers w y
    by (rule callGroup.raw_induct [where P = "\<lambda>Call meth args sel err servers w y. servers \<noteq> []", OF _ that])
      (auto split: option.splits prod.splits)
  then show ?thesis by (cases "callGroup Call meth args sel err [] w") auto
qed

text \<open>
  The answer the clerk returns is one a server gave to this very request, and it is not
  \<open>ErrWrongLeader\<close>; the loop may have sent the request to other servers before.
\<close>

lemma tryServers_answer:
  "tryServers Call meth args sel err servers w = (Some r, w') \<Longrightarrow>
   \<exists>srv\<in>set servers. \<exists>u rep. Call srv meth args u = (Some rep, w') \<and> sel rep = Some r \<and> err r \<noteq> ErrWrongLeader"
  by (induction servers arbitrary: w) (auto split: option.splits prod.splits if_splits)

lemma callGroup_answer:
  assumes "callGroup Call meth args sel err servers w = Some (r, w')"
  shows "\<exists>srv\<in>set servers. \<exists>u rep. Call srv meth args u = (Some rep, w') \<and> sel rep = Some r \<and> err r \<noteq> ErrWrongLeader"
proof -
  let ?P = "\<lambda>Call meth args sel err servers w y. \<exists>srv\<in>set servers. \<exists>u rep.
    Call srv meth args u = (Some rep, snd y) \<and> sel rep = Some (fst y) \<and> err (fst y) \<noteq> ErrWrongLeader"
  have "?P Call meth args sel err servers w (r, w')"
  proof (rule callGroup.raw_induct [where P = ?P, OF _ assms])
    fix cg Call meth args sel err servers w y
    assume IH: "\<And>Call meth args sel err servers w y. cg Call meth args sel err servers w = Some y \<Longrightarrow>
        ?P Call meth args sel err servers w y"
      and eq: "(case tryServers Call meth args sel err servers w of
          (None, u) \<Rightarrow> cg Call meth args sel err servers u | (Some reply, u) \<Rightarrow> Some (reply, u)) = Some y"
    show "?P Call meth args sel err servers w y"
    proof (cases "tryServers Call meth args sel err servers w")
      case (Pair res u)
      show ?thesis
      proof (cases res)
        case None
        with eq Pair have "cg Call meth args sel err servers u = Some y" by simp
        then show ?thesis by (rule IH)
      next
        case (Some r)
        with eq Pair have y: "y = (r, u)" and "tryServers Call meth args sel err servers w = (Some r, u)"
          by simp_all
        from tryServers_answer [OF this(2)] show ?thesis unfolding y fst_conv snd_conv .
      qed
    qed
  qed
  then show ?thesis by simp
qed

end
