(* ===== verification/ConfigJSON.thy ===== *)
theory ConfigJSON
  imports Core GoStrings
begin

section \<open>The configuration as JSON text\<close>

text \<open>
  The controller stores the configuration in the key/value server as the text that
  \<open>encoding/json\<close> makes of a \<open>ShardConfig\<close>. The encoder here writes what \<open>json.Marshal\<close> writes: the
  fields in order, no white space, the keys of the group map as strings in the order of
  \<open>strings.Compare\<close>, strings with Go's escapes (the bytes from 0x80 on are copied, which is Go's
  behaviour on valid UTF-8 without U+2028 and U+2029). The decoder accepts the texts of that form;
  \<open>json.Unmarshal\<close> accepts more (white space, other orders of the fields, missing ones), which the
  code never stores. A nil map or slice, printed as \<open>null\<close>, does not occur in a stored
  configuration. The theory proves that decoding inverts encoding.
\<close>

subsection \<open>Encoding\<close>

definition hexChar :: "nat \<Rightarrow> char" where
  "hexChar n = (if n < 10 then char_of (48 + n) else char_of (87 + n))"

definition escapeChar :: "char \<Rightarrow> string" where
  "escapeChar c =
     (if c = CHR 0x22 \<or> c = CHR 0x5C then [CHR 0x5C, c]
      else if c = CHR 8 then [CHR 0x5C, CHR ''b'']
      else if c = CHR 9 then [CHR 0x5C, CHR ''t'']
      else if c = CHR 10 then [CHR 0x5C, CHR ''n'']
      else if c = CHR 12 then [CHR 0x5C, CHR ''f'']
      else if c = CHR 13 then [CHR 0x5C, CHR ''r'']
      else if of_char c < (32 :: nat) \<or> c \<in> {CHR ''<'', CHR ''>'', CHR ''&''}
        then [CHR 0x5C, CHR ''u'', CHR ''0'', CHR ''0'', hexChar (of_char c div 16), hexChar (of_char c mod 16)]
      else [c])"

definition encString :: "string \<Rightarrow> string" where
  "encString s = [CHR 0x22] @ concat (map escapeChar s) @ [CHR 0x22]"

fun joinComma :: "string list \<Rightarrow> string" where
  "joinComma [] = []"
| "joinComma [x] = x"
| "joinComma (x # y # xs) = x @ '','' @ joinComma (y # xs)"

definition encList :: "('a \<Rightarrow> string) \<Rightarrow> 'a list \<Rightarrow> string" where
  "encList enc xs = ''['' @ joinComma (map enc xs) @ '']''"

definition encGroup :: "int \<times> string list \<Rightarrow> string" where
  "encGroup g = encString (itoa (fst g)) @ '':'' @ encList encString (snd g)"

text \<open>The order of the keys of a map: by their printed bytes.\<close>

fun bytesLess :: "string \<Rightarrow> string \<Rightarrow> bool" where
  "bytesLess _ [] = False"
| "bytesLess [] (_ # _) = True"
| "bytesLess (x # xs) (y # ys) =
     (of_char x < (of_char y :: nat) \<or> x = y \<and> bytesLess xs ys)"

fun insertKey :: "int \<Rightarrow> int list \<Rightarrow> int list" where
  "insertKey k [] = [k]"
| "insertKey k (l # ls) = (if bytesLess (itoa l) (itoa k) then l # insertKey k ls else k # l # ls)"

definition mapKeys :: "(int, 'v) fmap \<Rightarrow> int list" where
  "mapKeys m = foldr insertKey (sorted_list_of_fset (fmdom m)) []"

definition encGroups :: "(int, string list) fmap \<Rightarrow> string" where
  "encGroups m =
     CHR ''{'' # joinComma (map (\<lambda>k. encGroup (k, the (fmlookup m k))) (mapKeys m)) @ ''}''"

definition json_Marshal :: "ShardConfig \<Rightarrow> string" where
  "json_Marshal c =
     ''{'' @ encString ''Num'' @ '':'' @ itoa (sc_Num c) @ '','' @
     encString ''Shards'' @ '':'' @ encList itoa (sc_Shards c) @ '','' @
     encString ''Groups'' @ '':'' @ encGroups (sc_Groups c) @ ''}''"

subsection \<open>Decoding\<close>

text \<open>A parser takes a prefix of the text and returns the value and the rest.\<close>

type_synonym 'a parser = "string \<Rightarrow> ('a \<times> string) option"

definition lit :: "string \<Rightarrow> string \<Rightarrow> string option" where
  "lit p s = (if take (length p) s = p then Some (drop (length p) s) else None)"

definition parseNat :: "nat parser" where
  "parseNat s = (let ds = takeWhile isDigit s in
     if ds = [] \<or> hd ds = CHR ''0'' \<and> length ds > 1 then None
     else Some (digitsVal ds, dropWhile isDigit s))"

definition parseInt :: "int parser" where
  "parseInt s =
     (if take 1 s = ''-'' then map_option (apfst (\<lambda>n. - int n)) (parseNat (tl s))
      else map_option (apfst int) (parseNat s))"

definition hexVal :: "char \<Rightarrow> nat option" where
  "hexVal c = (let n = of_char c in
     if 48 \<le> n \<and> n \<le> 57 then Some (n - 48)
     else if 97 \<le> n \<and> n \<le> 102 then Some (n - 87)
     else if 65 \<le> n \<and> n \<le> 70 then Some (n - 55) else None)"

definition unescape :: "char \<Rightarrow> char option" where
  "unescape e =
     (if e \<in> {CHR 0x22, CHR 0x5C, CHR ''/''} then Some e
      else if e = CHR ''b'' then Some (CHR 8) else if e = CHR ''t'' then Some (CHR 9)
      else if e = CHR ''n'' then Some (CHR 10) else if e = CHR ''f'' then Some (CHR 12)
      else if e = CHR ''r'' then Some (CHR 13) else None)"

text \<open>The characters of a string up to its closing quote; \<open>\\u\<close> escapes of one byte only.\<close>

fun parseChars :: "string \<Rightarrow> (string \<times> string) option" where
  "parseChars [] = None"
| "parseChars (c # cs) =
     (if c = CHR 0x22 then Some ([], cs)
      else if c \<noteq> CHR 0x5C then
        (if of_char c < (32 :: nat) then None
         else do { (s, r) \<leftarrow> parseChars cs; Some (c # s, r) })
      else (case cs of
          CHR ''u'' # z1 # z2 # h # l # cs' \<Rightarrow>
            if z1 = CHR ''0'' \<and> z2 = CHR ''0'' then do {
              a \<leftarrow> hexVal h;
              b \<leftarrow> hexVal l;
              (s, r) \<leftarrow> parseChars cs';
              if a < 8 then Some (char_of (16 * a + b) # s, r) else None
            } else None
        | e # cs' \<Rightarrow> do { x \<leftarrow> unescape e; (s, r) \<leftarrow> parseChars cs'; Some (x # s, r) }
        | [] \<Rightarrow> None))"

definition parseString :: "string parser" where
  "parseString s = do { s \<leftarrow> lit [CHR 0x22] s; parseChars s }"

text \<open>The elements after the first one; each takes a character at least, so the length is enough fuel.\<close>

fun parseMore :: "'a parser \<Rightarrow> char \<Rightarrow> nat \<Rightarrow> string \<Rightarrow> ('a list \<times> string) option" where
  "parseMore p close fuel [] = None"
| "parseMore p close fuel (c # s) =
     (if c = close then Some ([], s)
      else if c = CHR '','' then
        (case fuel of
           0 \<Rightarrow> None
         | Suc f \<Rightarrow> do { (x, r) \<leftarrow> p s; (xs, r) \<leftarrow> parseMore p close f r; Some (x # xs, r) })
      else None)"

definition parseElems :: "'a parser \<Rightarrow> char \<Rightarrow> 'a list parser" where
  "parseElems p close s =
     (if take 1 s = [close] then Some ([], tl s)
      else do { (x, r) \<leftarrow> p s; (xs, r) \<leftarrow> parseMore p close (length s) r; Some (x # xs, r) })"

definition parseList :: "'a parser \<Rightarrow> 'a list parser" where
  "parseList p s = do { s \<leftarrow> lit ''['' s; parseElems p (CHR '']'') s }"

definition parseGroup :: "(int \<times> string list) parser" where
  "parseGroup s = do {
     (k, s) \<leftarrow> parseString s;
     k \<leftarrow> Atoi k;
     s \<leftarrow> lit '':'' s;
     (servers, s) \<leftarrow> parseList parseString s;
     Some ((k, servers), s)
   }"

definition json_Unmarshal :: "string \<Rightarrow> ShardConfig option" where
  "json_Unmarshal s = do {
     s \<leftarrow> lit (''{'' @ encString ''Num'' @ '':'') s;
     (num, s) \<leftarrow> parseInt s;
     s \<leftarrow> lit ('','' @ encString ''Shards'' @ '':'') s;
     (shards, s) \<leftarrow> parseList parseInt s;
     s \<leftarrow> lit ('','' @ encString ''Groups'' @ '':{'') s;
     (groups, s) \<leftarrow> parseElems parseGroup (CHR ''}'') s;
     s \<leftarrow> lit ''}'' s;
     if s = [] then
       Some \<lparr>sc_Num = num, sc_Shards = take NShards (shards @ replicate NShards 0),
             sc_Groups = fmap_of_list (rev groups)\<rparr>
     else None
   }"

subsection \<open>Decoding inverts encoding\<close>

lemma lit_append [simp]: "lit p (p @ s) = Some s"
  by (simp add: lit_def)

lemma hexVal_hexChar [simp]: "n < 16 \<Longrightarrow> hexVal (hexChar n) = Some n"
  by (auto simp: hexVal_def hexChar_def Let_def)

lemma parseChars_escape:
  "parseChars (escapeChar c @ t) = do { (s, r) \<leftarrow> parseChars t; Some (c # s, r) }"
proof -
  let ?two = "{CHR 0x22, CHR 0x5C, CHR 8, CHR 9, CHR 10, CHR 12, CHR 13}"
  show ?thesis
  proof (cases "c \<in> ?two")
    case True
    then show ?thesis by (elim insertE emptyE) (simp_all add: escapeChar_def unescape_def)
  next
    case ne: False
    show ?thesis
    proof (cases "of_char c < (32 :: nat) \<or> c \<in> {CHR ''<'', CHR ''>'', CHR ''&''}")
      case True
      then have esc: "escapeChar c =
          [CHR 0x5C, CHR ''u'', CHR ''0'', CHR ''0'', hexChar (of_char c div 16), hexChar (of_char c mod 16)]"
        using ne unfolding escapeChar_def by simp
      have "of_char c < (128 :: nat)" using True by auto
      then have "of_char c div 16 < (8 :: nat)" by simp
      then have "hexVal (hexChar (of_char c div 16)) = Some (of_char c div 16)"
        "hexVal (hexChar (of_char c mod 16)) = Some (of_char c mod 16)" "of_char c div 16 < (8 :: nat)"
        by simp_all
      moreover have "char_of (16 * (of_char c div 16) + of_char c mod 16 :: nat) = c" by simp
      ultimately show ?thesis by (cases "parseChars t") (simp_all add: esc)
    next
      case False
      then have "escapeChar c = [c]" using ne unfolding escapeChar_def by simp
      with False ne show ?thesis by simp
    qed
  qed
qed

lemma parseChars_enc: "parseChars (concat (map escapeChar s) @ CHR 0x22 # t) = Some (s, t)"
  by (induction s) (simp_all add: parseChars_escape)

lemma parseString_enc [simp]: "parseString (encString s @ t) = Some (s, t)"
  using parseChars_enc [of s t] lit_append [of "[CHR 0x22]"]
  by (simp add: parseString_def encString_def)

lemma parseNat_digits:
  assumes "t = [] \<or> \<not> isDigit (hd t)"
  shows "parseNat (natDigits n @ t) = Some (n, t)"
proof -
  have "\<not> (hd (natDigits n) = CHR ''0'' \<and> length (natDigits n) > 1)"
    using natDigits_hd [of n] natDigits_0 by auto
  then show ?thesis using natDigits_split [OF assms] by (simp add: parseNat_def Let_def)
qed

lemma parseInt_itoa:
  assumes "t = [] \<or> \<not> isDigit (hd t)"
  shows "parseInt (itoa i @ t) = Some (i, t)"
proof (cases "i < 0")
  case True
  then show ?thesis using parseNat_digits [OF assms] by (simp add: parseInt_def itoa_def)
next
  case False
  have "hd (natDigits (nat i)) \<noteq> CHR ''-''" using natDigits_digits [of "hd (natDigits (nat i))" "nat i"] by auto
  then have "take 1 (natDigits (nat i) @ t) \<noteq> ''-''" by (cases "natDigits (nat i)") auto
  with False show ?thesis using parseNat_digits [OF assms] by (simp add: parseInt_def itoa_def)
qed

text \<open>A list of elements, each of which the parser takes up to a comma or the closing bracket.\<close>

lemma parseMore_join:
  assumes "\<And>x r. x \<in> set xs \<Longrightarrow> r \<noteq> [] \<Longrightarrow> hd r \<in> {CHR '','', close} \<Longrightarrow> p (enc x @ r) = Some (x, r)"
    and "close \<noteq> CHR '',''" and "length xs \<le> fuel"
  shows "parseMore p close fuel (concat (map (\<lambda>x. CHR '','' # enc x) xs) @ close # t) = Some (xs, t)"
  using assms(1,3)
proof (induction xs arbitrary: fuel)
  case Nil
  then show ?case by simp
next
  case (Cons x xs)
  then obtain f where f: "fuel = Suc f" "length xs \<le> f" by (cases fuel) auto
  let ?r = "concat (map (\<lambda>x. CHR '','' # enc x) xs) @ close # t"
  have "p (enc x @ ?r) = Some (x, ?r)"
    by (rule Cons.prems(1)) (simp, simp, cases xs, auto)
  moreover have "parseMore p close f ?r = Some (xs, t)"
    using Cons.prems(1) f(2) by (intro Cons.IH) auto
  ultimately show ?case using assms(2) by (simp add: f(1))
qed

lemma joinComma_eq: "joinComma (x # xs) = x @ concat (map (\<lambda>y. CHR '','' # y) xs)"
  by (induction xs arbitrary: x) auto

lemma parseElems_join:
  assumes "\<And>x r. x \<in> set xs \<Longrightarrow> r \<noteq> [] \<Longrightarrow> hd r \<in> {CHR '','', close} \<Longrightarrow> p (enc x @ r) = Some (x, r)"
    and "close \<noteq> CHR '',''" and "\<And>x. x \<in> set xs \<Longrightarrow> enc x \<noteq> [] \<and> hd (enc x) \<noteq> close"
  shows "parseElems p close (joinComma (map enc xs) @ close # t) = Some (xs, t)"
proof (cases xs)
  case Nil
  then show ?thesis by (simp add: parseElems_def)
next
  case (Cons x ys)
  let ?r = "concat (map (\<lambda>x. CHR '','' # enc x) ys) @ close # t"
  have eq: "joinComma (map enc xs) @ close # t = enc x @ ?r"
    unfolding Cons list.map(2) joinComma_eq by (simp add: comp_def)
  have "take 1 (enc x @ ?r) \<noteq> [close]" using assms(3) [of x] Cons by (cases "enc x") auto
  moreover have "p (enc x @ ?r) = Some (x, ?r)"
    by (rule assms(1)) (simp add: Cons, simp, cases ys, auto)
  moreover have "length ys \<le> length ?r"
    by (induction ys) auto
  then have "parseMore p close (length (enc x @ ?r)) ?r = Some (ys, t)"
    using assms(1) Cons by (intro parseMore_join [OF _ assms(2)]) auto
  ultimately show ?thesis unfolding eq parseElems_def by (simp add: Cons)
qed

lemma parseList_enc:
  assumes "\<And>x r. x \<in> set xs \<Longrightarrow> r \<noteq> [] \<Longrightarrow> hd r \<in> {CHR '','', CHR '']''} \<Longrightarrow> p (enc x @ r) = Some (x, r)"
    and "\<And>x. x \<in> set xs \<Longrightarrow> enc x \<noteq> [] \<and> hd (enc x) \<noteq> CHR '']''"
  shows "parseList p (encList enc xs @ t) = Some (xs, t)"
  using parseElems_join [where p = p and enc = enc and xs = xs and t = t and close = "CHR '']''"]
    lit_append [of "''[''"] assms
  by (simp add: parseList_def encList_def)

lemma encString_hd [simp]: "encString s \<noteq> []" "hd (encString s) = CHR 0x22"
  by (simp_all add: encString_def)

lemma itoa_hd: "itoa i \<noteq> [] \<and> hd (itoa i) \<noteq> CHR '']''"
  using natDigits_digits [of "hd (natDigits (nat i))" "nat i"]
  by (auto simp: itoa_def isDigit_def)

lemma bracket_not_digit [simp]: "\<not> isDigit (CHR '','')" "\<not> isDigit (CHR '']'')" "\<not> isDigit (CHR ''}'')"
  by (simp_all add: isDigit_def)

lemma parseList_ints: "parseList parseInt (encList itoa xs @ t) = Some (xs, t)"
  by (rule parseList_enc) (use itoa_hd parseInt_itoa in auto)

lemma parseList_strings [simp]: "parseList parseString (encList encString xs @ t) = Some (xs, t)"
  by (rule parseList_enc) auto

definition int64 :: "int \<Rightarrow> bool" where
  "int64 i \<longleftrightarrow> - (2 ^ 63) \<le> i \<and> i < 2 ^ 63"

lemma parseGroup_enc:
  assumes "int64 (fst g)"
  shows "parseGroup (encGroup g @ t) = Some (g, t)"
  using assms Atoi_itoa [of "fst g"] lit_append [of "'':''"]
  by (simp add: parseGroup_def encGroup_def int64_def)

lemma set_insertKey [simp]: "set (insertKey k ls) = insert k (set ls)"
  by (induction ls) auto

lemma distinct_insertKey: "k \<notin> set ls \<Longrightarrow> distinct ls \<Longrightarrow> distinct (insertKey k ls)"
  by (induction ls) auto

lemma mapKeys_set: "set (mapKeys m) = fset (fmdom m)"
proof -
  have "set (foldr insertKey ks []) = set ks" for ks by (induction ks) auto
  then show ?thesis by (simp add: mapKeys_def)
qed

lemma mapKeys_distinct: "distinct (mapKeys m)"
proof -
  have "distinct ks \<Longrightarrow> distinct (foldr insertKey ks [])" for ks
  proof (induction ks)
    case (Cons k ks)
    have "set (foldr insertKey ks []) = set ks" by (induction ks) auto
    with Cons show ?case by (simp add: distinct_insertKey)
  qed simp
  then show ?thesis by (simp add: mapKeys_def sorted_list_of_fset.rep_eq)
qed

lemma fmap_of_keys: "fmap_of_list (rev (map (\<lambda>k. (k, the (fmlookup m k))) (mapKeys m))) = m"
proof (rule fmap_ext)
  fix k
  let ?ps = "map (\<lambda>k. (k, the (fmlookup m k))) (mapKeys m)"
  have "distinct (map fst ?ps)" using mapKeys_distinct [of m] by (simp add: comp_def)
  then have "map_of (rev ?ps) = map_of ?ps" by (subst map_of_inject_set) (simp_all add: rev_map [symmetric])
  then have "map_of (rev ?ps) k = map_of ?ps k" by simp
  also have "\<dots> = fmlookup m k"
    using mapKeys_set [of m] by (auto simp: map_of_map_restrict restrict_map_def fmdom'_alt_def fmlookup_dom_iff)
  finally show "fmlookup (fmap_of_list (rev ?ps)) k = fmlookup m k" by (simp add: fmlookup_of_list)
qed

lemma encGroup_hd: "encGroup g \<noteq> [] \<and> hd (encGroup g) \<noteq> CHR ''}''"
  by (simp add: encGroup_def)

lemma json_roundtrip:
  assumes "length (sc_Shards c) = NShards" and "\<forall>k |\<in>| fmdom (sc_Groups c). int64 k"
  shows "json_Unmarshal (json_Marshal c) = Some c"
proof -
  let ?gs = "map (\<lambda>k. (k, the (fmlookup (sc_Groups c) k))) (mapKeys (sc_Groups c))"
  have gs: "\<And>g. g \<in> set ?gs \<Longrightarrow> int64 (fst g)"
    using assms(2) mapKeys_set [of "sc_Groups c"] by auto
  have elems: "parseElems parseGroup (CHR ''}'') (joinComma (map encGroup ?gs) @ CHR ''}'' # t) = Some (?gs, t)" for t
    by (rule parseElems_join) (use gs parseGroup_enc encGroup_hd in auto)
  have "json_Unmarshal (json_Marshal c) = json_Unmarshal
      ((''{'' @ encString ''Num'' @ '':'') @ itoa (sc_Num c) @ ('','' @ encString ''Shards'' @ '':'') @
       encList itoa (sc_Shards c) @ ('','' @ encString ''Groups'' @ '':{'') @
       joinComma (map encGroup ?gs) @ CHR ''}'' # ''}'')"
    by (simp add: json_Marshal_def encGroups_def comp_def)
  also have "\<dots> = Some \<lparr>sc_Num = sc_Num c, sc_Shards = take NShards (sc_Shards c @ replicate NShards 0),
       sc_Groups = fmap_of_list (rev ?gs)\<rparr>"
    unfolding json_Unmarshal_def lit_append Option.bind.bind_lunit parseList_ints
    using parseInt_itoa [of "('','' @ encString ''Shards'' @ '':'') @ encList itoa (sc_Shards c) @ ('','' @ encString ''Groups'' @ '':{'') @
       joinComma (map encGroup ?gs) @ CHR ''}'' # ''}''" "sc_Num c"] elems [of "''}''"]
    by (simp add: lit_def parseList_ints)
  also have "\<dots> = Some c" using assms(1) by (simp add: fmap_of_keys)
  finally show ?thesis .
qed

end
