(* ===== verification/ShardController.thy ===== *)
theory ShardController
  imports ConfigJSON ShardClerk KVLock
begin

section \<open>The shard controller (internal/shardctrler/controller.go)\<close>

text \<open>
  The controller keeps the configuration under the key \<open>config\<close> of a key/value server, takes the
  lock \<open>config_lock\<close> for every change, and moves shards between groups: freeze at the source,
  install at the destination, delete at the source, then publish. Everything outside the
  controller is the network state \<open>'w\<close>; an \<open>error\<close> is \<open>None\<close> (nil) or its text; a result \<open>None\<close> is a
  call that never returns. The random bytes of \<open>NewLock\<close> are an argument.
\<close>

record ShardController =
  ctl_kvsrv :: string
  ctl_groups :: "(int, string list) fmap"

definition ShardController_New :: "string \<Rightarrow> (int, string list) fmap \<Rightarrow> ShardController" where
  "ShardController_New kvsrvAddr groups = \<lparr>ctl_kvsrv = kvsrvAddr, ctl_groups = groups\<rparr>"

type_synonym error = "string option"

text \<open>\<open>groups[gid]\<close>: the nil slice when the group is missing.\<close>

definition serversOf :: "(int, string list) fmap \<Rightarrow> int \<Rightarrow> string list" where
  "serversOf groups gid = (case fmlookup groups gid of None \<Rightarrow> [] | Some ss \<Rightarrow> ss)"

definition sortedGids :: "(int, string list) fmap \<Rightarrow> int list" where
  "sortedGids groups = sorted_list_of_fset (fmdom groups)"

definition assignShards :: "int list \<Rightarrow> int list" where
  "assignShards gids =
     (if length gids > 0 then map (\<lambda>i. gids ! (i mod length gids)) [0..<NShards] else replicate NShards 0)"

text \<open>\<open>lock.Acquire(); defer lock.Release()\<close> around the rest of a method.\<close>

definition withConfigLock ::
  "'w network \<Rightarrow> ShardController \<Rightarrow> nat list \<Rightarrow> ('w \<Rightarrow> (error \<times> 'w) option) \<Rightarrow> 'w \<Rightarrow> (error \<times> 'w) option" where
  "withConfigLock Call ctl rnd body w = do {
     let lock = NewLock rnd ''config_lock'';
     w \<leftarrow> Lock_Acquire Call (ctl_kvsrv ctl) lock w;
     (err, w) \<leftarrow> body w;
     w \<leftarrow> Lock_Release Call (ctl_kvsrv ctl) lock w;
     Some (err, w)
   }"

subsection \<open>InitConfig\<close>

fun installInitial ::
  "'w network \<Rightarrow> (int, string list) fmap \<Rightarrow> (int \<times> int) list \<Rightarrow> 'w \<Rightarrow> (error \<times> 'w) option" where
  "installInitial Call groups [] w = Some (None, w)"
| "installInitial Call groups ((shardIdx, dstGid) # rest) w =
     (if dstGid \<noteq> 0 then do {
        (reply, w) \<leftarrow> ShardClerk_InstallShard Call (serversOf groups dstGid)
          \<lparr>ia_Shard = shardIdx, ia_ConfigNum = 0, ia_Data = Map.empty\<rparr> w;
        if ir_Err reply \<noteq> OK then Some (Some ''failed to install initial shard'', w)
        else installInitial Call groups rest w
      } else installInitial Call groups rest w)"

definition shardIndexes :: "int list" where
  "shardIndexes = map int [0..<NShards]"

definition initConfigBody ::
  "'w network \<Rightarrow> ShardController \<Rightarrow> (int, string list) fmap \<Rightarrow> 'w \<Rightarrow> (error \<times> 'w) option" where
  "initConfigBody Call ctl groups w = do {
     ((_, _, err), w) \<leftarrow> KVClerk_Get Call (ctl_kvsrv ctl) ''config'' w;
     if err = OK then Some (None, w)
     else do {
       let config = \<lparr>sc_Num = 0, sc_Shards = assignShards (sortedGids groups), sc_Groups = groups\<rparr>;
       (err, w) \<leftarrow> installInitial Call (sc_Groups config) (zip shardIndexes (sc_Shards config)) w;
       if err \<noteq> None then Some (err, w)
       else do {
         (putErr, w) \<leftarrow> KVClerk_Put Call (ctl_kvsrv ctl) ''config'' (json_Marshal config) 0 w;
         Some (if putErr \<noteq> OK then Some ''failed to write initial config'' else None, w)
       }
     }
   }"

definition InitConfig ::
  "'w network \<Rightarrow> ShardController \<Rightarrow> nat list \<Rightarrow> (int, string list) fmap \<Rightarrow> 'w \<Rightarrow> (error \<times> 'w) option" where
  "InitConfig Call ctl rnd groups w = withConfigLock Call ctl rnd (initConfigBody Call ctl groups) w"

subsection \<open>Query\<close>

definition Query :: "'w network \<Rightarrow> ShardController \<Rightarrow> 'w \<Rightarrow> ((string + ShardConfig) \<times> 'w) option" where
  "Query Call ctl w = do {
     ((val, _, err), w) \<leftarrow> KVClerk_Get Call (ctl_kvsrv ctl) ''config'' w;
     Some (if err = ErrNoKey
           then Inr \<lparr>sc_Num = -1, sc_Shards = replicate NShards 0, sc_Groups = fmempty\<rparr>
           else if err \<noteq> OK then Inl ''failed to query config''
           else (case json_Unmarshal val of None \<Rightarrow> Inl ''json'' | Some config \<Rightarrow> Inr config), w)
   }"

subsection \<open>ChangeConfigTo\<close>

text \<open>One round of the loop over the shards.\<close>

definition moveShard ::
  "'w network \<Rightarrow> ShardConfig \<Rightarrow> ShardConfig \<Rightarrow> int \<Rightarrow> int \<Rightarrow> int \<Rightarrow> 'w \<Rightarrow> (error \<times> 'w) option" where
  "moveShard Call current target shardIdx srcGid dstGid w =
     (if srcGid \<noteq> dstGid then
        if srcGid \<noteq> 0 then do {
          let srcServers = serversOf (sc_Groups current) srcGid;
          (freezeReply, w) \<leftarrow> ShardClerk_FreezeShard Call srcServers
            \<lparr>fa_Shard = shardIdx, fa_ConfigNum = sc_Num target\<rparr> w;
          if fr_Err freezeReply \<noteq> OK then Some (Some ''failed to freeze shard'', w)
          else do {
            let dstServers = serversOf (sc_Groups target) dstGid;
            (installReply, w) \<leftarrow> ShardClerk_InstallShard Call dstServers
              \<lparr>ia_Shard = shardIdx, ia_ConfigNum = sc_Num target, ia_Data = fr_Data freezeReply\<rparr> w;
            if ir_Err installReply \<noteq> OK then Some (Some ''failed to install shard'', w)
            else do {
              (deleteReply, w) \<leftarrow> ShardClerk_DeleteShard Call srcServers
                \<lparr>da_Shard = shardIdx, da_ConfigNum = sc_Num target\<rparr> w;
              Some (if dr_Err deleteReply \<noteq> OK then Some ''failed to delete shard'' else None, w)
            }
          }
        } else do {
          (installReply, w) \<leftarrow> ShardClerk_InstallShard Call (serversOf (sc_Groups target) dstGid)
            \<lparr>ia_Shard = shardIdx, ia_ConfigNum = sc_Num target, ia_Data = Map.empty\<rparr> w;
          Some (if ir_Err installReply \<noteq> OK then Some ''failed to install shard'' else None, w)
        }
      else Some (None, w))"

fun moveShards ::
  "'w network \<Rightarrow> ShardConfig \<Rightarrow> ShardConfig \<Rightarrow> (int \<times> int \<times> int) list \<Rightarrow> 'w \<Rightarrow> (error \<times> 'w) option" where
  "moveShards Call current target [] w = Some (None, w)"
| "moveShards Call current target ((shardIdx, srcGid, dstGid) # rest) w = do {
     (err, w) \<leftarrow> moveShard Call current target shardIdx srcGid dstGid w;
     if err \<noteq> None then Some (err, w) else moveShards Call current target rest w
   }"

definition changeConfigBody ::
  "'w network \<Rightarrow> ShardController \<Rightarrow> ShardConfig \<Rightarrow> 'w \<Rightarrow> (error \<times> 'w) option" where
  "changeConfigBody Call ctl target w = do {
     ((val, ver, err), w) \<leftarrow> KVClerk_Get Call (ctl_kvsrv ctl) ''config'' w;
     if err \<noteq> OK then Some (Some ''failed to get current config'', w)
     else case json_Unmarshal val of
       None \<Rightarrow> Some (Some ''json'', w)
     | Some current \<Rightarrow>
         if sc_Num target \<le> sc_Num current then Some (None, w)
         else do {
           (err, w) \<leftarrow> moveShards Call current target
             (zip shardIndexes (zip (sc_Shards current) (sc_Shards target))) w;
           if err \<noteq> None then Some (err, w)
           else do {
             (putErr, w) \<leftarrow> KVClerk_Put Call (ctl_kvsrv ctl) ''config'' (json_Marshal target) ver w;
             Some (if putErr \<noteq> OK then Some ''failed to publish new config'' else None, w)
           }
         }
   }"

definition ChangeConfigTo ::
  "'w network \<Rightarrow> ShardController \<Rightarrow> nat list \<Rightarrow> ShardConfig \<Rightarrow> 'w \<Rightarrow> (error \<times> 'w) option" where
  "ChangeConfigTo Call ctl rnd target w = withConfigLock Call ctl rnd (changeConfigBody Call ctl target) w"

lemma shardIndexes_length [simp]: "length shardIndexes = NShards"
  by (simp add: shardIndexes_def)

lemma shardIndexes_nth [simp]: "i < NShards \<Longrightarrow> shardIndexes ! i = int i"
  by (simp add: shardIndexes_def)

lemma assignShards_length [simp]: "length (assignShards gids) = NShards"
  by (simp add: assignShards_def)

text \<open>Round robin: every shard goes to a group, and no two groups differ by more than one shard.\<close>

lemma assignShards_mem: "gids \<noteq> [] \<Longrightarrow> i < NShards \<Longrightarrow> assignShards gids ! i \<in> set gids"
  by (simp add: assignShards_def)

end
