(* ===== verification/ShardKV.thy ===== *)
theory ShardKV
  imports ShardClerk Transport ShardController
begin

section \<open>The routing client (internal/shardkv/client.go, cmd/dkv-client/main.go)\<close>

text \<open>
  The client keeps a copy of the configuration and one clerk per group, asks the group that owns
  the shard of the key, and on any other answer fetches the configuration again and retries. The
  command line client on top of it reads the version of a key before it writes when it is given none.
\<close>

record ShardKVClerk =
  kc_sc :: ShardController
  kc_config :: ShardConfig
  kc_clerks :: "int \<rightharpoonup> string list"      \<comment> \<open>a group clerk is its servers\<close>

definition zeroConfig :: ShardConfig where
  "zeroConfig = \<lparr>sc_Num = 0, sc_Shards = replicate NShards 0, sc_Groups = fmempty\<rparr>"

definition ShardKV_NewClerk :: "'w network \<Rightarrow> string \<Rightarrow> 'w \<Rightarrow> (ShardKVClerk \<times> 'w) option" where
  "ShardKV_NewClerk Call ctrlerAddr w = do {
     let ctl = ShardController_New ctrlerAddr fmempty;
     (q, w) \<leftarrow> Query Call ctl w;
     Some (\<lparr>kc_sc = ctl, kc_config = (case q of Inr cfg \<Rightarrow> cfg | Inl _ \<Rightarrow> zeroConfig),
            kc_clerks = Map.empty\<rparr>, w)
   }"

definition getGroupClerk :: "int \<Rightarrow> ShardKVClerk \<Rightarrow> string list \<times> ShardKVClerk" where
  "getGroupClerk gid ck =
     (case kc_clerks ck gid of
        Some gk \<Rightarrow> (gk, ck)
      | None \<Rightarrow> let gk = serversOf (sc_Groups (kc_config ck)) gid in
          (gk, ck\<lparr>kc_clerks := (kc_clerks ck)(gid \<mapsto> gk)\<rparr>))"

text \<open>Fetch the configuration again; an error leaves the old one.\<close>

definition refreshConfig :: "'w network \<Rightarrow> ShardKVClerk \<Rightarrow> 'w \<Rightarrow> (ShardKVClerk \<times> 'w) option" where
  "refreshConfig Call ck w = do {
     (q, w) \<leftarrow> Query Call (kc_sc ck) w;
     Some (case q of Inr cfg \<Rightarrow> ck\<lparr>kc_config := cfg, kc_clerks := Map.empty\<rparr> | Inl _ \<Rightarrow> ck, w)
   }"

definition shardGid :: "ShardKVClerk \<Rightarrow> string \<Rightarrow> int" where
  "shardGid ck key = sc_Shards (kc_config ck) ! nat (Key2Shard key)"

text \<open>One attempt at the group that owns the key; no answer when there is none or it is refused.\<close>

definition tryGet ::
  "'w network \<Rightarrow> string \<Rightarrow> ShardKVClerk \<Rightarrow> 'w \<Rightarrow> ((string \<times> version \<times> Err) option \<times> ShardKVClerk \<times> 'w) option" where
  "tryGet Call key ck w =
     (let gid = shardGid ck key in
      if gid \<noteq> 0 then
        let (gk, ck) = getGroupClerk gid ck in do {
          (reply, w) \<leftarrow> ShardClerk_Get Call gk \<lparr>ga_Key = key\<rparr> w;
          Some (if gr_Err reply = OK \<or> gr_Err reply = ErrNoKey
                then Some (gr_Value reply, gr_Version reply, gr_Err reply) else None, ck, w)
        }
      else Some (None, ck, w))"

definition tryPut ::
  "'w network \<Rightarrow> PutArgs \<Rightarrow> ShardKVClerk \<Rightarrow> 'w \<Rightarrow> (Err option \<times> ShardKVClerk \<times> 'w) option" where
  "tryPut Call args ck w =
     (let gid = shardGid ck (pa_Key args) in
      if gid \<noteq> 0 then
        let (gk, ck) = getGroupClerk gid ck in do {
          (reply, w) \<leftarrow> ShardClerk_Put Call gk args w;
          Some (if pr_Err reply = OK \<or> pr_Err reply = ErrVersion \<or> pr_Err reply = ErrNoKey
                then Some (pr_Err reply) else None, ck, w)
        }
      else Some (None, ck, w))"

partial_function (option) ShardKV_Get ::
  "'w network \<Rightarrow> string \<Rightarrow> ShardKVClerk \<Rightarrow> 'w \<Rightarrow> ((string \<times> version \<times> Err) \<times> ShardKVClerk \<times> 'w) option" where
  "ShardKV_Get Call key ck w = do {
     (ans, ck, w) \<leftarrow> tryGet Call key ck w;
     case ans of
       Some a \<Rightarrow> Some (a, ck, w)
     | None \<Rightarrow> do { (ck, w) \<leftarrow> refreshConfig Call ck w; ShardKV_Get Call key ck w }
   }"

partial_function (option) ShardKV_PutArgs ::
  "'w network \<Rightarrow> PutArgs \<Rightarrow> ShardKVClerk \<Rightarrow> 'w \<Rightarrow> (Err \<times> ShardKVClerk \<times> 'w) option" where
  "ShardKV_PutArgs Call args ck w = do {
     (ans, ck, w) \<leftarrow> tryPut Call args ck w;
     case ans of
       Some e \<Rightarrow> Some (e, ck, w)
     | None \<Rightarrow> do { (ck, w) \<leftarrow> refreshConfig Call ck w; ShardKV_PutArgs Call args ck w }
   }"

definition ShardKV_Put ::
  "'w network \<Rightarrow> string \<Rightarrow> string \<Rightarrow> version \<Rightarrow> ShardKVClerk \<Rightarrow> 'w \<Rightarrow> (Err \<times> ShardKVClerk \<times> 'w) option" where
  "ShardKV_Put Call key val ver ck w =
     ShardKV_PutArgs Call \<lparr>pa_Key = key, pa_Value = val, pa_Version = ver\<rparr> ck w"

subsection \<open>The command line client\<close>

text \<open>What the process prints and how it ends.\<close>

datatype cli_out = Printed string | ExitWith string | Fatal string

definition usage :: string where
  "usage = ''Usage:'' @ [CHR 10] @ ''  dkv-client --ctrler-addr <addr> get <key>'' @ [CHR 10] @
     ''  dkv-client --ctrler-addr <addr> put <key> <value> [version]'' @ [CHR 10]"

text \<open>\<open>strconv.ParseUint(s, 10, 64)\<close>.\<close>

definition ParseUint64 :: "string \<Rightarrow> version option" where
  "ParseUint64 s = (if s = [] \<or> \<not> list_all isDigit s \<or> 2 ^ 64 \<le> digitsVal s then None
     else Some (of_nat (digitsVal s)))"

definition versionText :: "version \<Rightarrow> string" where
  "versionText v = natDigits (unat v)"

text \<open>The version of the put: the one given, or the current one of the key (0 creates it).\<close>

definition chooseVersion ::
  "'w network \<Rightarrow> string list \<Rightarrow> ShardKVClerk \<Rightarrow> 'w \<Rightarrow> ((cli_out + version) \<times> ShardKVClerk \<times> 'w) option" where
  "chooseVersion Call args ck w =
     (if length args = 4 then
        case ParseUint64 (args ! 3) of
          None \<Rightarrow> Some (Inl (Fatal (''Invalid version: '' @ args ! 3)), ck, w)
        | Some v \<Rightarrow> Some (Inr v, ck, w)
      else do {
        ((_, ver, err), ck, w) \<leftarrow> ShardKV_Get Call (args ! 1) ck w;
        Some (if err = ErrNoKey then Inr 0
              else if err = OK then Inr ver
              else Inl (Fatal ''failed to auto-fetch version''), ck, w)
      })"

definition dkv_client ::
  "'w network \<Rightarrow> string \<Rightarrow> string list \<Rightarrow> 'w \<Rightarrow> (cli_out \<times> 'w) option" where
  "dkv_client Call ctrlerAddr args w =
     (if length args < 2 then Some (ExitWith usage, w)
      else do {
        (ck, w) \<leftarrow> ShardKV_NewClerk Call ctrlerAddr w;
        if args ! 0 = ''get'' then do {
          ((val, ver, err), ck, w) \<leftarrow> ShardKV_Get Call (args ! 1) ck w;
          Some (if err = ErrNoKey then ExitWith (''Key not found: '' @ args ! 1 @ [CHR 10])
                else if err \<noteq> OK then Fatal ''Error getting key''
                else Printed (''Value: '' @ val @ '' (Version: '' @ versionText ver @ '')'' @ [CHR 10]), w)
        }
        else if args ! 0 = ''put'' then
          if length args < 3 then Some (ExitWith (''Usage: put <key> <value> [version]'' @ [CHR 10]), w)
          else do {
            (v, ck, w) \<leftarrow> chooseVersion Call args ck w;
            case v of
              Inl out \<Rightarrow> Some (out, w)
            | Inr ver \<Rightarrow> do {
                (err, ck, w) \<leftarrow> ShardKV_Put Call (args ! 1) (args ! 2) ver ck w;
                Some (if err \<noteq> OK then Fatal ''Put failed'' else Printed (''OK'' @ [CHR 10]), w)
              }
          }
        else Some (ExitWith usage, w)
      })"

subsection \<open>What the client may answer\<close>

lemma tryGet_ans:
  "tryGet Call key ck w = Some (Some (v, ver, e), ck', w') \<Longrightarrow> e = OK \<or> e = ErrNoKey"
  by (auto simp: tryGet_def Let_def split: if_splits prod.splits Option.bind_splits)

lemma tryPut_ans:
  "tryPut Call args ck w = Some (Some e, ck', w') \<Longrightarrow> e \<in> {OK, ErrVersion, ErrNoKey}"
  by (auto simp: tryPut_def Let_def split: if_splits prod.splits Option.bind_splits)

lemma ShardKV_Get_ans:
  assumes "ShardKV_Get Call key ck w = Some ((v, ver, e), ck', w')"
  shows "e = OK \<or> e = ErrNoKey"
proof -
  let ?P = "\<lambda>Call key ck w y. snd (snd (fst y)) \<in> {OK, ErrNoKey}"
  have "?P Call key ck w ((v, ver, e), ck', w')"
    by (rule ShardKV_Get.raw_induct [where P = ?P, OF _ assms])
      (auto split: Option.bind_splits option.splits prod.splits dest: tryGet_ans)
  then show ?thesis by simp
qed

lemma ShardKV_Put_ans:
  assumes "ShardKV_Put Call key val ver ck w = Some (e, ck', w')"
  shows "e \<in> {OK, ErrVersion, ErrNoKey}"
proof -
  let ?P = "\<lambda>Call args ck w y. fst y \<in> {OK, ErrVersion, ErrNoKey}"
  from assms have "?P Call \<lparr>pa_Key = key, pa_Value = val, pa_Version = ver\<rparr> ck w (e, ck', w')"
    unfolding ShardKV_Put_def
    by (rule ShardKV_PutArgs.raw_induct [where P = ?P, rotated])
      (auto split: Option.bind_splits option.splits prod.splits dest: tryPut_ans)
  then show ?thesis by simp
qed

end
