(* ===== verification/ShardWorld.thy ===== *)
theory ShardWorld
  imports ShardKV
begin

section \<open>A whole deployment over a lossy network\<close>

text \<open>
  One key/value server and any number of shard groups behind addresses, for the properties that
  span the controller, the clerks and the groups. A group is its replicated state machine: the
  replica that leads executes a submitted operation, every other replica answers
  \<open>ErrWrongLeader\<close> (that the replicas of a group agree is the subject of the Raft theories). The
  fate of every call is scripted: it is delivered, or its request is lost, or it is executed and its
  reply is lost; after the script every call is delivered. The handlers are those of \<open>ShardGroup\<close>
  and \<open>KVServer\<close>.
\<close>

record dkv_world =
  dw_kvaddr :: string
  dw_kv :: KVServer
  dw_member :: "string \<rightharpoonup> int \<times> bool"      \<comment> \<open>address to its group and whether it leads\<close>
  dw_group :: "int \<Rightarrow> ShardGroup"
  dw_script :: "fate list"

text \<open>The handler of the group service for an operation; \<open>None\<close> when the process dies.\<close>

definition groupRPC :: "submit \<Rightarrow> payload \<Rightarrow> result option" where
  "groupRPC submit op =
     (case op of
        GetOp a \<Rightarrow> map_option GetRep (ShardGroup_Get submit a)
      | PutOp a \<Rightarrow> map_option PutRep (ShardGroup_Put submit a)
      | FreezeOp a \<Rightarrow> map_option FreezeRep (ShardGroup_FreezeShard submit a)
      | InstallOp a \<Rightarrow> map_option InstallRep (ShardGroup_InstallShard submit a)
      | DeleteOp a \<Rightarrow> map_option DeleteRep (ShardGroup_DeleteShard submit a)
      | OtherOp \<Rightarrow> None)"

definition dkv_exec :: "string \<Rightarrow> payload \<Rightarrow> dkv_world \<Rightarrow> result option \<times> dkv_world" where
  "dkv_exec addr op w =
     (if addr = dw_kvaddr w then
        case op of
          GetOp a \<Rightarrow> (Some (GetRep (KVServer_Get a (dw_kv w))), w)
        | PutOp a \<Rightarrow> (case KVServer_Put a (dw_kv w) of (r, kv) \<Rightarrow> (Some (PutRep r), w\<lparr>dw_kv := kv\<rparr>))
        | _ \<Rightarrow> (None, w)
      else case dw_member w addr of
        None \<Rightarrow> (None, w)
      | Some (gid, leads) \<Rightarrow>
          if \<not> leads then (groupRPC (Some (\<lambda>_. Inl ''rsm: not leader'')) op, w)
          else case ShardGroup_DoOp op (dw_group w gid) of
            None \<Rightarrow> (None, w)
          | Some (rep, sg) \<Rightarrow>
              (groupRPC (Some (\<lambda>_. Inr rep)) op, w\<lparr>dw_group := (dw_group w)(gid := sg)\<rparr>))"

definition dkv_call :: "dkv_world network" where
  "dkv_call addr meth op w =
     (case dw_script w of
        [] \<Rightarrow> dkv_exec addr op w
      | f # fs \<Rightarrow>
          let w = w\<lparr>dw_script := fs\<rparr> in
          (case f of
             RequestLost \<Rightarrow> (None, w)
           | ReplyLost \<Rightarrow> (None, snd (dkv_exec addr op w))
           | Delivered \<Rightarrow> dkv_exec addr op w))"

subsection \<open>Calls to the key/value server\<close>

text \<open>Reading returns the stored value; the script gets shorter.\<close>

lemma KVClerk_Get_world:
  "\<exists>fs. length fs \<le> length (dw_script w) \<and>
     KVClerk_Get dkv_call (dw_kvaddr w) key w =
       (let r = KVServer_Get \<lparr>ga_Key = key\<rparr> (dw_kv w) in
        Some ((gr_Value r, gr_Version r, gr_Err r), w\<lparr>dw_script := fs\<rparr>))"
proof (induction "dw_script w" arbitrary: w)
  case Nil
  then show ?case
    by (intro exI [where x = "[]"], subst KVClerk_Get.simps) (simp add: dkv_call_def dkv_exec_def Let_def)
next
  case (Cons f fs)
  let ?w = "w\<lparr>dw_script := fs\<rparr>"
  show ?case
  proof (cases "f = Delivered")
    case True
    with Cons(2) [symmetric] show ?thesis
      by (intro exI [where x = fs], subst KVClerk_Get.simps) (simp add: dkv_call_def dkv_exec_def Let_def)
  next
    case False
    have "KVClerk_Get dkv_call (dw_kvaddr w) key w = KVClerk_Get dkv_call (dw_kvaddr w) key ?w"
      using Cons(2) [symmetric] False
      by (subst KVClerk_Get.simps, cases f) (simp_all add: dkv_call_def dkv_exec_def Let_def)
    moreover obtain gs where "length gs \<le> length fs"
      "KVClerk_Get dkv_call (dw_kvaddr w) key ?w =
       (let r = KVServer_Get \<lparr>ga_Key = key\<rparr> (dw_kv w) in
        Some ((gr_Value r, gr_Version r, gr_Err r), w\<lparr>dw_script := gs\<rparr>))"
      using Cons(1) [of ?w] by (auto simp: Let_def)
    ultimately show ?thesis using Cons(2) by (intro exI [where x = gs]) (simp add: Cons(2) [symmetric])
  qed
qed

text \<open>A put that can succeed takes effect once, and is answered \<open>OK\<close> or \<open>ErrMaybe\<close>.\<close>

lemma PutLoop_after:
  assumes "stale (pa_Key a) (pa_Version a) (store (dw_kv w))"
  shows "\<exists>fs. KVClerk_PutLoop dkv_call (dw_kvaddr w) a True w = Some (ErrMaybe, w\<lparr>dw_script := fs\<rparr>)"
  using assms
proof (induction "dw_script w" arbitrary: w)
  case Nil
  obtain r kv where p: "KVServer_Put a (dw_kv w) = (r, kv)" by fastforce
  have "pr_Err r = ErrVersion" "store kv = store (dw_kv w)"
    using KVServer_Put_view [of a "dw_kv w"] stale_fails [OF Nil(2)] p by auto
  then have "kv = dw_kv w" by (cases kv; cases "dw_kv w") simp
  with Nil(1) [symmetric] p \<open>pr_Err r = ErrVersion\<close> show ?case
    by (intro exI [where x = "[]"], subst KVClerk_PutLoop.simps) (simp add: dkv_call_def dkv_exec_def)
next
  case (Cons f fs)
  obtain r kv where p: "KVServer_Put a (dw_kv w) = (r, kv)" by fastforce
  have "pr_Err r = ErrVersion" "store kv = store (dw_kv w)"
    using KVServer_Put_view [of a "dw_kv w"] stale_fails [OF Cons(3)] p by auto
  then have kv: "kv = dw_kv w" by (cases kv; cases "dw_kv w") simp
  let ?w = "w\<lparr>dw_script := fs\<rparr>"
  show ?case
  proof (cases "f = Delivered")
    case True
    with Cons(2) [symmetric] p kv \<open>pr_Err r = ErrVersion\<close> show ?thesis
      by (intro exI [where x = fs], subst KVClerk_PutLoop.simps) (simp add: dkv_call_def dkv_exec_def)
  next
    case False
    have "KVClerk_PutLoop dkv_call (dw_kvaddr w) a True w = KVClerk_PutLoop dkv_call (dw_kvaddr w) a True ?w"
      using Cons(2) [symmetric] False p kv
      by (subst KVClerk_PutLoop.simps, cases f) (simp_all add: dkv_call_def dkv_exec_def)
    with Cons(1) [of ?w] Cons(3) show ?thesis by simp
  qed
qed

lemma PutLoop_world:
  assumes "fst (put_view a (store (dw_kv w))) = OK"
  shows "\<exists>fs e. e \<in> {OK, ErrMaybe} \<and> KVClerk_PutLoop dkv_call (dw_kvaddr w) a retried w =
    Some (e, w\<lparr>dw_kv := \<lparr>store = snd (put_view a (store (dw_kv w)))\<rparr>, dw_script := fs\<rparr>)"
  using assms
proof (induction "dw_script w" arbitrary: w retried)
  case Nil
  obtain r kv where p: "KVServer_Put a (dw_kv w) = (r, kv)" by fastforce
  have "pr_Err r = OK" "store kv = snd (put_view a (store (dw_kv w)))"
    using KVServer_Put_view [of a "dw_kv w"] Nil(2) p by auto
  then have kv: "kv = \<lparr>store = snd (put_view a (store (dw_kv w)))\<rparr>" by (cases kv) simp
  with Nil(1) [symmetric] p \<open>pr_Err r = OK\<close> show ?case
    by (intro exI [where x = "[]"] exI [where x = OK], subst KVClerk_PutLoop.simps)
      (simp add: dkv_call_def dkv_exec_def)
next
  case (Cons f fs)
  obtain r kv where p: "KVServer_Put a (dw_kv w) = (r, kv)" by fastforce
  have ok: "pr_Err r = OK" and st: "store kv = snd (put_view a (store (dw_kv w)))"
    using KVServer_Put_view [of a "dw_kv w"] Cons(3) p by auto
  then have kv: "kv = \<lparr>store = snd (put_view a (store (dw_kv w)))\<rparr>" by (cases kv) simp
  let ?w = "w\<lparr>dw_script := fs\<rparr>"
  show ?case
  proof (cases f)
    case Delivered
    with Cons(2) [symmetric] p kv ok show ?thesis
      by (intro exI [where x = fs] exI [where x = OK], subst KVClerk_PutLoop.simps)
        (simp add: dkv_call_def dkv_exec_def)
  next
    case RequestLost
    have "KVClerk_PutLoop dkv_call (dw_kvaddr w) a retried w = KVClerk_PutLoop dkv_call (dw_kvaddr w) a True ?w"
      using Cons(2) [symmetric] RequestLost by (subst KVClerk_PutLoop.simps) (simp add: dkv_call_def)
    with Cons(1) [of ?w True] Cons(3) show ?thesis by simp
  next
    case ReplyLost
    let ?u = "w\<lparr>dw_kv := kv, dw_script := fs\<rparr>"
    have swap: "w\<lparr>dw_script := fs, dw_kv := kv\<rparr> = ?u" by simp
    have "KVClerk_PutLoop dkv_call (dw_kvaddr w) a retried w = KVClerk_PutLoop dkv_call (dw_kvaddr w) a True ?u"
      using Cons(2) [symmetric] ReplyLost p
      by (subst KVClerk_PutLoop.simps) (simp add: dkv_call_def dkv_exec_def, simp only: swap)
    moreover have "stale (pa_Key a) (pa_Version a) (store (dw_kv ?u))"
      using stale_put [OF Cons(3)] st by simp
    ultimately show ?thesis using PutLoop_after [of a ?u] kv by fastforce
  qed
qed

subsection \<open>Calls to a group\<close>

text \<open>The world with one group's state and the script replaced.\<close>

definition wat :: "dkv_world \<Rightarrow> int \<Rightarrow> ShardGroup \<Rightarrow> fate list \<Rightarrow> dkv_world" where
  "wat w gid sg fs = w\<lparr>dw_group := (dw_group w)(gid := sg), dw_script := fs\<rparr>"

lemma wat_simps [simp]:
  "dw_kvaddr (wat w gid sg fs) = dw_kvaddr w" "dw_kv (wat w gid sg fs) = dw_kv w"
  "dw_member (wat w gid sg fs) = dw_member w" "dw_script (wat w gid sg fs) = fs"
  "dw_group (wat w gid sg fs) = (dw_group w)(gid := sg)"
  "wat (wat w gid sg fs) gid sg2 fs2 = wat w gid sg2 fs2"
  "(wat w gid sg fs)\<lparr>dw_script := fs2\<rparr> = wat w gid sg fs2"
  "(wat w gid sg fs)\<lparr>dw_group := ((dw_group w)(gid := sg))(gid := sg2)\<rparr> = wat w gid sg2 fs"
  by (simp_all add: wat_def)

lemma wat_id: "wat w gid (dw_group w gid) (dw_script w) = w"
  by (simp add: wat_def)

text \<open>The addresses of a group: replicas of it, and one of them leads.\<close>

definition replicas :: "dkv_world \<Rightarrow> int \<Rightarrow> string list \<Rightarrow> bool" where
  "replicas w gid servers \<longleftrightarrow>
     (\<forall>addr\<in>set servers. addr \<noteq> dw_kvaddr w \<and> (\<exists>l. dw_member w addr = Some (gid, l)))"

definition leads :: "dkv_world \<Rightarrow> int \<Rightarrow> string \<Rightarrow> bool" where
  "leads w gid addr \<longleftrightarrow> dw_member w addr = Some (gid, True)"

text \<open>
  An operation that can be repeated: \<open>sg\<close> is the state before, \<open>sg'\<close> the state after, and a second
  execution changes nothing and gives the same reply \<open>rep\<close>. \<open>wl\<close> is a follower's reply.
\<close>

definition repeatable ::
  "payload \<Rightarrow> (result \<Rightarrow> 'r option) \<Rightarrow> ('r \<Rightarrow> Err) \<Rightarrow> ShardGroup \<Rightarrow> ShardGroup \<Rightarrow> 'r \<Rightarrow> bool" where
  "repeatable op sel err sg sg' r \<longleftrightarrow> err r \<noteq> ErrWrongLeader \<and>
     (\<exists>rep. sel rep = Some r \<and> ShardGroup_DoOp op sg = Some (rep, sg') \<and>
        ShardGroup_DoOp op sg' = Some (rep, sg') \<and> groupRPC (Some (\<lambda>_. Inr rep)) op = Some rep) \<and>
     (\<exists>wl r0. groupRPC (Some (\<lambda>_. Inl ''rsm: not leader'')) op = Some wl \<and> sel wl = Some r0 \<and>
        err r0 = ErrWrongLeader)"

lemma one_call:
  assumes "repeatable op sel err sg sg' r" and "addr \<noteq> dw_kvaddr w" and "dw_member w addr = Some (gid, l)"
    and "x \<in> {sg, sg'}"
  obtains (lost) y fs' where "dkv_call addr meth op (wat w gid x fs) = (None, wat w gid y fs')"
      "y \<in> {sg, sg'}" "length fs' < length fs"
  | (follower) rep r0 fs' where "dkv_call addr meth op (wat w gid x fs) = (Some rep, wat w gid x fs')"
      "sel rep = Some r0" "err r0 = ErrWrongLeader" "\<not> l" "fs = [] \<and> fs' = [] \<or> length fs' < length fs"
  | (leader) rep fs' where "dkv_call addr meth op (wat w gid x fs) = (Some rep, wat w gid sg' fs')"
      "sel rep = Some r" "err r \<noteq> ErrWrongLeader" "l"
proof -
  from assms(1) obtain rep wl r0 where op: "err r \<noteq> ErrWrongLeader" "sel rep = Some r"
    "ShardGroup_DoOp op sg = Some (rep, sg')" "ShardGroup_DoOp op sg' = Some (rep, sg')"
    "groupRPC (Some (\<lambda>_. Inr rep)) op = Some rep"
    "groupRPC (Some (\<lambda>_. Inl ''rsm: not leader'')) op = Some wl" "sel wl = Some r0" "err r0 = ErrWrongLeader"
    unfolding repeatable_def by blast
  have ex: "dkv_exec addr op (wat w gid x gs) =
      (if l then (Some rep, wat w gid sg' gs) else (Some wl, wat w gid x gs))" for gs
    using assms(2-4) op by (auto simp: dkv_exec_def)
  show ?thesis
  proof (cases fs)
    case Nil
    then have "dkv_call addr meth op (wat w gid x fs) = dkv_exec addr op (wat w gid x [])"
      by (simp add: dkv_call_def)
    with ex [of "[]"] op Nil follower [of wl "[]" r0] leader [of rep "[]"] show ?thesis by (cases l) auto
  next
    case (Cons f gs)
    then have c: "dkv_call addr meth op (wat w gid x fs) = (case f of RequestLost \<Rightarrow> (None, wat w gid x gs)
       | ReplyLost \<Rightarrow> (None, snd (dkv_exec addr op (wat w gid x gs))) | Delivered \<Rightarrow> dkv_exec addr op (wat w gid x gs))"
      by (simp add: dkv_call_def Let_def)
    have len: "length gs < length fs" using Cons by simp
    show ?thesis
    proof (cases f)
      case RequestLost
      with c lost [of x gs] assms(4) len show ?thesis by simp
    next
      case ReplyLost
      with c ex [of gs] lost [of x gs] lost [of sg' gs] assms(4) len show ?thesis by (cases l) auto
    next
      case Delivered
      with c ex [of gs] op len follower [of wl gs r0] leader [of rep gs] show ?thesis by (cases l) auto
    qed
  qed
qed

lemma tryServers_world:
  assumes op: "repeatable op sel err sg sg' r" and "replicas w gid servers" and "x \<in> {sg, sg'}"
  shows "(\<exists>fs'. tryServers dkv_call meth op sel err servers (wat w gid x fs) = (Some r, wat w gid sg' fs')) \<or>
    (\<exists>y fs'. tryServers dkv_call meth op sel err servers (wat w gid x fs) = (None, wat w gid y fs') \<and>
       y \<in> {sg, sg'} \<and> (length fs' < length fs \<or> fs' = fs \<and> (servers = [] \<or> \<not> (\<exists>a\<in>set servers. leads w gid a))))"
  using assms(2,3)
proof (induction servers arbitrary: x fs)
  case Nil
  then show ?case by (intro disjI2 exI [where x = x] exI [where x = fs]) simp
next
  case (Cons a servers)
  from Cons.prems(1) obtain l where a: "a \<noteq> dw_kvaddr w" "dw_member w a = Some (gid, l)"
    and rest: "replicas w gid servers" by (auto simp: replicas_def)
  from op a Cons.prems(2) show ?case
  proof (cases rule: one_call [where meth = meth and fs = fs])
    case (lost y fs')
    with Cons.IH [OF rest lost(2), of fs'] show ?thesis by fastforce
  next
    case (follower rep r0 fs')
    have "tryServers dkv_call meth op sel err (a # servers) (wat w gid x fs) =
        tryServers dkv_call meth op sel err servers (wat w gid x fs')"
      using follower by simp
    moreover have "\<not> leads w gid a" using a follower(4) by (simp add: leads_def)
    ultimately show ?thesis using Cons.IH [OF rest Cons.prems(2), of fs'] follower(5) by fastforce
  next
    case (leader rep fs')
    then show ?thesis by (intro disjI1 exI [where x = fs']) simp
  qed
qed

lemma callGroup_world:
  assumes op: "repeatable op sel err sg sg' r" and rp: "replicas w gid servers"
    and ld: "\<exists>a\<in>set servers. leads w gid a" and "x \<in> {sg, sg'}"
  shows "\<exists>fs'. callGroup dkv_call meth op sel err servers (wat w gid x fs) = Some (r, wat w gid sg' fs')"
  using assms(4)
proof (induction fs arbitrary: x rule: length_induct)
  case (1 fs)
  from tryServers_world [OF op rp 1(2), of meth fs] show ?case
  proof
    assume "\<exists>fs'. tryServers dkv_call meth op sel err servers (wat w gid x fs) = (Some r, wat w gid sg' fs')"
    then show ?thesis by (subst callGroup.simps) auto
  next
    assume "\<exists>y fs'. tryServers dkv_call meth op sel err servers (wat w gid x fs) = (None, wat w gid y fs') \<and>
       y \<in> {sg, sg'} \<and> (length fs' < length fs \<or> fs' = fs \<and> (servers = [] \<or> \<not> (\<exists>a\<in>set servers. leads w gid a)))"
    then obtain y fs' where t: "tryServers dkv_call meth op sel err servers (wat w gid x fs) = (None, wat w gid y fs')"
      "y \<in> {sg, sg'}" "length fs' < length fs" using ld by auto
    with 1(1) have "\<exists>fs''. callGroup dkv_call meth op sel err servers (wat w gid y fs') = Some (r, wat w gid sg' fs'')"
      by blast
    with t(1) show ?thesis by (subst callGroup.simps) simp
  qed
qed

end
