(* ===== verification/ShardMigration.thy ===== *)
theory ShardMigration
  imports ShardWorld
begin

section \<open>A configuration change moves the data\<close>

text \<open>
  \<open>ChangeConfigTo\<close> over the lossy deployment of \<open>ShardWorld\<close>: whatever calls are lost, it returns,
  every shard that changes hands is at its new group with the data its old group had, the old
  group holds nothing of it, the configuration is published and the lock is free again. The
  migration operations can be repeated (a retry of a call whose reply was lost changes nothing),
  which is what makes the retries of the clerk harmless here; \<open>Spec2Isabelle\<close> shows what breaks when
  other clients write in between.
\<close>

lemma withShard_again [simp]:
  "withShard s m2 o2 f2 n2 (withShard s m ow f num sg) = withShard s m2 o2 f2 n2 sg"
  by (simp add: withShard_def)

lemma freeze_repeatable:
  assumes "wf_group sg" and "valid_shard s" and "numOf sg s \<le> N"
  shows "repeatable (FreezeOp \<lparr>fa_Shard = s, fa_ConfigNum = N\<rparr>)
    (\<lambda>rep. case rep of FreezeRep r \<Rightarrow> Some r | _ \<Rightarrow> None) fr_Err
    sg (withShard s (mapOf sg s) False True N sg) \<lparr>fr_Err = OK, fr_Data = mapOf sg s\<rparr>"
  using assms withShard_wf [OF assms(1,2), of True False] withShard_at [OF assms(1,2,2)]
  by (simp add: repeatable_def ShardGroup_DoOp_def doFreeze_eq Let_def groupRPC_def ShardGroup_FreezeShard_def)

lemma install_repeatable:
  assumes "wf_group sg" and "valid_shard s" and "numOf sg s \<le> N"
  shows "repeatable (InstallOp \<lparr>ia_Shard = s, ia_ConfigNum = N, ia_Data = d\<rparr>)
    (\<lambda>rep. case rep of InstallRep r \<Rightarrow> Some r | _ \<Rightarrow> None) ir_Err
    sg (withShard s d True False N sg) \<lparr>ir_Err = OK\<rparr>"
  using assms withShard_wf [OF assms(1,2), of False True] withShard_at [OF assms(1,2,2)]
  by (simp add: repeatable_def ShardGroup_DoOp_def doInstall_eq Let_def groupRPC_def ShardGroup_InstallShard_def)

lemma delete_repeatable:
  assumes "wf_group sg" and "valid_shard s" and "numOf sg s \<le> N"
  shows "repeatable (DeleteOp \<lparr>da_Shard = s, da_ConfigNum = N\<rparr>)
    (\<lambda>rep. case rep of DeleteRep r \<Rightarrow> Some r | _ \<Rightarrow> None) dr_Err
    sg (withShard s Map.empty False False N sg) \<lparr>dr_Err = OK\<rparr>"
  using assms withShard_wf [OF assms(1,2), of False False] withShard_at [OF assms(1,2,2)]
  by (simp add: repeatable_def ShardGroup_DoOp_def doDelete_eq Let_def groupRPC_def ShardGroup_DeleteShard_def)

subsection \<open>One shard\<close>

definition inWorld :: "dkv_world \<Rightarrow> (int \<Rightarrow> ShardGroup) \<Rightarrow> fate list \<Rightarrow> dkv_world" where
  "inWorld w G fs = w\<lparr>dw_group := G, dw_script := fs\<rparr>"

lemma inWorld_simps [simp]:
  "dw_kvaddr (inWorld w G fs) = dw_kvaddr w" "dw_kv (inWorld w G fs) = dw_kv w"
  "dw_member (inWorld w G fs) = dw_member w" "dw_script (inWorld w G fs) = fs"
  "dw_group (inWorld w G fs) = G" "inWorld (inWorld w G fs) G2 fs2 = inWorld w G2 fs2"
  "replicas (inWorld w G fs) = replicas w" "leads (inWorld w G fs) = leads w"
  by (simp_all add: inWorld_def replicas_def leads_def fun_eq_iff)

lemma wat_inWorld: "wat (inWorld w G fs) gid sg fs2 = inWorld w (G(gid := sg)) fs2"
  by (simp add: wat_def inWorld_def)

lemma callGroup_inWorld:
  assumes "repeatable op sel err (G gid) sg' r" and "replicas w gid servers"
    and "\<exists>a\<in>set servers. leads w gid a"
  obtains fs' where
    "callGroup dkv_call meth op sel err servers (inWorld w G fs) = Some (r, inWorld w (G(gid := sg')) fs')"
proof -
  have id: "wat (inWorld w G fs) gid (G gid) fs = inWorld w G fs" by (simp add: wat_inWorld)
  have "\<exists>fs'. callGroup dkv_call meth op sel err servers (wat (inWorld w G fs) gid (G gid) fs) =
      Some (r, wat (inWorld w G fs) gid sg' fs')"
    by (rule callGroup_world [OF assms(1)]) (use assms(2,3) in simp_all)
  then obtain fs' where "callGroup dkv_call meth op sel err servers (inWorld w G fs) =
      Some (r, inWorld w (G(gid := sg')) fs')" unfolding id by (auto simp: wat_inWorld)
  then show thesis by (rule that)
qed

text \<open>What the round of the loop for shard \<open>s\<close> does to the groups.\<close>

definition moveGroups :: "int \<Rightarrow> int \<Rightarrow> int \<Rightarrow> int \<Rightarrow> (int \<Rightarrow> ShardGroup) \<Rightarrow> (int \<Rightarrow> ShardGroup)" where
  "moveGroups N s src dst G =
     (if src = dst then G
      else if src = 0 then G(dst := withShard s Map.empty True False N (G dst))
      else G(src := withShard s Map.empty False False N (G src),
             dst := withShard s (mapOf (G src) s) True False N (G dst)))"

definition groups_ok :: "int \<Rightarrow> (int \<Rightarrow> ShardGroup) \<Rightarrow> bool" where
  "groups_ok N G \<longleftrightarrow> (\<forall>g. wf_group (G g) \<and> (\<forall>s. valid_shard s \<longrightarrow> numOf (G g) s \<le> N))"

lemma groups_okD: "groups_ok N G \<Longrightarrow> wf_group (G g)"
  "groups_ok N G \<Longrightarrow> valid_shard s \<Longrightarrow> numOf (G g) s \<le> N"
  by (simp_all add: groups_ok_def)

lemma groups_ok_upd:
  assumes "groups_ok N G" and "valid_shard s" and "fz \<longrightarrow> \<not> ow"
  shows "groups_ok N (G(g := withShard s m ow fz N (G g)))"
  using assms withShard_wf [of "G g" s fz ow m N] withShard_at(4) [of "G g" s _ m ow fz N]
  by (simp add: groups_ok_def)

lemma moveGroups_ok:
  assumes "groups_ok N G" and "valid_shard s"
  shows "groups_ok N (moveGroups N s src dst G)"
proof -
  have "groups_ok N (G(src := withShard s Map.empty False False N (G src)))"
    using groups_ok_upd [OF assms, of False False] by simp
  from groups_ok_upd [OF this assms(2), of False True dst]
  have "src \<noteq> dst \<Longrightarrow> groups_ok N (G(src := withShard s Map.empty False False N (G src),
      dst := withShard s (mapOf (G src) s) True False N (G dst)))" by simp
  with assms groups_ok_upd [OF assms, of False True] show ?thesis by (simp add: moveGroups_def)
qed

text \<open>The addresses of the groups that a shard leaves and joins are those of live replicas.\<close>

definition reachable_gid :: "dkv_world \<Rightarrow> (int, string list) fmap \<Rightarrow> int \<Rightarrow> bool" where
  "reachable_gid w groups gid \<longleftrightarrow> replicas w gid (serversOf groups gid) \<and>
     (\<exists>a\<in>set (serversOf groups gid). leads w gid a)"

definition movable :: "dkv_world \<Rightarrow> ShardConfig \<Rightarrow> ShardConfig \<Rightarrow> int \<Rightarrow> int \<Rightarrow> bool" where
  "movable w current target src dst \<longleftrightarrow> src \<noteq> dst \<longrightarrow>
     (src \<noteq> 0 \<longrightarrow> reachable_gid w (sc_Groups current) src) \<and> reachable_gid w (sc_Groups target) dst"

lemma reachable_gid_inWorld [simp]: "reachable_gid (inWorld w G fs) = reachable_gid w"
  by (simp add: reachable_gid_def fun_eq_iff)

lemma moveShard_world:
  assumes mv: "movable w current target src dst" and ok: "groups_ok (sc_Num target) G" and s: "valid_shard s"
  shows "\<exists>fs'. moveShard dkv_call current target s src dst (inWorld w G fs) =
    Some (None, inWorld w (moveGroups (sc_Num target) s src dst G) fs')"
proof (cases "src = dst")
  case True
  then show ?thesis by (intro exI [where x = fs]) (simp add: moveShard_def moveGroups_def)
next
  case ne: False
  let ?N = "sc_Num target"
  note wf = groups_okD(1) [OF ok] and num = groups_okD(2) [OF ok s]
  have dst: "replicas w dst (serversOf (sc_Groups target) dst)"
    "\<exists>a\<in>set (serversOf (sc_Groups target) dst). leads w dst a"
    using mv ne by (auto simp: movable_def reachable_gid_def)
  show ?thesis
  proof (cases "src = 0")
    case True
    obtain fs' where "ShardClerk_InstallShard dkv_call (serversOf (sc_Groups target) dst)
        \<lparr>ia_Shard = s, ia_ConfigNum = ?N, ia_Data = Map.empty\<rparr> (inWorld w G fs) =
        Some (\<lparr>ir_Err = OK\<rparr>, inWorld w (G(dst := withShard s Map.empty True False ?N (G dst))) fs')"
      unfolding ShardClerk_defs by (rule callGroup_inWorld [where gid = dst and G = G, OF install_repeatable [OF wf s num] dst])
    with ne True show ?thesis
      by (intro exI [where x = fs']) (simp add: moveShard_def moveGroups_def)
  next
    case False
    have src: "replicas w src (serversOf (sc_Groups current) src)"
      "\<exists>a\<in>set (serversOf (sc_Groups current) src). leads w src a"
      using mv ne False by (auto simp: movable_def reachable_gid_def)
    let ?m = "mapOf (G src) s"
    let ?G1 = "G(src := withShard s ?m False True ?N (G src))"
    obtain f1 where freeze: "ShardClerk_FreezeShard dkv_call (serversOf (sc_Groups current) src)
        \<lparr>fa_Shard = s, fa_ConfigNum = ?N\<rparr> (inWorld w G fs) =
        Some (\<lparr>fr_Err = OK, fr_Data = ?m\<rparr>, inWorld w ?G1 f1)"
      unfolding ShardClerk_defs by (rule callGroup_inWorld [where gid = src and G = G, OF freeze_repeatable [OF wf s num] src])
    have ok1: "groups_ok ?N ?G1" using groups_ok_upd [OF ok s, of True False] by simp
    let ?G2 = "?G1(dst := withShard s ?m True False ?N (?G1 dst))"
    obtain f2 where install: "ShardClerk_InstallShard dkv_call (serversOf (sc_Groups target) dst)
        \<lparr>ia_Shard = s, ia_ConfigNum = ?N, ia_Data = ?m\<rparr> (inWorld w ?G1 f1) =
        Some (\<lparr>ir_Err = OK\<rparr>, inWorld w ?G2 f2)"
      unfolding ShardClerk_defs
      by (rule callGroup_inWorld [where gid = dst and G = ?G1, OF install_repeatable [OF groups_okD(1) [OF ok1] s groups_okD(2) [OF ok1 s]] dst])
    have ok2: "groups_ok ?N ?G2" using groups_ok_upd [OF ok1 s, of False True] by simp
    let ?G3 = "?G2(src := withShard s Map.empty False False ?N (?G2 src))"
    obtain f3 where delete: "ShardClerk_DeleteShard dkv_call (serversOf (sc_Groups current) src)
        \<lparr>da_Shard = s, da_ConfigNum = ?N\<rparr> (inWorld w ?G2 f2) =
        Some (\<lparr>dr_Err = OK\<rparr>, inWorld w ?G3 f3)"
      unfolding ShardClerk_defs
      by (rule callGroup_inWorld [where gid = src and G = ?G2, OF delete_repeatable [OF groups_okD(1) [OF ok2] s groups_okD(2) [OF ok2 s]] src])
    have "?G3 = moveGroups ?N s src dst G"
      using ne False by (simp add: moveGroups_def fun_eq_iff)
    with freeze install delete ne False show ?thesis
      by (intro exI [where x = f3]) (simp add: moveShard_def Let_def)
  qed
qed

subsection \<open>All shards\<close>

fun moveAll :: "int \<Rightarrow> (int \<times> int \<times> int) list \<Rightarrow> (int \<Rightarrow> ShardGroup) \<Rightarrow> (int \<Rightarrow> ShardGroup)" where
  "moveAll N [] G = G"
| "moveAll N ((s, src, dst) # ms) G = moveAll N ms (moveGroups N s src dst G)"

lemma moveShards_world:
  assumes "\<forall>(s, src, dst)\<in>set ms. valid_shard s \<and> movable w current target src dst"
    and "groups_ok (sc_Num target) G"
  shows "\<exists>fs'. moveShards dkv_call current target ms (inWorld w G fs) =
    Some (None, inWorld w (moveAll (sc_Num target) ms G) fs')"
  using assms
proof (induction ms arbitrary: G fs)
  case (Cons m ms)
  obtain s src dst where m: "m = (s, src, dst)" by (cases m)
  with Cons.prems(1) have s: "valid_shard s" "movable w current target src dst" by auto
  from moveShard_world [OF s(2) Cons.prems(2) s(1), of fs] obtain f1 where
    "moveShard dkv_call current target s src dst (inWorld w G fs) =
      Some (None, inWorld w (moveGroups (sc_Num target) s src dst G) f1)" by blast
  with Cons.IH [of "moveGroups (sc_Num target) s src dst G" f1] Cons.prems moveGroups_ok [OF Cons.prems(2) s(1)]
  show ?case by (simp add: m)
next
  case Nil
  show ?case by (intro exI [where x = fs]) simp
qed

lemma moveGroups_other:
  assumes "groups_ok N G" and "valid_shard s" and "valid_shard t" and "t \<noteq> s"
  shows "mapOf (moveGroups N s src dst G g) t = mapOf (G g) t"
    and "ownedOf (moveGroups N s src dst G g) t = ownedOf (G g) t"
  using assms withShard_at(1,2) [OF groups_okD(1) [OF assms(1)] assms(2,3)]
  by (simp_all add: moveGroups_def)

lemma moveGroups_self:
  assumes "groups_ok N G" and "valid_shard s" and "src \<noteq> dst"
  shows "mapOf (moveGroups N s src dst G dst) s = (if src = 0 then Map.empty else mapOf (G src) s)"
    and "ownedOf (moveGroups N s src dst G dst) s"
    and "src \<noteq> 0 \<Longrightarrow> mapOf (moveGroups N s src dst G src) s = Map.empty"
    and "src \<noteq> 0 \<Longrightarrow> \<not> ownedOf (moveGroups N s src dst G src) s"
    and "g \<noteq> src \<Longrightarrow> g \<noteq> dst \<Longrightarrow> moveGroups N s src dst G g = G g"
  using assms withShard_at(1,2) [OF groups_okD(1) [OF assms(1)] assms(2,2)]
  by (simp_all add: moveGroups_def)

lemma moveAll_other:
  assumes "groups_ok N G" and "\<forall>(s, src, dst)\<in>set ms. valid_shard s \<and> s \<noteq> t" and "valid_shard t"
  shows "mapOf (moveAll N ms G g) t = mapOf (G g) t \<and> ownedOf (moveAll N ms G g) t = ownedOf (G g) t"
  using assms(1,2)
proof (induction ms arbitrary: G)
  case (Cons m ms)
  obtain s src dst where m: "m = (s, src, dst)" by (cases m)
  with Cons.prems have s: "valid_shard s" "t \<noteq> s" by auto
  have "groups_ok N (moveGroups N s src dst G)" using Cons.prems(1) s(1) by (rule moveGroups_ok)
  with Cons.IH [of "moveGroups N s src dst G"] Cons.prems moveGroups_other [OF Cons.prems(1) s(1) assms(3) s(2)]
  show ?case by (simp add: m)
qed simp

lemma moveAll_moves:
  assumes "groups_ok N G" and "(s, src, dst) \<in> set ms" and "distinct (map fst ms)" and "src \<noteq> dst"
    and "\<forall>(s, src, dst)\<in>set ms. valid_shard s"
  shows "mapOf (moveAll N ms G dst) s = (if src = 0 then Map.empty else mapOf (G src) s)"
    and "ownedOf (moveAll N ms G dst) s"
    and "src \<noteq> 0 \<Longrightarrow> mapOf (moveAll N ms G src) s = Map.empty"
    and "src \<noteq> 0 \<Longrightarrow> \<not> ownedOf (moveAll N ms G src) s"
proof -
  have "mapOf (moveAll N ms G dst) s = (if src = 0 then Map.empty else mapOf (G src) s) \<and>
    ownedOf (moveAll N ms G dst) s \<and>
    (src \<noteq> 0 \<longrightarrow> mapOf (moveAll N ms G src) s = Map.empty \<and> \<not> ownedOf (moveAll N ms G src) s)"
    using assms(1,2,3,5)
  proof (induction ms arbitrary: G)
    case (Cons m ms)
    obtain t a b where m: "m = (t, a, b)" by (cases m)
    with Cons.prems have t: "valid_shard t" by auto
    have ok: "groups_ok N (moveGroups N t a b G)" using Cons.prems(1) t by (rule moveGroups_ok)
    show ?case
    proof (cases "m = (s, src, dst)")
      case True
      with m have "t = s" "a = src" "b = dst" by auto
      moreover have "\<forall>(s', src, dst)\<in>set ms. valid_shard s' \<and> s' \<noteq> s"
        using Cons.prems(3,4) m \<open>t = s\<close> by force
      ultimately show ?thesis
        using moveAll_other [OF ok, of ms s] t moveGroups_self [OF Cons.prems(1), of s src dst] assms(4)
        by (simp add: m)
    next
      case False
      with Cons.prems(2) have mem: "(s, src, dst) \<in> set ms" by simp
      then have "s \<noteq> t" using Cons.prems(3) m by force
      moreover have "valid_shard s" using Cons.prems(4) mem by auto
      ultimately show ?thesis
        using Cons.IH [OF ok mem] Cons.prems(3,4) moveGroups_other [OF Cons.prems(1) t, of s a b]
        by (simp add: m)
    qed
  qed simp
  then show "mapOf (moveAll N ms G dst) s = (if src = 0 then Map.empty else mapOf (G src) s)"
    "ownedOf (moveAll N ms G dst) s" "src \<noteq> 0 \<Longrightarrow> mapOf (moveAll N ms G src) s = Map.empty"
    "src \<noteq> 0 \<Longrightarrow> \<not> ownedOf (moveAll N ms G src) s"
    by auto
qed

subsection \<open>The lock around it\<close>

text \<open>The world with another store and script.\<close>

definition withStore :: "dkv_world \<Rightarrow> kvmap \<Rightarrow> fate list \<Rightarrow> dkv_world" where
  "withStore w m fs = w\<lparr>dw_kv := \<lparr>store = m\<rparr>, dw_script := fs\<rparr>"

lemma withStore_simps [simp]:
  "dw_kvaddr (withStore w m fs) = dw_kvaddr w" "dw_kv (withStore w m fs) = \<lparr>store = m\<rparr>"
  "dw_script (withStore w m fs) = fs" "dw_group (withStore w m fs) = dw_group w"
  "dw_member (withStore w m fs) = dw_member w"
  "withStore (withStore w m fs) m2 fs2 = withStore w m2 fs2"
  "(withStore w m fs)\<lparr>dw_script := fs2\<rparr> = withStore w m fs2"
  "(withStore w m fs)\<lparr>dw_kv := \<lparr>store = m2\<rparr>, dw_script := fs2\<rparr> = withStore w m2 fs2"
  by (simp_all add: withStore_def)

lemma withStore_id: "withStore w (store (dw_kv w)) (dw_script w) = w"
  by (cases "dw_kv w") (simp add: withStore_def)

lemma Get_store:
  obtains fs' where "KVClerk_Get dkv_call (dw_kvaddr w) key (withStore w m fs) =
    (let r = get_view key m in Some ((gr_Value r, gr_Version r, gr_Err r), withStore w m fs'))"
  using KVClerk_Get_world [of "withStore w m fs" key] by (auto simp: KVServer_Get_view Let_def)

lemma Put_store:
  assumes "fst (put_view \<lparr>pa_Key = k, pa_Value = v, pa_Version = n\<rparr> m) = OK"
  shows "\<exists>fs' e. e \<in> {OK, ErrMaybe} \<and> KVClerk_Put dkv_call (dw_kvaddr w) k v n (withStore w m fs) =
    Some (e, withStore w (snd (put_view \<lparr>pa_Key = k, pa_Value = v, pa_Version = n\<rparr> m)) fs')"
  using PutLoop_world [of "\<lparr>pa_Key = k, pa_Value = v, pa_Version = n\<rparr>" "withStore w m fs" False] assms
  by (auto simp: KVClerk_Put_def)

text \<open>The lock can be taken: it was never created, or it is free and its version has room.\<close>

definition lock_free :: "string \<Rightarrow> kvmap \<Rightarrow> bool" where
  "lock_free k m \<longleftrightarrow> (case m k of None \<Rightarrow> True
     | Some x \<Rightarrow> vv_Value x = [] \<and> vv_Version x \<noteq> 0 \<and> vv_Version x + 1 \<noteq> 0)"

lemma Acquire_world:
  assumes "lock_free (lk_lockName l) m" and "lk_clientID l \<noteq> []"
  shows "\<exists>fs' x. Lock_Acquire dkv_call (dw_kvaddr w) l (withStore w m fs) =
      Some (withStore w (m(lk_lockName l \<mapsto> x)) fs') \<and> vv_Value x = lk_clientID l \<and> vv_Version x \<noteq> 0"
proof -
  let ?k = "lk_lockName l" and ?id = "lk_clientID l"
  let ?ver = "case m ?k of None \<Rightarrow> 0 | Some x \<Rightarrow> vv_Version x"
  let ?x = "\<lparr>vv_Value = ?id, vv_Version = ?ver + 1\<rparr>"
  let ?a = "\<lparr>pa_Key = ?k, pa_Value = ?id, pa_Version = ?ver\<rparr>"
  have put: "put_view ?a m = (OK, m(?k \<mapsto> ?x))"
    using assms(1) by (auto simp: put_view_def lock_free_def split: option.splits)
  have x0: "?ver + 1 \<noteq> 0" using assms(1) by (auto simp: lock_free_def split: option.splits)
  obtain f1 where get: "KVClerk_Get dkv_call (dw_kvaddr w) ?k (withStore w m fs) =
      (let r = get_view ?k m in Some ((gr_Value r, gr_Version r, gr_Err r), withStore w m f1))"
    by (rule Get_store)
  have dec: "acquireDecide ?id (let r = get_view ?k m in (gr_Value r, gr_Version r, gr_Err r)) = TryPut ?ver"
    using assms by (auto simp: get_view_def lock_free_def Let_def split: option.splits)
  obtain f2 e where p: "e \<in> {OK, ErrMaybe}"
    "KVClerk_Put dkv_call (dw_kvaddr w) ?k ?id ?ver (withStore w m f1) = Some (e, withStore w (m(?k \<mapsto> ?x)) f2)"
    using Put_store [of ?k ?id ?ver m w f1] put by auto
  obtain f3 where get2: "KVClerk_Get dkv_call (dw_kvaddr w) ?k (withStore w (m(?k \<mapsto> ?x)) f2) =
      (let r = get_view ?k (m(?k \<mapsto> ?x)) in
        Some ((gr_Value r, gr_Version r, gr_Err r), withStore w (m(?k \<mapsto> ?x)) f3))"
    by (rule Get_store)
  have "Lock_Acquire dkv_call (dw_kvaddr w) l (withStore w m fs) = Some (withStore w (m(?k \<mapsto> ?x)) f3)"
    using get dec p get2 by (subst Lock_Acquire.simps) (auto simp: Let_def putHappened_def get_view_def)
  with x0 show ?thesis by (intro exI [where x = f3] exI [where x = ?x]) simp
qed

lemma Release_world:
  assumes "m (lk_lockName l) = Some x" and "vv_Value x = lk_clientID l" and "vv_Version x \<noteq> 0"
  shows "\<exists>fs'. Lock_Release dkv_call (dw_kvaddr w) l (withStore w m fs) = Some (withStore w
      (m(lk_lockName l \<mapsto> \<lparr>vv_Value = [], vv_Version = vv_Version x + 1\<rparr>)) fs')"
proof -
  let ?k = "lk_lockName l" and ?id = "lk_clientID l"
  let ?x = "\<lparr>vv_Value = [], vv_Version = vv_Version x + 1\<rparr>"
  let ?a = "\<lparr>pa_Key = ?k, pa_Value = [], pa_Version = vv_Version x\<rparr>"
  have put: "put_view ?a m = (OK, m(?k \<mapsto> ?x))" using assms by (simp add: put_view_def)
  obtain f1 where get: "KVClerk_Get dkv_call (dw_kvaddr w) ?k (withStore w m fs) =
      (let r = get_view ?k m in Some ((gr_Value r, gr_Version r, gr_Err r), withStore w m f1))"
    by (rule Get_store)
  obtain f2 e where p: "e \<in> {OK, ErrMaybe}"
    "KVClerk_Put dkv_call (dw_kvaddr w) ?k [] (vv_Version x) (withStore w m f1) = Some (e, withStore w (m(?k \<mapsto> ?x)) f2)"
    using Put_store [of ?k "[]" "vv_Version x" m w f1] put by auto
  obtain f3 where get2: "KVClerk_Get dkv_call (dw_kvaddr w) ?k (withStore w (m(?k \<mapsto> ?x)) f2) =
      (let r = get_view ?k (m(?k \<mapsto> ?x)) in
        Some ((gr_Value r, gr_Version r, gr_Err r), withStore w (m(?k \<mapsto> ?x)) f3))"
    by (rule Get_store)
  have "Lock_Release dkv_call (dw_kvaddr w) l (withStore w m fs) = Some (withStore w (m(?k \<mapsto> ?x)) f3)"
    using get p get2 assms by (subst Lock_Release.simps) (auto simp: Let_def putHappened_def get_view_def)
  then show ?thesis ..
qed

text \<open>A method that runs under the lock leaves it free, and has the effect of its body.\<close>

lemma lock_brackets:
  assumes free: "lock_free ''config_lock'' m" and rnd: "rnd \<noteq> []" and ctl: "ctl_kvsrv ctl = dw_kvaddr w"
    and body: "\<And>x f1. \<exists>err w1 m1 f2. body (withStore w (m(''config_lock'' \<mapsto> x)) f1) =
        Some (err, withStore w1 (m1(''config_lock'' \<mapsto> x)) f2) \<and> dw_kvaddr w1 = dw_kvaddr w \<and> P err w1 m1"
  shows "\<exists>err w1 m1 u f3. withConfigLock dkv_call ctl rnd body (withStore w m fs) = Some (err,
      withStore w1 (m1(''config_lock'' \<mapsto> \<lparr>vv_Value = [], vv_Version = u\<rparr>)) f3) \<and> dw_kvaddr w1 = dw_kvaddr w \<and> P err w1 m1"
proof -
  let ?l = "NewLock rnd ''config_lock''"
  have l: "lk_lockName ?l = ''config_lock''" "lk_clientID ?l \<noteq> []"
    using rnd by (cases rnd; simp add: NewLock_def)+
  obtain f1 x where acq: "Lock_Acquire dkv_call (dw_kvaddr w) ?l (withStore w m fs) =
      Some (withStore w (m(''config_lock'' \<mapsto> x)) f1)" "vv_Value x = lk_clientID ?l" "vv_Version x \<noteq> 0"
    using Acquire_world [of ?l m w fs] free l by auto
  obtain err w1 m1 f2 where b: "body (withStore w (m(''config_lock'' \<mapsto> x)) f1) =
        Some (err, withStore w1 (m1(''config_lock'' \<mapsto> x)) f2)" "dw_kvaddr w1 = dw_kvaddr w" "P err w1 m1"
    using body [of x f1] by blast
  obtain f3 where rel: "Lock_Release dkv_call (dw_kvaddr w1) ?l (withStore w1 (m1(''config_lock'' \<mapsto> x)) f2) =
      Some (withStore w1 (m1(''config_lock'' \<mapsto> \<lparr>vv_Value = [], vv_Version = vv_Version x + 1\<rparr>)) f3)"
    using Release_world [of "m1(''config_lock'' \<mapsto> x)" ?l x w1 f2] acq(2,3) l by auto
  have "withConfigLock dkv_call ctl rnd body (withStore w m fs) = Some (err,
      withStore w1 (m1(''config_lock'' \<mapsto> \<lparr>vv_Value = [], vv_Version = vv_Version x + 1\<rparr>)) f3)"
    using acq(1) b rel ctl by (simp add: withConfigLock_def Let_def)
  with b(2,3) show ?thesis by blast
qed

subsection \<open>ChangeConfigTo\<close>

definition moves :: "ShardConfig \<Rightarrow> ShardConfig \<Rightarrow> (int \<times> int \<times> int) list" where
  "moves current target = zip shardIndexes (zip (sc_Shards current) (sc_Shards target))"

definition wf_config :: "ShardConfig \<Rightarrow> bool" where
  "wf_config c \<longleftrightarrow> length (sc_Shards c) = NShards \<and> (\<forall>k |\<in>| fmdom (sc_Groups c). int64 k)"

lemma moves_valid:
  assumes "wf_config current" and "wf_config target"
    and "\<forall>i<NShards. movable w current target (sc_Shards current ! i) (sc_Shards target ! i)"
  shows "\<forall>(s, src, dst)\<in>set (moves current target). valid_shard s \<and> movable w current target src dst"
  using assms by (auto simp: moves_def wf_config_def in_set_conv_nth valid_shard_def)

lemma moves_distinct:
  assumes "wf_config current" and "wf_config target"
  shows "distinct (map fst (moves current target))"
  using assms by (simp add: moves_def wf_config_def map_fst_zip shardIndexes_def distinct_map inj_on_def)

lemma moves_mem:
  assumes "wf_config current" and "wf_config target" and "i < NShards"
  shows "(int i, sc_Shards current ! i, sc_Shards target ! i) \<in> set (moves current target)"
  using assms unfolding moves_def wf_config_def in_set_conv_nth
  by (intro exI [where x = i]) simp

lemma withStore_inWorld:
  "inWorld (withStore w m fs) G fs2 = withStore (inWorld w G fs) m fs2"
  by (simp add: inWorld_def withStore_def)

definition changed :: "dkv_world \<Rightarrow> ShardConfig \<Rightarrow> ShardConfig \<Rightarrow> version \<Rightarrow> error \<Rightarrow> dkv_world \<Rightarrow> kvmap \<Rightarrow> bool" where
  "changed w current target ver err w1 m1 \<longleftrightarrow>
     err \<in> {None, Some ''failed to publish new config''} \<and>
     dw_group w1 = moveAll (sc_Num target) (moves current target) (dw_group w) \<and>
     m1 ''config'' = Some \<lparr>vv_Value = json_Marshal target, vv_Version = ver + 1\<rparr>"

lemma body_world:
  assumes cfg: "m ''config'' = Some \<lparr>vv_Value = json_Marshal current, vv_Version = ver\<rparr>" "ver \<noteq> 0"
    and wf: "wf_config current" "wf_config target" and num: "sc_Num current < sc_Num target"
    and ok: "groups_ok (sc_Num target) (dw_group w)"
    and mv: "\<forall>i<NShards. movable w current target (sc_Shards current ! i) (sc_Shards target ! i)"
    and ctl: "ctl_kvsrv ctl = dw_kvaddr w"
  shows "\<exists>err w1 m1 f2. changeConfigBody dkv_call ctl target (withStore w (m(''config_lock'' \<mapsto> x)) f1) =
      Some (err, withStore w1 (m1(''config_lock'' \<mapsto> x)) f2) \<and> dw_kvaddr w1 = dw_kvaddr w \<and>
      changed w current target ver err w1 m1"
proof -
  let ?m = "m(''config_lock'' \<mapsto> x)" and ?N = "sc_Num target"
  let ?G = "moveAll ?N (moves current target) (dw_group w)"
  let ?new = "m(''config'' \<mapsto> \<lparr>vv_Value = json_Marshal target, vv_Version = ver + 1\<rparr>)"
  have m: "?m ''config'' = Some \<lparr>vv_Value = json_Marshal current, vv_Version = ver\<rparr>" using cfg(1) by simp
  obtain f3 where get: "KVClerk_Get dkv_call (dw_kvaddr w) ''config'' (withStore w ?m f1) =
      (let r = get_view ''config'' ?m in Some ((gr_Value r, gr_Version r, gr_Err r), withStore w ?m f3))"
    by (rule Get_store)
  have json: "json_Unmarshal (json_Marshal current) = Some current"
    using wf(1) by (intro json_roundtrip) (auto simp: wf_config_def)
  have at: "withStore w ?m f3 = inWorld (withStore w ?m f3) (dw_group w) f3"
    by (simp add: inWorld_def withStore_def)
  have "movable (withStore w ?m f3) = movable w"
    by (simp add: movable_def reachable_gid_def replicas_def leads_def fun_eq_iff)
  then have "\<exists>fs'. moveShards dkv_call current target (moves current target)
      (inWorld (withStore w ?m f3) (dw_group w) f3) = Some (None, inWorld (withStore w ?m f3) ?G fs')"
    using moves_valid [OF wf mv] ok by (intro moveShards_world) simp_all
  then obtain f4 where move: "moveShards dkv_call current target (moves current target) (withStore w ?m f3) =
      Some (None, withStore (inWorld w ?G f3) ?m f4)"
    unfolding at [symmetric] withStore_inWorld by (auto simp: withStore_def inWorld_def)
  have put: "put_view \<lparr>pa_Key = ''config'', pa_Value = json_Marshal target, pa_Version = ver\<rparr> ?m =
      (OK, ?new(''config_lock'' \<mapsto> x))"
    using m cfg(2) by (auto simp: put_view_def fun_upd_twist)
  obtain f5 e where pub: "e \<in> {OK, ErrMaybe}"
    "KVClerk_Put dkv_call (dw_kvaddr w) ''config'' (json_Marshal target) ver (withStore (inWorld w ?G f3) ?m f4) =
      Some (e, withStore (inWorld w ?G f3) (?new(''config_lock'' \<mapsto> x)) f5)"
    using Put_store [of "''config''" "json_Marshal target" ver ?m "inWorld w ?G f3" f4] put by auto
  have "changeConfigBody dkv_call ctl target (withStore w ?m f1) =
      Some (if e \<noteq> OK then Some ''failed to publish new config'' else None,
        withStore (inWorld w ?G f3) (?new(''config_lock'' \<mapsto> x)) f5)"
    using get m json move pub(2) ctl num
    by (simp add: changeConfigBody_def Let_def get_view_def moves_def [symmetric])
  then show ?thesis
    by (intro exI [where x = "if e \<noteq> OK then Some ''failed to publish new config'' else None"]
        exI [where x = "inWorld w ?G f3"] exI [where x = ?new] exI [where x = f5])
      (simp add: changed_def)
qed

text \<open>What a configuration change leaves behind, shard by shard.\<close>

definition handed_over ::
  "ShardConfig \<Rightarrow> ShardConfig \<Rightarrow> (int \<Rightarrow> ShardGroup) \<Rightarrow> (int \<Rightarrow> ShardGroup) \<Rightarrow> nat \<Rightarrow> bool" where
  "handed_over current target G G' i \<longleftrightarrow>
     (let src = sc_Shards current ! i; dst = sc_Shards target ! i; s = int i in
      if src = dst then \<forall>g. mapOf (G' g) s = mapOf (G g) s \<and> ownedOf (G' g) s = ownedOf (G g) s
      else ownedOf (G' dst) s \<and>
        mapOf (G' dst) s = (if src = 0 then Map.empty else mapOf (G src) s) \<and>
        (src \<noteq> 0 \<longrightarrow> \<not> ownedOf (G' src) s \<and> mapOf (G' src) s = Map.empty))"

lemma moveAll_same:
  assumes "groups_ok N G" and "(s, g0, g0) \<in> set ms" and "distinct (map fst ms)"
    and "\<forall>(s, src, dst)\<in>set ms. valid_shard s"
  shows "mapOf (moveAll N ms G g) s = mapOf (G g) s \<and> ownedOf (moveAll N ms G g) s = ownedOf (G g) s"
  using assms
proof (induction ms arbitrary: G)
  case (Cons m ms)
  obtain t a b where m: "m = (t, a, b)" by (cases m)
  with Cons.prems have t: "valid_shard t" by auto
  have ok: "groups_ok N (moveGroups N t a b G)" using Cons.prems(1) t by (rule moveGroups_ok)
  show ?case
  proof (cases "m = (s, g0, g0)")
    case True
    then have "\<forall>(s', src, dst)\<in>set ms. valid_shard s' \<and> s' \<noteq> s"
      using Cons.prems(3,4) by force
    with True Cons.prems(1) t m moveAll_other [OF Cons.prems(1), of ms s g] show ?thesis
      by (simp add: moveGroups_def)
  next
    case False
    with Cons.prems(2) have mem: "(s, g0, g0) \<in> set ms" by simp
    then have "s \<noteq> t" using Cons.prems(3) m by force
    moreover have "valid_shard s" using Cons.prems(4) mem by auto
    ultimately show ?thesis
      using Cons.IH [OF ok mem] Cons.prems(3,4) moveGroups_other [OF Cons.prems(1) t, of s a b]
      by (simp add: m)
  qed
qed simp

lemma moveAll_handed_over:
  assumes "groups_ok N G" and "wf_config current" and "wf_config target" and "i < NShards"
  shows "handed_over current target G (moveAll N (moves current target) G) i"
proof -
  let ?src = "sc_Shards current ! i" and ?dst = "sc_Shards target ! i"
  have mem: "(int i, ?src, ?dst) \<in> set (moves current target)" using assms(2-4) by (rule moves_mem)
  have d: "distinct (map fst (moves current target))" using assms(2,3) by (rule moves_distinct)
  have v: "\<forall>(s, src, dst)\<in>set (moves current target). valid_shard s"
    using assms(2,3) by (auto simp: moves_def wf_config_def in_set_conv_nth valid_shard_def)
  show ?thesis
  proof (cases "?src = ?dst")
    case True
    with mem have "(int i, ?src, ?src) \<in> set (moves current target)" by simp
    from moveAll_same [OF assms(1) this d v] True show ?thesis by (simp add: handed_over_def Let_def)
  next
    case False
    from moveAll_moves [OF assms(1) mem d False v] False show ?thesis by (simp add: handed_over_def Let_def)
  qed
qed

text \<open>All that the theorem on \<open>ChangeConfigTo\<close> asks of the world it starts in.\<close>

definition ready_to_change ::
  "ShardController \<Rightarrow> ShardConfig \<Rightarrow> ShardConfig \<Rightarrow> version \<Rightarrow> dkv_world \<Rightarrow> bool" where
  "ready_to_change ctl current target ver w \<longleftrightarrow>
     ctl_kvsrv ctl = dw_kvaddr w \<and> lock_free ''config_lock'' (store (dw_kv w)) \<and>
     store (dw_kv w) ''config'' = Some \<lparr>vv_Value = json_Marshal current, vv_Version = ver\<rparr> \<and> ver \<noteq> 0 \<and>
     wf_config current \<and> wf_config target \<and> sc_Num current < sc_Num target \<and>
     groups_ok (sc_Num target) (dw_group w) \<and>
     (\<forall>i<NShards. movable w current target (sc_Shards current ! i) (sc_Shards target ! i))"

lemma ChangeConfigTo_world:
  assumes "ready_to_change ctl current target ver w" and "rnd \<noteq> []"
  shows "\<exists>err w'. ChangeConfigTo dkv_call ctl rnd target w = Some (err, w') \<and>
    err \<in> {None, Some ''failed to publish new config''} \<and>
    store (dw_kv w') ''config'' = Some \<lparr>vv_Value = json_Marshal target, vv_Version = ver + 1\<rparr> \<and>
    (\<exists>u. store (dw_kv w') ''config_lock'' = Some \<lparr>vv_Value = [], vv_Version = u\<rparr>) \<and>
    (\<forall>i<NShards. handed_over current target (dw_group w) (dw_group w') i) \<and> dw_kvaddr w' = dw_kvaddr w"
proof -
  let ?m = "store (dw_kv w)"
  from assms(1) have r: "ctl_kvsrv ctl = dw_kvaddr w" "lock_free ''config_lock'' ?m"
    "?m ''config'' = Some \<lparr>vv_Value = json_Marshal current, vv_Version = ver\<rparr>" "ver \<noteq> 0"
    "wf_config current" "wf_config target" "sc_Num current < sc_Num target"
    "groups_ok (sc_Num target) (dw_group w)"
    "\<forall>i<NShards. movable w current target (sc_Shards current ! i) (sc_Shards target ! i)"
    by (auto simp: ready_to_change_def)
  from lock_brackets [where P = "changed w current target ver" and fs = "dw_script w",
      OF r(2) assms(2) r(1) body_world [where m = ?m, OF r(3-9,1)]]
  obtain err w1 m1 u f3 where c: "withConfigLock dkv_call ctl rnd (changeConfigBody dkv_call ctl target) w =
      Some (err, withStore w1 (m1(''config_lock'' \<mapsto> \<lparr>vv_Value = [], vv_Version = u\<rparr>)) f3)"
    "changed w current target ver err w1 m1" "dw_kvaddr w1 = dw_kvaddr w"
    unfolding withStore_id by blast
  let ?w' = "withStore w1 (m1(''config_lock'' \<mapsto> \<lparr>vv_Value = [], vv_Version = u\<rparr>)) f3"
  have "\<forall>i<NShards. handed_over current target (dw_group w) (dw_group ?w') i"
    using moveAll_handed_over [OF r(8,5,6)] c(2) by (simp add: changed_def)
  with c show ?thesis
    by (intro exI [where x = err] exI [where x = ?w']) (simp add: ChangeConfigTo_def changed_def)
qed

end
