(* ===== verification/Metrics.thy ===== *)
theory Metrics
  imports Main
begin

section \<open>Prometheus collectors (internal/metrics/metrics.go)\<close>

text \<open>
  The collectors the package declares, their registration when the package is initialised
  (\<open>promauto\<close> panics when the registry refuses a collector), and what the code does with them. The
  registry is a parameter: \<open>register\<close> takes a collector and the registry and is \<open>None\<close> when it
  answers an error.
\<close>

datatype buckets = DefBuckets              \<comment> \<open>\<open>prometheus.DefBuckets\<close>\<close>
datatype metric_kind = Gauge | Counter | Histogram buckets

record collector =
  co_kind :: metric_kind
  co_Name :: string
  co_Help :: string
  co_labels :: "string list"               \<comment> \<open>empty for a collector that is no vector\<close>

definition RaftCurrentTerm :: collector where
  "RaftCurrentTerm = \<lparr>co_kind = Gauge, co_Name = ''dkv_raft_current_term'',
     co_Help = ''Current term of the Raft node'', co_labels = [''node'']\<rparr>"

definition RaftLeaderChanges :: collector where
  "RaftLeaderChanges = \<lparr>co_kind = Counter, co_Name = ''dkv_raft_leader_changes_total'',
     co_Help = ''Total number of leader election changes observed'', co_labels = [''node'']\<rparr>"

definition RaftLogEntries :: collector where
  "RaftLogEntries = \<lparr>co_kind = Gauge, co_Name = ''dkv_raft_log_entries'',
     co_Help = ''Current length of the Raft log'', co_labels = [''node'']\<rparr>"

definition RaftReplicationLag :: collector where
  "RaftReplicationLag = \<lparr>co_kind = Gauge, co_Name = ''dkv_raft_replication_lag'',
     co_Help = ''Current replication lag per follower'', co_labels = [''node'', ''follower'']\<rparr>"

definition RaftSnapshotSize :: collector where
  "RaftSnapshotSize = \<lparr>co_kind = Gauge, co_Name = ''dkv_raft_snapshot_size_bytes'',
     co_Help = ''Size of the Raft snapshot in bytes'', co_labels = [''node'']\<rparr>"

definition RaftElectionDuration :: collector where
  "RaftElectionDuration = \<lparr>co_kind = Histogram DefBuckets, co_Name = ''dkv_raft_election_duration_seconds'',
     co_Help = ''Duration of Raft elections in seconds'', co_labels = [''node'']\<rparr>"

definition KVOperations :: collector where
  "KVOperations = \<lparr>co_kind = Counter, co_Name = ''dkv_kv_operations_total'',
     co_Help = ''Total number of client key-value operations'', co_labels = [''node'', ''op_type'']\<rparr>"

definition KVOperationDuration :: collector where
  "KVOperationDuration = \<lparr>co_kind = Histogram DefBuckets, co_Name = ''dkv_kv_operation_duration_seconds'',
     co_Help = ''Latency of client key-value operations in seconds'', co_labels = [''node'', ''op_type'']\<rparr>"

definition KVStoreSize :: collector where
  "KVStoreSize = \<lparr>co_kind = Gauge, co_Name = ''dkv_kv_store_size'',
     co_Help = ''Number of keys currently in the store'', co_labels = [''node'']\<rparr>"

definition ShardConfigNum :: collector where
  "ShardConfigNum = \<lparr>co_kind = Gauge, co_Name = ''dkv_shard_config_num'',
     co_Help = ''Current configuration number of the shard controller'', co_labels = []\<rparr>"

definition ShardMigrationDuration :: collector where
  "ShardMigrationDuration = \<lparr>co_kind = Histogram DefBuckets, co_Name = ''dkv_shard_migration_duration_seconds'',
     co_Help = ''Duration of shard migrations in seconds'', co_labels = []\<rparr>"

definition ShardMigrations :: collector where
  "ShardMigrations = \<lparr>co_kind = Counter, co_Name = ''dkv_shard_migrations_total'',
     co_Help = ''Total number of shard migrations'', co_labels = [''phase'']\<rparr>"

definition RPCSent :: collector where
  "RPCSent = \<lparr>co_kind = Counter, co_Name = ''dkv_rpc_sent_total'',
     co_Help = ''Total number of RPCs sent'', co_labels = [''method'']\<rparr>"

definition RPCDuration :: collector where
  "RPCDuration = \<lparr>co_kind = Histogram DefBuckets, co_Name = ''dkv_rpc_duration_seconds'',
     co_Help = ''Latency of RPCs in seconds'', co_labels = [''method'']\<rparr>"

definition RPCErrors :: collector where
  "RPCErrors = \<lparr>co_kind = Counter, co_Name = ''dkv_rpc_errors_total'',
     co_Help = ''Total number of RPC errors'', co_labels = [''method'', ''error_type'']\<rparr>"

lemmas collector_defs =
  RaftCurrentTerm_def RaftLeaderChanges_def RaftLogEntries_def RaftReplicationLag_def RaftSnapshotSize_def
  RaftElectionDuration_def KVOperations_def KVOperationDuration_def KVStoreSize_def ShardConfigNum_def
  ShardMigrationDuration_def ShardMigrations_def RPCSent_def RPCDuration_def RPCErrors_def

text \<open>In the order of their declaration, in which Go initialises them.\<close>

definition collectors :: "collector list" where
  "collectors = [RaftCurrentTerm, RaftLeaderChanges, RaftLogEntries, RaftReplicationLag, RaftSnapshotSize,
     RaftElectionDuration, KVOperations, KVOperationDuration, KVStoreSize, ShardConfigNum,
     ShardMigrationDuration, ShardMigrations, RPCSent, RPCDuration, RPCErrors]"

text \<open>\<open>promauto\<close>: registration of one collector after the other; \<open>None\<close> is a panic.\<close>

fun registerAll :: "(collector \<Rightarrow> 'r \<Rightarrow> 'r option) \<Rightarrow> collector list \<Rightarrow> 'r \<Rightarrow> 'r option" where
  "registerAll register [] R = Some R"
| "registerAll register (c # cs) R =
     (case register c R of None \<Rightarrow> None | Some R' \<Rightarrow> registerAll register cs R')"

subsection \<open>Names that a registry accepts\<close>

text \<open>
  What Prometheus documents of a descriptor: the name matches \<open>[a-zA-Z_:][a-zA-Z0-9_:]*\<close>, the labels
  are distinct, match \<open>[a-zA-Z_][a-zA-Z0-9_]*\<close> without the reserved prefix \<open>__\<close>, and a histogram does
  not use the label \<open>le\<close>.
\<close>

definition letter :: "char \<Rightarrow> bool" where
  "letter c \<longleftrightarrow> c \<in> set ''abcdefghijklmnopqrstuvwxyzABCDEFGHIJKLMNOPQRSTUVWXYZ_''"

definition decimal :: "char \<Rightarrow> bool" where
  "decimal c \<longleftrightarrow> c \<in> set ''0123456789''"

fun metric_name :: "string \<Rightarrow> bool" where
  "metric_name [] = False"
| "metric_name (c # cs) =
     ((letter c \<or> c = CHR '':'') \<and> list_all (\<lambda>c. letter c \<or> decimal c \<or> c = CHR '':'') cs)"

fun label_name :: "string \<Rightarrow> bool" where
  "label_name [] = False"
| "label_name (c # cs) =
     (letter c \<and> list_all (\<lambda>c. letter c \<or> decimal c) cs \<and> take 2 (c # cs) \<noteq> ''__'')"

definition descriptor_ok :: "collector \<Rightarrow> bool" where
  "descriptor_ok c \<longleftrightarrow> metric_name (co_Name c) \<and> list_all label_name (co_labels c) \<and>
     distinct (co_labels c) \<and>
     (case co_kind c of Histogram _ \<Rightarrow> ''le'' \<notin> set (co_labels c) | _ \<Rightarrow> True)"

lemma collectors_ok: "list_all descriptor_ok collectors"
  by (simp add: collectors_def collector_defs descriptor_ok_def letter_def decimal_def)

lemma collectors_distinct: "distinct (map co_Name collectors)"
  by (simp add: collectors_def collector_defs)

lemma collectors_prefix: "c \<in> set collectors \<Longrightarrow> take 4 (co_Name c) = ''dkv_''"
  by (auto simp: collectors_def collector_defs)

text \<open>
  The law of a registry whose registered names are \<open>names\<close>: a good descriptor with a new name is
  accepted, and only its name is added.
\<close>

definition accepts_new :: "(collector \<Rightarrow> 'r \<Rightarrow> 'r option) \<Rightarrow> ('r \<Rightarrow> string set) \<Rightarrow> bool" where
  "accepts_new register names \<longleftrightarrow> (\<forall>c R. descriptor_ok c \<and> co_Name c \<notin> names R \<longrightarrow>
     (\<exists>R'. register c R = Some R' \<and> names R' = insert (co_Name c) (names R)))"

lemma registers_all:
  assumes "accepts_new register names" and "list_all descriptor_ok cs" and "distinct (map co_Name cs)"
    and "\<forall>c\<in>set cs. co_Name c \<notin> names R"
  shows "\<exists>R'. registerAll register cs R = Some R' \<and> names R' = names R \<union> co_Name ` set cs"
  using assms(2-)
proof (induction cs arbitrary: R)
  case (Cons c cs)
  then have "descriptor_ok c \<and> co_Name c \<notin> names R" by simp
  then obtain R1 where R1: "register c R = Some R1" "names R1 = insert (co_Name c) (names R)"
    using assms(1) unfolding accepts_new_def by blast
  have "\<forall>d\<in>set cs. co_Name d \<notin> names R1" using Cons.prems R1(2) by (auto simp: image_iff)
  with Cons.IH [of R1] Cons.prems R1 show ?case by auto
qed simp

text \<open>A package initialisation over a registry without \<open>dkv_\<close> names does not panic.\<close>

lemma package_init:
  assumes "accepts_new register names" and "\<forall>x\<in>names R. take 4 x \<noteq> ''dkv_''"
  shows "\<exists>R'. registerAll register collectors R = Some R' \<and> names R' = names R \<union> co_Name ` set collectors"
  using assms collectors_ok collectors_distinct collectors_prefix by (intro registers_all) auto

subsection \<open>Updates\<close>

text \<open>
  The calls the code makes on collectors, with the values of the labels. The value of a gauge and an
  observed duration are \<open>int\<close> and \<open>nat\<close> (a \<open>float64\<close> holds them exactly up to 2^53).
\<close>

datatype metric_event =
    Inc collector "string list"
  | Observe collector nat
  | SetGauge collector int

text \<open>The call fits its collector: its kind has the method, and every label has a value.\<close>

fun call_fits :: "metric_event \<Rightarrow> bool" where
  "call_fits (Inc c vs) = (co_kind c = Counter \<and> length vs = length (co_labels c))"
| "call_fits (Observe c _) = (co_kind c = Histogram DefBuckets \<and> co_labels c = [])"
| "call_fits (SetGauge c _) = (co_kind c = Gauge \<and> co_labels c = [])"

end
