(* ===== verification/ShardCtrlrd.thy ===== *)
theory ShardCtrlrd
  imports ShardMigration Metrics
begin

section \<open>The shard controller process (cmd/shardctrlrd/main.go)\<close>

text \<open>
  What \<open>main\<close> does with its flags: it parses the groups, makes a controller, brings the published
  configuration up to date once and then reports its number until it is told to stop. A result is
  the text of \<open>log.Fatalf\<close> (\<open>None\<close> when the process goes on) with the updates of metrics on the
  way; no result is a start-up that never ends. The HTTP server for the metrics and the signals
  are left out.
\<close>

subsection \<open>The flags\<close>

fun parseGroupParts :: "string list \<Rightarrow> (int, string list) fmap \<Rightarrow> string + (int, string list) fmap" where
  "parseGroupParts [] groups = Inr groups"
| "parseGroupParts (part # parts) groups =
     (if part = [] then parseGroupParts parts groups
      else
        let sub = splitOn (CHR ''='') part in
        if length sub \<noteq> 2 then Inl (''invalid group format: '' @ part)
        else case Atoi (sub ! 0) of
          None \<Rightarrow> Inl (''invalid GID: '' @ sub ! 0)
        | Some gid \<Rightarrow> parseGroupParts parts (fmupd gid (splitOn (CHR '','') (sub ! 1)) groups))"

definition parseGroups :: "string \<Rightarrow> string + (int, string list) fmap" where
  "parseGroups s = (if s = [] then Inr fmempty else parseGroupParts (splitOn (CHR '';'') s) fmempty)"

subsection \<open>The start-up step\<close>

text \<open>The deep comparison of the running configuration with the flags.\<close>

definition groupChanged :: "(int, string list) fmap \<Rightarrow> (int, string list) fmap \<Rightarrow> int \<Rightarrow> bool" where
  "groupChanged cur groups gid =
     (let servers = serversOf groups gid in
      case fmlookup cur gid of
        None \<Rightarrow> True
      | Some currServers \<Rightarrow> length currServers \<noteq> length servers \<or>
          list_ex (\<lambda>i. servers ! i \<noteq> currServers ! i) [0..<length servers])"

definition groupsDiffer :: "(int, string list) fmap \<Rightarrow> (int, string list) fmap \<Rightarrow> bool" where
  "groupsDiffer cur groups =
     (if fcard (fmdom cur) \<noteq> fcard (fmdom groups) then True
      else list_ex (groupChanged cur groups) (sortedGids groups))"

definition rebalanceTarget :: "ShardConfig \<Rightarrow> (int, string list) fmap \<Rightarrow> ShardConfig" where
  "rebalanceTarget cur groups =
     \<lparr>sc_Num = sc_Num cur + 1, sc_Shards = assignShards (sortedGids groups), sc_Groups = groups\<rparr>"

text \<open>Step 5 of \<open>main\<close>; \<open>elapsed\<close> is what \<open>time.Since(start)\<close> measured.\<close>

definition startup ::
  "'w network \<Rightarrow> ShardController \<Rightarrow> nat list \<Rightarrow> nat \<Rightarrow> (int, string list) fmap \<Rightarrow> 'w \<Rightarrow>
   (error \<times> metric_event list \<times> 'w) option" where
  "startup Call ctl rnd elapsed groups w = do {
     (q, w) \<leftarrow> Query Call ctl w;
     case q of
       Inl e \<Rightarrow> Some (Some (''failed to query config: '' @ e), [], w)
     | Inr cur \<Rightarrow>
         if sc_Num cur = -1 then do {
           (err, w) \<leftarrow> InitConfig Call ctl rnd groups w;
           Some (map_option (\<lambda>e. ''failed to init config: '' @ e) err, [], w)
         } else if groupsDiffer (sc_Groups cur) groups then do {
           let freeze = Inc ShardMigrations [''freeze''];
           (err, w) \<leftarrow> ChangeConfigTo Call ctl rnd (rebalanceTarget cur groups) w;
           case err of
             Some e \<Rightarrow> Some (Some (''failed to change config: '' @ e),
               [freeze, Inc RPCErrors [''ChangeConfigTo'', ''migration_error'']], w)
           | None \<Rightarrow> Some (None,
               [freeze, Observe ShardMigrationDuration elapsed, Inc ShardMigrations [''complete'']], w)
         } else Some (None, [], w)
   }"

text \<open>Steps 1 to 5.\<close>

definition shardctrlrd ::
  "'w network \<Rightarrow> nat list \<Rightarrow> nat \<Rightarrow> string \<Rightarrow> string \<Rightarrow> 'w \<Rightarrow> (error \<times> metric_event list \<times> 'w) option" where
  "shardctrlrd Call rnd elapsed kvsrvAddr groupsStr w =
     (case parseGroups groupsStr of
        Inl e \<Rightarrow> Some (Some (''failed to parse groups: '' @ e), [], w)
      | Inr groups \<Rightarrow> startup Call (ShardController_New kvsrvAddr groups) rnd elapsed groups w)"

text \<open>One round of the goroutine of step 6.\<close>

definition reportConfig :: "'w network \<Rightarrow> ShardController \<Rightarrow> 'w \<Rightarrow> (metric_event list \<times> 'w) option" where
  "reportConfig Call ctl w = do {
     (q, w) \<leftarrow> Query Call ctl w;
     Some (case q of Inl e \<Rightarrow> [] | Inr cfg \<Rightarrow> [SetGauge ShardConfigNum (sc_Num cfg)], w)
   }"

text \<open>Whatever the start-up step does, it counts only what the collectors can count.\<close>

lemma startup_calls_fit:
  "startup Call ctl rnd elapsed groups w = Some (err, evs, w') \<Longrightarrow> list_all call_fits evs"
  by (auto simp: startup_def Let_def ShardMigrations_def RPCErrors_def ShardMigrationDuration_def
      split: Option.bind_splits sum.splits if_splits option.splits)

subsection \<open>The comparison of the groups\<close>

lemma groupChanged_iff:
  assumes "gid |\<in>| fmdom groups"
  shows "groupChanged cur groups gid \<longleftrightarrow> fmlookup cur gid \<noteq> fmlookup groups gid"
proof -
  from assms obtain ss where ss: "fmlookup groups gid = Some ss" by (auto simp: fmlookup_dom_iff)
  show ?thesis
  proof (cases "fmlookup cur gid")
    case (Some cs)
    have "cs = ss \<longleftrightarrow> length cs = length ss \<and> (\<forall>i<length ss. ss ! i = cs ! i)"
      by (auto intro: nth_equalityI)
    with Some ss show ?thesis by (auto simp: groupChanged_def serversOf_def Let_def list_ex_iff)
  qed (simp add: groupChanged_def ss Let_def)
qed

lemma groupsDiffer_iff: "groupsDiffer cur groups \<longleftrightarrow> cur \<noteq> groups"
proof -
  have ex: "list_ex (groupChanged cur groups) (sortedGids groups) \<longleftrightarrow>
      (\<exists>gid. gid |\<in>| fmdom groups \<and> fmlookup cur gid \<noteq> fmlookup groups gid)"
    using groupChanged_iff [of _ groups cur] by (auto simp: list_ex_iff sortedGids_def)
  have "cur = groups" if card: "fcard (fmdom cur) = fcard (fmdom groups)"
    and eq: "\<And>gid. gid |\<in>| fmdom groups \<Longrightarrow> fmlookup cur gid = fmlookup groups gid"
  proof -
    have "fmdom groups |\<subseteq>| fmdom cur"
      using eq by (auto simp: fmlookup_dom_iff)
    then have "fmdom groups = fmdom cur"
      using card fcard_seteq [of "fmdom groups" "fmdom cur"] by simp
    with eq show ?thesis by (intro fmap_ext) (metis fmdom_notD)
  qed
  with ex show ?thesis unfolding groupsDiffer_def by (cases "fcard (fmdom cur) = fcard (fmdom groups)") auto
qed


end
