(* ===== verification/RaftNode.thy ===== *)
theory RaftNode
  imports Persist
begin

section \<open>A Raft peer: state, log, persistence (raft/raft.go, raft/persist.go)\<close>

text \<open>
  The state of one peer is the struct \<open>Raft\<close> without its mutex, its network handle and the
  channel and condition variable of the applier: every definition below is a critical section
  under \<open>rf.mu\<close>, so it takes the state and returns the new one. A goroutine the code starts
  (\<open>go rf.replicateToAll()\<close>) is a later, separate step (\<open>RaftCluster\<close>). Messages for \<open>applyCh\<close> are
  results of the applier (\<open>RaftReplication\<close>). The persister is the \<open>MemoryPersister\<close> model, used
  through the laws of \<open>persister_spec\<close> only, which the disk model satisfies too.
\<close>

record 'c raft =
  peers :: "string list"
  persister :: "'c gob MemoryPersister"
  me :: int
  dead :: bool
  currentTerm :: int
  votedFor :: int                       \<comment> \<open>-1 if none\<close>
  rlog :: "'c LogEntry list"            \<comment> \<open>\<open>rf.log\<close>\<close>
  lastIncludedIndex :: int
  lastIncludedTerm :: int
  commitIndex :: int
  lastApplied :: int
  role :: RaftRole
  nextIndex :: "int list"
  matchIndex :: "int list"
  lastReset :: int
  electionTimeout :: int
  pendingSnapshot :: "'c bytes option"
  pendingSnapshotIndex :: int
  pendingSnapshotTerm :: int
  pendingSnapshotValid :: bool

subsection \<open>Log indexing helpers\<close>

definition getLastLogIndex :: "'c raft \<Rightarrow> int" where
  "getLastLogIndex rf = lastIncludedIndex rf + int (length (rlog rf)) - 1"

definition getLastLogTerm :: "'c raft \<Rightarrow> int option" where
  "getLastLogTerm rf =
     (if length (rlog rf) = 1 then Some (lastIncludedTerm rf)
      else map_option le_Term (go_index (rlog rf) (int (length (rlog rf)) - 1)))"

definition getLogEntry :: "int \<Rightarrow> 'c raft \<Rightarrow> 'c LogEntry option" where
  "getLogEntry idx rf = go_index (rlog rf) (idx - lastIncludedIndex rf)"

definition getLogTerm :: "int \<Rightarrow> 'c raft \<Rightarrow> int option" where
  "getLogTerm idx rf =
     (if idx = lastIncludedIndex rf then Some (lastIncludedTerm rf)
      else map_option le_Term (go_index (rlog rf) (idx - lastIncludedIndex rf)))"

text \<open>\<open>time.Duration(300 + rand.Int63n(200)) * time.Millisecond\<close>, in nanoseconds.\<close>

definition resetElectionTimeout :: "clock \<Rightarrow> 'c raft \<Rightarrow> 'c raft" where
  "resetElectionTimeout ck rf =
     rf\<lparr>lastReset := now ck, electionTimeout := (300 + int (rand200 ck mod 200)) * 1000000\<rparr>"

subsection \<open>Persistence\<close>

definition serializeState :: "'c raft \<Rightarrow> 'c bytes" where
  "serializeState rf =
     [GInt (currentTerm rf), GInt (votedFor rf), GLog (rlog rf),
      GInt (lastIncludedIndex rf), GInt (lastIncludedTerm rf)]"

definition persist :: "'c raft \<Rightarrow> 'c raft" where
  "persist rf =
     rf\<lparr>persister := Mem_Save (serializeState rf) (Mem_ReadSnapshot (persister rf)) (persister rf)\<rparr>"

text \<open>\<open>None\<close> is the \<open>log.Fatalf\<close> of a state that does not decode.\<close>

definition readPersist :: "'c bytes \<Rightarrow> 'c raft \<Rightarrow> 'c raft option" where
  "readPersist data rf =
     (if length data = 0 then Some rf
      else do {
        (ct, d) \<leftarrow> gob_decode_int data;
        (vf, d) \<leftarrow> gob_decode_int d;
        (lg, d) \<leftarrow> gob_decode_log d;
        (lii, d) \<leftarrow> gob_decode_int d;
        (lit, d) \<leftarrow> gob_decode_int d;
        Some (rf\<lparr>currentTerm := ct, votedFor := vf, rlog := lg, lastIncludedIndex := lii,
                 lastIncludedTerm := lit, commitIndex := lii, lastApplied := lii\<rparr>)
      })"

subsection \<open>Make, Start, GetState, Snapshot, Kill\<close>

definition dummyEntry :: "int \<Rightarrow> int \<Rightarrow> 'c LogEntry" where
  "dummyEntry t i = \<lparr>le_Term = t, le_Index = i, le_Command = None\<rparr>"

definition Make ::
  "clock \<Rightarrow> string list \<Rightarrow> int \<Rightarrow> 'c gob MemoryPersister \<Rightarrow> 'c raft option" where
  "Make ck ps i p =
     (let rf = \<lparr>peers = ps, persister = p, me = i, dead = False,
                currentTerm = 0, votedFor = -1, rlog = [dummyEntry 0 0],
                lastIncludedIndex = 0, lastIncludedTerm = 0, commitIndex = 0, lastApplied = 0,
                role = Follower, nextIndex = replicate (length ps) 0,
                matchIndex = replicate (length ps) 0, lastReset = 0, electionTimeout = 0,
                pendingSnapshot = None, pendingSnapshotIndex = 0, pendingSnapshotTerm = 0,
                pendingSnapshotValid = False\<rparr>
      in do {
        rf \<leftarrow> readPersist (Mem_ReadRaftState p) (resetElectionTimeout ck rf);
        Some (if length (slice (Mem_ReadSnapshot p)) > 0
              then rf\<lparr>commitIndex := lastIncludedIndex rf, lastApplied := lastIncludedIndex rf\<rparr>
              else rf)
      })"

text \<open>\<open>Start\<close> returns the index (-1 when not leader), the term and whether this peer leads.\<close>

definition Start :: "'c \<Rightarrow> 'c raft \<Rightarrow> (int \<times> int \<times> bool) \<times> 'c raft" where
  "Start command rf =
     (let term = currentTerm rf; isLeader = (role rf = Leader) in
      if isLeader then
        let idx = getLastLogIndex rf + 1;
            rf = rf\<lparr>rlog := rlog rf @ [\<lparr>le_Term = term, le_Index = idx, le_Command = Some command\<rparr>]\<rparr>
        in ((idx, term, isLeader), persist rf)
      else ((-1, term, isLeader), rf))"

definition GetState :: "'c raft \<Rightarrow> int \<times> bool" where
  "GetState rf = (currentTerm rf, role rf = Leader)"

definition Raft_Snapshot :: "int \<Rightarrow> 'c bytes option \<Rightarrow> 'c raft \<Rightarrow> 'c raft option" where
  "Raft_Snapshot index snapshot rf =
     (if index \<le> lastIncludedIndex rf then Some rf
      else do {
        lit \<leftarrow> getLogTerm index rf;
        lg \<leftarrow> go_drop (rlog rf) (index - lastIncludedIndex rf);
        lg \<leftarrow> go_update lg 0 (dummyEntry lit index);
        let rf = rf\<lparr>rlog := lg, lastIncludedIndex := index, lastIncludedTerm := lit\<rparr>;
        Some (rf\<lparr>persister := Mem_Save (serializeState rf) snapshot (persister rf)\<rparr>)
      })"

definition Kill :: "'c raft \<Rightarrow> 'c raft" where
  "Kill rf = rf\<lparr>dead := True\<rparr>"

text \<open>\<open>blen\<close> is the byte length of a gob stream, which the model does not fix.\<close>

definition PersistBytes :: "('c bytes \<Rightarrow> int) \<Rightarrow> 'c raft \<Rightarrow> int" where
  "PersistBytes blen rf = blen (Mem_ReadRaftState (persister rf))"

subsection \<open>What the helpers compute on a well-formed log\<close>

text \<open>
  \<open>log_ok\<close>: the log starts with the dummy entry that carries the snapshot's index and term, and
  the entries after it are numbered consecutively.
\<close>

definition log_ok :: "'c raft \<Rightarrow> bool" where
  "log_ok rf \<longleftrightarrow> rlog rf \<noteq> [] \<and>
     le_Term (rlog rf ! 0) = lastIncludedTerm rf \<and>
     (\<forall>k < length (rlog rf). le_Index (rlog rf ! k) = lastIncludedIndex rf + int k)"

text \<open>Total versions of the term lookups, which the code's agree with inside the log.\<close>

definition term_at :: "int \<Rightarrow> 'c raft \<Rightarrow> int" where
  "term_at i rf =
     (if i = lastIncludedIndex rf then lastIncludedTerm rf
      else le_Term (rlog rf ! nat (i - lastIncludedIndex rf)))"

definition last_term :: "'c raft \<Rightarrow> int" where
  "last_term rf = term_at (getLastLogIndex rf) rf"

lemma getLogTerm_in:
  "lastIncludedIndex rf \<le> i \<Longrightarrow> i \<le> getLastLogIndex rf \<Longrightarrow> getLogTerm i rf = Some (term_at i rf)"
  by (auto simp: getLogTerm_def term_at_def getLastLogIndex_def go_simps)

lemma getLogTerm_out:
  "i < lastIncludedIndex rf \<or> getLastLogIndex rf < i \<Longrightarrow> i \<noteq> lastIncludedIndex rf \<Longrightarrow>
   getLogTerm i rf = None"
  by (auto simp: getLogTerm_def getLastLogIndex_def go_index_def)

lemma getLastLogTerm_eq: "rlog rf \<noteq> [] \<Longrightarrow> getLastLogTerm rf = Some (last_term rf)"
  by (cases "length (rlog rf)")
     (auto simp: getLastLogTerm_def last_term_def term_at_def getLastLogIndex_def go_simps)

lemma lastIncluded_le_last: "rlog rf \<noteq> [] \<Longrightarrow> lastIncludedIndex rf \<le> getLastLogIndex rf"
  by (cases "rlog rf") (auto simp: getLastLogIndex_def)

subsection \<open>Round trip through the persister\<close>

text \<open>
  The persister holds the current term, vote and log: its bytes are those of the current state,
  or there are none yet and the peer is as it was created.
\<close>

definition persisted :: "'c raft \<Rightarrow> bool" where
  "persisted rf \<longleftrightarrow> Mem_ReadRaftState (persister rf) = serializeState rf \<or>
     Mem_ReadRaftState (persister rf) = [] \<and> currentTerm rf = 0 \<and> votedFor rf = -1 \<and>
     rlog rf = [dummyEntry 0 0] \<and> lastIncludedIndex rf = 0 \<and> lastIncludedTerm rf = 0"

lemma persisted_persist [simp]: "persisted (persist rf)"
  by (simp add: persisted_def persist_def serializeState_def Mem_defs)

lemma persisted_Save [simp]:
  "persisted (rf\<lparr>persister := Mem_Save (serializeState rf) d q\<rparr>)"
  by (simp add: persisted_def serializeState_def Mem_defs)

text \<open>
  A crash loses everything but the persister; the peer that \<open>Make\<close> builds from it has the same
  term, vote and log.
\<close>

lemma Make_persisted:
  assumes "persisted rf"
  shows "\<exists>rf'. Make ck ps i (persister rf) = Some rf' \<and>
    currentTerm rf' = currentTerm rf \<and> votedFor rf' = votedFor rf \<and> rlog rf' = rlog rf \<and>
    lastIncludedIndex rf' = lastIncludedIndex rf \<and> lastIncludedTerm rf' = lastIncludedTerm rf \<and>
    commitIndex rf' = lastIncludedIndex rf \<and> lastApplied rf' = lastIncludedIndex rf \<and>
    role rf' = Follower \<and> persister rf' = persister rf \<and> me rf' = i \<and> peers rf' = ps \<and>
    nextIndex rf' = replicate (length ps) 0 \<and> matchIndex rf' = replicate (length ps) 0 \<and>
    \<not> pendingSnapshotValid rf' \<and> \<not> dead rf'"
  using assms
  by (auto simp: persisted_def Make_def Let_def readPersist_def serializeState_def
      resetElectionTimeout_def)

end
