(* ===== verification/RaftElection.thy ===== *)
theory RaftElection
  imports RaftNode
begin

section \<open>Leader election (raft/election.go)\<close>

text \<open>
  The ticker's test, \<open>startElection\<close> up to the RPCs it sends, the part of each vote goroutine that
  runs after its RPC returned, \<open>transitionToLeader\<close> and the \<open>RequestVote\<close> handler. The variables
  the goroutines of one election share (\<open>term\<close>, \<open>votes\<close>) are the record \<open>election\<close>.
\<close>

definition ticker_fires :: "clock \<Rightarrow> 'c raft \<Rightarrow> bool" where
  "ticker_fires ck rf \<longleftrightarrow>
     \<not> dead rf \<and> role rf \<noteq> Leader \<and> now ck - lastReset rf > electionTimeout rf"

record election =
  el_term :: int
  el_votes :: int

text \<open>The new state, the shared variables and the arguments sent to every peer but \<open>me\<close>.\<close>

definition startElection ::
  "clock \<Rightarrow> 'c raft \<Rightarrow> (election \<times> RequestVoteArgs \<times> 'c raft) option" where
  "startElection ck rf =
     (let rf = rf\<lparr>currentTerm := currentTerm rf + 1, role := Candidate, votedFor := me rf\<rparr>;
          rf = resetElectionTimeout ck (persist rf);
          term = currentTerm rf;
          lastLogIndex = getLastLogIndex rf
      in do {
        lastLogTerm \<leftarrow> getLastLogTerm rf;
        Some (\<lparr>el_term = term, el_votes = 1\<rparr>,
              \<lparr>rv_Term = term, rv_CandidateID = me rf,
               rv_LastLogIndex = lastLogIndex, rv_LastLogTerm = lastLogTerm\<rparr>, rf)
      })"

text \<open>\<open>for i := range rf.peers { xs[i] = v }\<close>, which panics when \<open>xs\<close> is shorter than \<open>rf.peers\<close>.\<close>

definition fill_peers :: "nat \<Rightarrow> 'a \<Rightarrow> 'a list \<Rightarrow> 'a list option" where
  "fill_peers n v xs = (if n \<le> length xs then Some (replicate n v @ drop n xs) else None)"

definition transitionToLeader :: "'c raft \<Rightarrow> 'c raft option" where
  "transitionToLeader rf =
     (let rf = rf\<lparr>role := Leader\<rparr>; lastIndex = getLastLogIndex rf in do {
        ni \<leftarrow> fill_peers (length (peers rf)) (lastIndex + 1) (nextIndex rf);
        mi \<leftarrow> fill_peers (length (peers rf)) 0 (matchIndex rf);
        Some (rf\<lparr>nextIndex := ni, matchIndex := mi\<rparr>)
      })"

text \<open>A vote goroutine after its RPC returned \<open>reply\<close>.\<close>

definition handleVoteReply ::
  "clock \<Rightarrow> RequestVoteReply \<Rightarrow> election \<Rightarrow> 'c raft \<Rightarrow> (election \<times> 'c raft) option" where
  "handleVoteReply ck reply el rf =
     (if role rf \<noteq> Candidate \<or> currentTerm rf \<noteq> el_term el then Some (el, rf)
      else if rvr_Term reply > currentTerm rf then
        Some (el, resetElectionTimeout ck
                    (persist (rf\<lparr>currentTerm := rvr_Term reply, role := Follower, votedFor := -1\<rparr>)))
      else if rvr_VoteGranted reply then
        let el = el\<lparr>el_votes := el_votes el + 1\<rparr> in
        if el_votes el > int (length (peers rf) div 2)
        then do { rf \<leftarrow> transitionToLeader rf; Some (el, rf) }
        else Some (el, rf)
      else Some (el, rf))"

definition RequestVote ::
  "clock \<Rightarrow> RequestVoteArgs \<Rightarrow> 'c raft \<Rightarrow> (RequestVoteReply \<times> 'c raft) option" where
  "RequestVote ck args rf =
     (let reply = \<lparr>rvr_Term = currentTerm rf, rvr_VoteGranted = False\<rparr> in
      if rv_Term args < currentTerm rf then Some (reply, rf)
      else
        let rf = (if rv_Term args > currentTerm rf
                  then persist (rf\<lparr>currentTerm := rv_Term args, role := Follower, votedFor := -1\<rparr>)
                  else rf)
        in do {
          lastLogTerm \<leftarrow> getLastLogTerm rf;
          let lastLogIndex = getLastLogIndex rf;
          let logUpToDate =
            (if rv_LastLogTerm args > lastLogTerm then True
             else if rv_LastLogTerm args = lastLogTerm \<and> rv_LastLogIndex args \<ge> lastLogIndex
             then True else False);
          if (votedFor rf = -1 \<or> votedFor rf = rv_CandidateID args) \<and> logUpToDate
          then Some (reply\<lparr>rvr_VoteGranted := True\<rparr>,
                     resetElectionTimeout ck (persist (rf\<lparr>votedFor := rv_CandidateID args\<rparr>)))
          else Some (reply, rf)
        })"

end
