(* ===== verification/RaftReplication.thy ===== *)
theory RaftReplication
  imports RaftElection
begin

section \<open>Log replication, commitment, application (raft/replication.go, raft/persist.go)\<close>

text \<open>
  A goroutine of the code that sends an RPC is two critical sections around the call: one builds
  the arguments (or gives up), one handles the reply. Each is a definition here; what happens in
  between is left to the cluster's step relation. Loops over indexes that count down are
  functions with a termination proof, loops over \<open>range\<close> are recursions on lists.
\<close>

subsection \<open>Choosing what to send\<close>

datatype send_kind = SendSnapshot | SendEntries

definition chooseSend :: "nat \<Rightarrow> 'c raft \<Rightarrow> send_kind option" where
  "chooseSend peerIdx rf = do {
     ni \<leftarrow> go_index (nextIndex rf) (int peerIdx);
     Some (if ni \<le> lastIncludedIndex rf then SendSnapshot else SendEntries)
   }"

text \<open>One turn of \<open>replicationTicker\<close>: \<open>Some None\<close> when its loop ends.\<close>

definition replicationTicker :: "nat \<Rightarrow> int \<Rightarrow> 'c raft \<Rightarrow> send_kind option option" where
  "replicationTicker peerIdx term rf =
     (if dead rf then Some None
      else if role rf \<noteq> Leader \<or> currentTerm rf \<noteq> term then Some None
      else map_option Some (chooseSend peerIdx rf))"

text \<open>The goroutines \<open>replicateToAll\<close> starts, one per other peer, and their \<open>term\<close>.\<close>

fun replicate_peers :: "nat list \<Rightarrow> 'c raft \<Rightarrow> (nat \<times> send_kind) list option" where
  "replicate_peers [] rf = Some []"
| "replicate_peers (p # ps) rf =
     (if int p \<noteq> me rf
      then do { k \<leftarrow> chooseSend p rf; r \<leftarrow> replicate_peers ps rf; Some ((p, k) # r) }
      else replicate_peers ps rf)"

definition replicateToAll :: "'c raft \<Rightarrow> (int \<times> (nat \<times> send_kind) list) option" where
  "replicateToAll rf =
     (if role rf \<noteq> Leader then Some (currentTerm rf, [])
      else do { l \<leftarrow> replicate_peers [0..<length (peers rf)] rf; Some (currentTerm rf, l) })"

subsection \<open>Sending AppendEntries\<close>

text \<open>
  The arguments \<open>sendAppendEntriesToPeer\<close> builds: \<open>None\<close> panics, \<open>Some None\<close> gives up. A negative
  length in \<open>make([]core.LogEntry, n)\<close> panics too.
\<close>

definition sendAppendEntriesToPeer ::
  "nat \<Rightarrow> int \<Rightarrow> 'c raft \<Rightarrow> 'c AppendEntriesArgs option option" where
  "sendAppendEntriesToPeer peerIdx term rf =
     (if role rf \<noteq> Leader \<or> currentTerm rf \<noteq> term then Some None
      else do {
        ni \<leftarrow> go_index (nextIndex rf) (int peerIdx);
        let prevLogIndex = ni - 1;
        if prevLogIndex < lastIncludedIndex rf then Some None
        else do {
          prevLogTerm \<leftarrow> getLogTerm prevLogIndex rf;
          if getLastLogIndex rf - prevLogIndex < 0 then None
          else do {
            entries \<leftarrow> go_drop (rlog rf) (prevLogIndex + 1 - lastIncludedIndex rf);
            Some (Some \<lparr>ae_Term = currentTerm rf, ae_LeaderID = me rf,
                        ae_PrevLogIndex = prevLogIndex, ae_PrevLogTerm = prevLogTerm,
                        ae_Entries = entries, ae_LeaderCommit = commitIndex rf\<rparr>)
          }
        }
      })"

text \<open>\<open>count := 1; for p := range rf.peers ...\<close>: how many peers hold index \<open>n\<close>.\<close>

fun count_match :: "nat list \<Rightarrow> int \<Rightarrow> 'c raft \<Rightarrow> int option" where
  "count_match [] n rf = Some 1"
| "count_match (p # ps) n rf = do {
     c \<leftarrow> count_match ps n rf;
     if int p \<noteq> me rf
     then do { m \<leftarrow> go_index (matchIndex rf) (int p); Some (if m \<ge> n then c + 1 else c) }
     else Some c
   }"

text \<open>\<open>for n := rf.getLastLogIndex(); n > rf.commitIndex; n--\<close>, stopping at the first \<open>n\<close> to commit.\<close>

function advanceCommit :: "int \<Rightarrow> 'c raft \<Rightarrow> 'c raft option" where
  "advanceCommit n rf =
     (if n > commitIndex rf then do {
        t \<leftarrow> getLogTerm n rf;
        if t = currentTerm rf then do {
          count \<leftarrow> count_match [0..<length (peers rf)] n rf;
          if count > int (length (peers rf) div 2) then Some (rf\<lparr>commitIndex := n\<rparr>)
          else advanceCommit (n - 1) rf
        }
        else advanceCommit (n - 1) rf
      }
      else Some rf)"
  by pat_completeness auto
termination
  by (relation "measure (\<lambda>(n, rf). nat (n - commitIndex rf))") auto

text \<open>\<open>for i := lastLogIdx; i >= rf.lastIncludedIndex; i--\<close>: the last index with a term, or -1.\<close>

function lastIdxWithTerm :: "int \<Rightarrow> int \<Rightarrow> 'c raft \<Rightarrow> int option" where
  "lastIdxWithTerm xterm i rf =
     (if i \<ge> lastIncludedIndex rf then do {
        t \<leftarrow> getLogTerm i rf;
        if t = xterm then Some i else lastIdxWithTerm xterm (i - 1) rf
      }
      else Some (-1))"
  by pat_completeness auto
termination
  by (relation "measure (\<lambda>(x, i, rf). nat (i + 1 - lastIncludedIndex rf))") auto

declare advanceCommit.simps [simp del] lastIdxWithTerm.simps [simp del]

definition stepDown :: "clock \<Rightarrow> int \<Rightarrow> 'c raft \<Rightarrow> 'c raft" where
  "stepDown ck term rf =
     resetElectionTimeout ck (persist (rf\<lparr>currentTerm := term, role := Follower, votedFor := -1\<rparr>))"

definition backtrackNext :: "AppendEntriesReply \<Rightarrow> 'c raft \<Rightarrow> int option" where
  "backtrackNext reply rf =
     (if aer_XTerm reply = -1 then Some (aer_XLen reply)
      else do {
        l \<leftarrow> lastIdxWithTerm (aer_XTerm reply) (getLastLogIndex rf) rf;
        Some (if l \<noteq> -1 then l + 1 else aer_XIndex reply)
      })"

text \<open>The rest of \<open>sendAppendEntriesToPeer\<close>, once the call returned \<open>reply\<close> for \<open>args\<close>.\<close>

definition handleAppendReply ::
  "clock \<Rightarrow> nat \<Rightarrow> int \<Rightarrow> 'c AppendEntriesArgs \<Rightarrow> AppendEntriesReply \<Rightarrow> 'c raft \<Rightarrow> 'c raft option" where
  "handleAppendReply ck peerIdx term args reply rf =
     (if role rf \<noteq> Leader \<or> currentTerm rf \<noteq> term then Some rf
      else if aer_Term reply > currentTerm rf then Some (stepDown ck (aer_Term reply) rf)
      else if aer_Success reply then do {
        let match = ae_PrevLogIndex args + int (length (ae_Entries args));
        mi \<leftarrow> go_index (matchIndex rf) (int peerIdx);
        let mi = (if match > mi then match else mi);
        mis \<leftarrow> go_update (matchIndex rf) (int peerIdx) mi;
        nis \<leftarrow> go_update (nextIndex rf) (int peerIdx) (mi + 1);
        let rf = rf\<lparr>matchIndex := mis, nextIndex := nis\<rparr>;
        advanceCommit (getLastLogIndex rf) rf
      }
      else do {
        ni \<leftarrow> backtrackNext reply rf;
        nis \<leftarrow> go_update (nextIndex rf) (int peerIdx) (if ni < 1 then 1 else ni);
        Some (rf\<lparr>nextIndex := nis\<rparr>)
      })"

subsection \<open>The AppendEntries handler\<close>

text \<open>
  \<open>for i := args.PrevLogIndex; i >= rf.lastIncludedIndex; i--\<close>: the first index of the run of
  entries with term \<open>xterm\<close> that ends at \<open>i\<close>.
\<close>

function firstIdxOfTerm :: "int \<Rightarrow> int \<Rightarrow> int \<Rightarrow> 'c raft \<Rightarrow> int option" where
  "firstIdxOfTerm xterm i firstIdx rf =
     (if i \<ge> lastIncludedIndex rf then do {
        t \<leftarrow> getLogTerm i rf;
        if t = xterm then firstIdxOfTerm xterm (i - 1) i rf else Some firstIdx
      }
      else Some firstIdx)"
  by pat_completeness auto
termination
  by (relation "measure (\<lambda>(x, i, f, rf). nat (i + 1 - lastIncludedIndex rf))") auto

declare firstIdxOfTerm.simps [simp del]

text \<open>
  \<open>for i, entry := range args.Entries\<close> with \<open>idx = args.PrevLogIndex + 1 + i\<close>: the loop over the
  new entries, with \<open>lastLogIdx\<close> as its second variable.
\<close>

fun appendEntriesLoop ::
  "int \<Rightarrow> 'c LogEntry list \<Rightarrow> int \<Rightarrow> 'c raft \<Rightarrow> (int \<times> 'c raft) option" where
  "appendEntriesLoop idx [] lastLogIdx rf = Some (lastLogIdx, rf)"
| "appendEntriesLoop idx (entry # es) lastLogIdx rf =
     (if idx \<le> lastLogIdx then do {
        t \<leftarrow> getLogTerm idx rf;
        if t \<noteq> le_Term entry then do {
          lg \<leftarrow> go_take (rlog rf) (idx - lastIncludedIndex rf);
          let rf = persist (rf\<lparr>rlog := lg @ [entry]\<rparr>);
          appendEntriesLoop (idx + 1) es (getLastLogIndex rf) rf
        }
        else appendEntriesLoop (idx + 1) es lastLogIdx rf
      }
      else
        let rf = persist (rf\<lparr>rlog := rlog rf @ [entry]\<rparr>)
        in appendEntriesLoop (idx + 1) es (getLastLogIndex rf) rf)"

text \<open>What both AppendEntries and InstallSnapshot do first with a term that is not too old.\<close>

definition observeTerm :: "clock \<Rightarrow> int \<Rightarrow> 'c raft \<Rightarrow> 'c raft" where
  "observeTerm ck term rf =
     resetElectionTimeout ck
       (if term > currentTerm rf
        then persist (rf\<lparr>currentTerm := term, role := Follower, votedFor := -1\<rparr>)
        else if role rf = Candidate then rf\<lparr>role := Follower\<rparr>
        else rf)"

definition AppendEntries ::
  "clock \<Rightarrow> 'c AppendEntriesArgs \<Rightarrow> 'c raft \<Rightarrow> (AppendEntriesReply \<times> 'c raft) option" where
  "AppendEntries ck args rf =
     (let reply = \<lparr>aer_Term = currentTerm rf, aer_Success = False,
                   aer_XTerm = 0, aer_XIndex = 0, aer_XLen = 0\<rparr> in
      if ae_Term args < currentTerm rf then Some (reply, rf)
      else
        let rf = observeTerm ck (ae_Term args) rf;
            lastLogIdx = getLastLogIndex rf in
        if ae_PrevLogIndex args > lastLogIdx then
          Some (reply\<lparr>aer_XTerm := -1, aer_XIndex := -1, aer_XLen := lastLogIdx + 1\<rparr>, rf)
        else if ae_PrevLogIndex args < lastIncludedIndex rf then
          Some (reply\<lparr>aer_XTerm := -1, aer_XIndex := -1, aer_XLen := lastIncludedIndex rf + 1\<rparr>, rf)
        else do {
          t \<leftarrow> getLogTerm (ae_PrevLogIndex args) rf;
          if t \<noteq> ae_PrevLogTerm args then do {
            firstIdx \<leftarrow> firstIdxOfTerm t (ae_PrevLogIndex args) (ae_PrevLogIndex args) rf;
            Some (reply\<lparr>aer_XTerm := t, aer_XIndex := firstIdx, aer_XLen := lastLogIdx + 1\<rparr>, rf)
          }
          else do {
            (lastLogIdx, rf) \<leftarrow>
              appendEntriesLoop (ae_PrevLogIndex args + 1) (ae_Entries args) lastLogIdx rf;
            Some (reply\<lparr>aer_Success := True\<rparr>,
                  if ae_LeaderCommit args > commitIndex rf
                  then rf\<lparr>commitIndex := (if lastLogIdx < ae_LeaderCommit args then lastLogIdx
                                          else ae_LeaderCommit args)\<rparr>
                  else rf)
          }
        })"

subsection \<open>Snapshots between peers\<close>

definition sendSnapshotToPeer :: "int \<Rightarrow> 'c raft \<Rightarrow> 'c InstallSnapshotArgs option" where
  "sendSnapshotToPeer term rf =
     (if role rf \<noteq> Leader \<or> currentTerm rf \<noteq> term then None
      else Some \<lparr>is_Term = currentTerm rf, is_LeaderID = me rf,
                 is_LastIncludedIndex = lastIncludedIndex rf,
                 is_LastIncludedTerm = lastIncludedTerm rf,
                 is_Data = Mem_ReadSnapshot (persister rf)\<rparr>)"

definition handleSnapshotReply ::
  "clock \<Rightarrow> nat \<Rightarrow> int \<Rightarrow> 'c InstallSnapshotArgs \<Rightarrow> InstallSnapshotReply \<Rightarrow> 'c raft \<Rightarrow>
   'c raft option" where
  "handleSnapshotReply ck peerIdx term args reply rf =
     (if role rf \<noteq> Leader \<or> currentTerm rf \<noteq> term then Some rf
      else if isr_Term reply > currentTerm rf then Some (stepDown ck (isr_Term reply) rf)
      else do {
        mi \<leftarrow> go_index (matchIndex rf) (int peerIdx);
        let mi = (if is_LastIncludedIndex args > mi then is_LastIncludedIndex args else mi);
        mis \<leftarrow> go_update (matchIndex rf) (int peerIdx) mi;
        nis \<leftarrow> go_update (nextIndex rf) (int peerIdx) (mi + 1);
        Some (rf\<lparr>matchIndex := mis, nextIndex := nis\<rparr>)
      })"

definition InstallSnapshot ::
  "clock \<Rightarrow> 'c InstallSnapshotArgs \<Rightarrow> 'c raft \<Rightarrow> (InstallSnapshotReply \<times> 'c raft) option" where
  "InstallSnapshot ck args rf =
     (let reply = \<lparr>isr_Term = currentTerm rf\<rparr> in
      if is_Term args < currentTerm rf then Some (reply, rf)
      else
        let rf = observeTerm ck (is_Term args) rf in
        if is_LastIncludedIndex args \<le> lastIncludedIndex rf then Some (reply, rf)
        else do {
          let lastLogIdx = getLastLogIndex rf;
          same \<leftarrow> (if is_LastIncludedIndex args \<le> lastLogIdx
                   then do { t \<leftarrow> getLogTerm (is_LastIncludedIndex args) rf;
                             Some (t = is_LastIncludedTerm args) }
                   else Some False);
          let dummy = dummyEntry (is_LastIncludedTerm args) (is_LastIncludedIndex args);
          lg \<leftarrow> (if same
                 then do { lg \<leftarrow> go_drop (rlog rf) (is_LastIncludedIndex args - lastIncludedIndex rf);
                           go_update lg 0 dummy }
                 else Some [dummy]);
          let rf = rf\<lparr>rlog := lg, lastIncludedIndex := is_LastIncludedIndex args,
                      lastIncludedTerm := is_LastIncludedTerm args,
                      commitIndex := (if commitIndex rf < is_LastIncludedIndex args
                                      then is_LastIncludedIndex args else commitIndex rf),
                      lastApplied := (if lastApplied rf < is_LastIncludedIndex args
                                      then is_LastIncludedIndex args else lastApplied rf)\<rparr>;
          Some (reply,
            rf\<lparr>persister := Mem_Save (serializeState rf) (is_Data args) (persister rf),
               pendingSnapshot := is_Data args,
               pendingSnapshotIndex := is_LastIncludedIndex args,
               pendingSnapshotTerm := is_LastIncludedTerm args,
               pendingSnapshotValid := True\<rparr>)
        })"

subsection \<open>The applier\<close>

text \<open>\<open>for rf.lastApplied < rf.commitIndex\<close>: the messages to send, in order.\<close>

function applyLoop :: "'c raft \<Rightarrow> ('c ApplyMsg list \<times> 'c raft) option" where
  "applyLoop rf =
     (if lastApplied rf < commitIndex rf then
        let rf = rf\<lparr>lastApplied := lastApplied rf + 1\<rparr>; idx = lastApplied rf in
        if idx \<le> lastIncludedIndex rf then applyLoop rf
        else do {
          entry \<leftarrow> getLogEntry idx rf;
          (msgs, rf') \<leftarrow> applyLoop rf;
          Some (CommandMsg (le_Command entry) idx # msgs, rf')
        }
      else Some ([], rf))"
  by pat_completeness auto
termination
  by (relation "measure (\<lambda>rf. nat (commitIndex rf - lastApplied rf))") auto

declare applyLoop.simps [simp del]

text \<open>The wait of the applier is over.\<close>

definition applier_ready :: "'c raft \<Rightarrow> bool" where
  "applier_ready rf \<longleftrightarrow> \<not> dead rf \<and> (commitIndex rf > lastApplied rf \<or> pendingSnapshotValid rf)"

definition applier :: "'c raft \<Rightarrow> ('c ApplyMsg list \<times> 'c raft) option" where
  "applier rf =
     (if \<not> applier_ready rf then Some ([], rf)
      else if pendingSnapshotValid rf then
        Some ([SnapshotMsg (pendingSnapshot rf) (pendingSnapshotTerm rf) (pendingSnapshotIndex rf)],
              rf\<lparr>pendingSnapshotValid := False, pendingSnapshot := None\<rparr>)
      else applyLoop rf)"

end
