(* ===== verification/RSM.thy ===== *)
theory RSM
  imports ShardGroup RaftReplication "HOL-Library.AList" "HOL-Library.Sublist"
begin

section \<open>The replicated state machine (internal/rsm/rsm.go)\<close>

text \<open>
  \<open>Submit\<close> proposes an operation and waits on a channel that \<open>reader\<close> fills when the operation at
  the proposed index is applied. The critical sections and channel operations are separate steps,
  so that they can interleave as the goroutines do: \<open>Start\<close>, the registration of the channel, and
  the two branches of the \<open>select\<close>. A channel of capacity one is a cell of a heap of channels;
  \<open>notify\<close> maps an index to the address of a cell, as an association list.
  The state machine is given by its three operations.
\<close>

type_synonym sub_result = "int \<times> result"      \<comment> \<open>\<open>SubResult\<close>: id and reply\<close>

record 's rsm =
  rsm_sm :: 's
  rsm_maxraftstate :: int
  rsm_lastApplied :: int
  rsm_notify :: "(int \<times> nat) list"
  rsm_chans :: "sub_result option list"

definition RSM_New :: "'s \<Rightarrow> int \<Rightarrow> 's rsm" where
  "RSM_New sm maxraftstate = \<lparr>rsm_sm = sm, rsm_maxraftstate = maxraftstate, rsm_lastApplied = 0,
     rsm_notify = [], rsm_chans = []\<rparr>"

subsection \<open>Submit\<close>

record pending =
  pd_id :: int
  pd_index :: int
  pd_term :: int

text \<open>\<open>i\<close> is the identifier \<open>rand.Int63()\<close> drew; \<open>None\<close> is the nil Raft peer.\<close>

definition Submit_start ::
  "int \<Rightarrow> payload \<Rightarrow> Op raft option \<Rightarrow> (string + pending) \<times> Op raft option" where
  "Submit_start i op rf =
     (case rf of
        None \<Rightarrow> (Inl ''rsm: no raft peer'', None)
      | Some rf \<Rightarrow>
          (case Start \<lparr>op_ID = i, op_Payload = op\<rparr> rf of ((index, term, isLeader), rf) \<Rightarrow>
             if \<not> isLeader then (Inl ''rsm: not leader'', Some rf)
             else (Inr \<lparr>pd_id = i, pd_index = index, pd_term = term\<rparr>, Some rf)))"

definition Submit_register :: "pending \<Rightarrow> 's rsm \<Rightarrow> nat \<times> 's rsm" where
  "Submit_register p r =
     (let ch = length (rsm_chans r) in
      (ch, r\<lparr>rsm_chans := rsm_chans r @ [None],
             rsm_notify := AList.update (pd_index p) ch (rsm_notify r)\<rparr>))"

text \<open>The deferred \<open>delete(r.notify, index)\<close> of a returning call.\<close>

definition Submit_leave :: "pending \<Rightarrow> 's rsm \<Rightarrow> 's rsm" where
  "Submit_leave p r = r\<lparr>rsm_notify := AList.delete (pd_index p) (rsm_notify r)\<rparr>"

text \<open>\<open>case res := <-ch\<close>; \<open>None\<close> when the channel is empty and the branch cannot be taken.\<close>

definition Submit_receive :: "pending \<Rightarrow> nat \<Rightarrow> 's rsm \<Rightarrow> ((string + result) \<times> 's rsm) option" where
  "Submit_receive p ch r =
     (case rsm_chans r ! ch of
        None \<Rightarrow> None
      | Some (i, rep) \<Rightarrow>
          Some (if i = pd_id p then Inr rep else Inl ''rsm: leadership lost during replication'',
                Submit_leave p (r\<lparr>rsm_chans := (rsm_chans r)[ch := None]\<rparr>)))"

text \<open>\<open>case <-ticker.C\<close>; \<open>None\<close> when the loop goes on.\<close>

definition Submit_tick :: "pending \<Rightarrow> Op raft \<Rightarrow> 's rsm \<Rightarrow> ((string + result) \<times> 's rsm) option" where
  "Submit_tick p rf r =
     (case GetState rf of (term, isLeader) \<Rightarrow>
        if \<not> isLeader \<or> term \<noteq> pd_term p then Some (Inl ''rsm: leadership lost'', Submit_leave p r)
        else None)"

subsection \<open>The reader\<close>

text \<open>A non-blocking send: a full channel is left alone.\<close>

definition trySend :: "sub_result \<Rightarrow> nat \<Rightarrow> 's rsm \<Rightarrow> 's rsm" where
  "trySend res ch r =
     (if rsm_chans r ! ch = None then r\<lparr>rsm_chans := (rsm_chans r)[ch := Some res]\<rparr> else r)"

definition notifyAll :: "(int \<Rightarrow> bool) \<Rightarrow> 's rsm \<Rightarrow> 's rsm" where
  "notifyAll P r = fold (\<lambda>(idx, ch) r. if P idx then trySend (-1, NilRep) ch r else r) (rsm_notify r) r"

definition reader_command ::
  "(payload \<Rightarrow> 's \<Rightarrow> (result \<times> 's) option) \<Rightarrow> ('s \<Rightarrow> Op bytes) \<Rightarrow> (Op bytes \<Rightarrow> int) \<Rightarrow>
   Op \<Rightarrow> int \<Rightarrow> 's rsm \<times> Op raft \<Rightarrow> ('s rsm \<times> Op raft) option" where
  "reader_command doop snapshot blen op idx st = (case st of (r, rf) \<Rightarrow> do {
     (rep, sm) \<leftarrow> doop (op_Payload op) (rsm_sm r);
     let r = r\<lparr>rsm_sm := sm, rsm_lastApplied := idx\<rparr>;
     let r = (case map_of (rsm_notify r) idx of None \<Rightarrow> r | Some ch \<Rightarrow> trySend (op_ID op, rep) ch r);
     if rsm_maxraftstate r \<noteq> -1 \<and> PersistBytes blen rf \<ge> rsm_maxraftstate r
     then do { rf \<leftarrow> Raft_Snapshot idx (Some (snapshot (rsm_sm r))) rf; Some (r, rf) }
     else Some (r, rf)
   })"

definition reader_snapshot ::
  "(Op bytes \<Rightarrow> 's \<Rightarrow> 's option) \<Rightarrow> Op bytes option \<Rightarrow> int \<Rightarrow> 's rsm \<times> Op raft \<Rightarrow>
   ('s rsm \<times> Op raft) option" where
  "reader_snapshot restore d idx st = (case st of (r, rf) \<Rightarrow>
     if idx > rsm_lastApplied r then do {
       sm \<leftarrow> restore (slice d) (rsm_sm r);
       Some (notifyAll (\<lambda>i. i \<le> idx) (r\<lparr>rsm_sm := sm, rsm_lastApplied := idx\<rparr>), rf)
     } else Some (r, rf))"

text \<open>One message of \<open>applyCh\<close>; a command that is not an \<open>Op\<close> is skipped.\<close>

definition reader_msg ::
  "(payload \<Rightarrow> 's \<Rightarrow> (result \<times> 's) option) \<Rightarrow> ('s \<Rightarrow> Op bytes) \<Rightarrow> (Op bytes \<Rightarrow> 's \<Rightarrow> 's option) \<Rightarrow>
   (Op bytes \<Rightarrow> int) \<Rightarrow> Op ApplyMsg \<Rightarrow> 's rsm \<times> Op raft \<Rightarrow> ('s rsm \<times> Op raft) option" where
  "reader_msg doop snapshot restore blen msg st =
     (case msg of
        CommandMsg cmd idx \<Rightarrow>
          (case cmd of None \<Rightarrow> Some st | Some op \<Rightarrow> reader_command doop snapshot blen op idx st)
      | SnapshotMsg d term idx \<Rightarrow> reader_snapshot restore d idx st)"

fun reader_msgs ::
  "(payload \<Rightarrow> 's \<Rightarrow> (result \<times> 's) option) \<Rightarrow> ('s \<Rightarrow> Op bytes) \<Rightarrow> (Op bytes \<Rightarrow> 's \<Rightarrow> 's option) \<Rightarrow>
   (Op bytes \<Rightarrow> int) \<Rightarrow> Op ApplyMsg list \<Rightarrow> 's rsm \<times> Op raft \<Rightarrow> ('s rsm \<times> Op raft) option" where
  "reader_msgs doop snapshot restore blen [] st = Some st"
| "reader_msgs doop snapshot restore blen (m # ms) st = do {
     st \<leftarrow> reader_msg doop snapshot restore blen m st;
     reader_msgs doop snapshot restore blen ms st
   }"

text \<open>After \<open>applyCh\<close> is closed, every waiting call is told that leadership is lost.\<close>

definition reader_end :: "'s rsm \<Rightarrow> 's rsm" where
  "reader_end r = notifyAll (\<lambda>_. True) r"

subsection \<open>Frames\<close>

lemma trySend_fields [simp]:
  "rsm_sm (trySend x ch r) = rsm_sm r" "rsm_lastApplied (trySend x ch r) = rsm_lastApplied r"
  "rsm_notify (trySend x ch r) = rsm_notify r" "rsm_maxraftstate (trySend x ch r) = rsm_maxraftstate r"
  "length (rsm_chans (trySend x ch r)) = length (rsm_chans r)"
  by (simp_all add: trySend_def)

lemma trySend_at: "rsm_chans (trySend x ch r) ! c =
    (if c = ch \<and> c < length (rsm_chans r) \<and> rsm_chans r ! c = None then Some x else rsm_chans r ! c)"
  by (cases "c = ch"; cases "c < length (rsm_chans r)") (auto simp: trySend_def list_update_beyond)

lemma fold_trySend:
  fixes r :: "'s rsm"
  defines "f \<equiv> \<lambda>P. \<lambda>(idx :: int, ch) (r :: 's rsm). if P idx then trySend (-1, NilRep) ch r else r"
  shows "rsm_sm (fold (f P) ns r) = rsm_sm r" "rsm_lastApplied (fold (f P) ns r) = rsm_lastApplied r"
    "rsm_notify (fold (f P) ns r) = rsm_notify r"
    "rsm_maxraftstate (fold (f P) ns r) = rsm_maxraftstate r"
    "length (rsm_chans (fold (f P) ns r)) = length (rsm_chans r)"
    "rsm_chans (fold (f P) ns r) ! c = rsm_chans r ! c \<or>
       rsm_chans (fold (f P) ns r) ! c = Some (-1, NilRep)"
proof -
  have "rsm_sm (fold (f P) ns r) = rsm_sm r \<and> rsm_lastApplied (fold (f P) ns r) = rsm_lastApplied r \<and>
    rsm_notify (fold (f P) ns r) = rsm_notify r \<and>
    rsm_maxraftstate (fold (f P) ns r) = rsm_maxraftstate r \<and>
    length (rsm_chans (fold (f P) ns r)) = length (rsm_chans r) \<and>
    (rsm_chans (fold (f P) ns r) ! c = rsm_chans r ! c \<or>
       rsm_chans (fold (f P) ns r) ! c = Some (-1, NilRep))"
  proof (induction ns arbitrary: r)
    case (Cons n ns)
    obtain i ch where n: "n = (i, ch)" by (cases n)
    show ?case using Cons.IH [of "f P n r"] by (auto simp: n f_def trySend_at)
  qed simp
  then show "rsm_sm (fold (f P) ns r) = rsm_sm r" "rsm_lastApplied (fold (f P) ns r) = rsm_lastApplied r"
    "rsm_notify (fold (f P) ns r) = rsm_notify r"
    "rsm_maxraftstate (fold (f P) ns r) = rsm_maxraftstate r"
    "length (rsm_chans (fold (f P) ns r)) = length (rsm_chans r)"
    "rsm_chans (fold (f P) ns r) ! c = rsm_chans r ! c \<or>
       rsm_chans (fold (f P) ns r) ! c = Some (-1, NilRep)"
    by blast+
qed

lemma notifyAll_fields [simp]:
  "rsm_sm (notifyAll P r) = rsm_sm r" "rsm_lastApplied (notifyAll P r) = rsm_lastApplied r"
  "rsm_notify (notifyAll P r) = rsm_notify r" "rsm_maxraftstate (notifyAll P r) = rsm_maxraftstate r"
  "length (rsm_chans (notifyAll P r)) = length (rsm_chans r)"
  unfolding notifyAll_def by (rule fold_trySend)+

lemma notifyAll_at:
  "rsm_chans (notifyAll P r) ! c = rsm_chans r ! c \<or> rsm_chans (notifyAll P r) ! c = Some (-1, NilRep)"
  unfolding notifyAll_def by (rule fold_trySend)

lemma reader_command_cases:
  assumes "reader_command doop snapshot blen op idx (r, rf) = Some (r', rf')"
  obtains rep where "doop (op_Payload op) (rsm_sm r) = Some (rep, rsm_sm r')"
    and "rsm_lastApplied r' = idx" and "rsm_notify r' = rsm_notify r"
    and "length (rsm_chans r') = length (rsm_chans r)"
    and "\<And>c. rsm_chans r' ! c = rsm_chans r ! c \<or> rsm_chans r' ! c = Some (op_ID op, rep) \<and>
      map_of (rsm_notify r) idx = Some c"
    and "rsm_maxraftstate r' = rsm_maxraftstate r"
    and "\<And>c. map_of (rsm_notify r) idx = Some c \<Longrightarrow> c < length (rsm_chans r) \<Longrightarrow>
      rsm_chans r ! c = None \<Longrightarrow> rsm_chans r' ! c = Some (op_ID op, rep)"
    and "rf' = rf \<or> Raft_Snapshot idx (Some (snapshot (rsm_sm r'))) rf = Some rf'"
proof -
  obtain rep sm where d: "doop (op_Payload op) (rsm_sm r) = Some (rep, sm)"
    using assms by (auto simp: reader_command_def split: Option.bind_splits)
  let ?r = "r\<lparr>rsm_sm := sm, rsm_lastApplied := idx\<rparr>"
  let ?r' = "case map_of (rsm_notify r) idx of None \<Rightarrow> ?r | Some ch \<Rightarrow> trySend (op_ID op, rep) ch ?r"
  have "r' = ?r'" "rf' = rf \<or> Raft_Snapshot idx (Some (snapshot (rsm_sm r'))) rf = Some rf'"
    using assms d by (auto simp: reader_command_def Let_def split: Option.bind_splits if_splits)
  with d that [of rep] show ?thesis by (cases "map_of (rsm_notify r) idx") (auto simp: trySend_at)
qed

subsection \<open>What Submit may answer\<close>

text \<open>
  Every interleaving of the steps above on one RSM, with whatever messages arrive. \<open>H\<close> collects the
  operations applied: index, operation and the reply of \<open>DoOp\<close> (history).
\<close>

inductive rsm_run ::
  "(payload \<Rightarrow> 's \<Rightarrow> (result \<times> 's) option) \<Rightarrow> ('s \<Rightarrow> Op bytes) \<Rightarrow> (Op bytes \<Rightarrow> 's \<Rightarrow> 's option) \<Rightarrow>
   (Op bytes \<Rightarrow> int) \<Rightarrow> 's rsm \<Rightarrow> (int \<times> Op \<times> result) set \<Rightarrow> bool"
  for doop :: "payload \<Rightarrow> 's \<Rightarrow> (result \<times> 's) option" and snapshot restore blen where
  new: "rsm_run doop snapshot restore blen (RSM_New sm k) {}"
| register: "rsm_run doop snapshot restore blen r H \<Longrightarrow>
    rsm_run doop snapshot restore blen (snd (Submit_register p r)) H"
| receive: "\<lbrakk>rsm_run doop snapshot restore blen r H; Submit_receive p ch r = Some (ans, r')\<rbrakk> \<Longrightarrow>
    rsm_run doop snapshot restore blen r' H"
| tick: "\<lbrakk>rsm_run doop snapshot restore blen r H; Submit_tick p rf r = Some (ans, r')\<rbrakk> \<Longrightarrow>
    rsm_run doop snapshot restore blen r' H"
| command: "\<lbrakk>rsm_run doop snapshot restore blen r H;
     reader_command doop snapshot blen op idx (r, rf) = Some (r', rf');
     doop (op_Payload op) (rsm_sm r) = Some (rep, sm)\<rbrakk> \<Longrightarrow>
    rsm_run doop snapshot restore blen r' (insert (idx, op, rep) H)"
| restored: "\<lbrakk>rsm_run doop snapshot restore blen r H;
     reader_snapshot restore d idx (r, rf) = Some (r', rf')\<rbrakk> \<Longrightarrow>
    rsm_run doop snapshot restore blen r' H"
| closed: "rsm_run doop snapshot restore blen r H \<Longrightarrow>
    rsm_run doop snapshot restore blen (reader_end r) H"

text \<open>A filled channel holds the failure value or the reply of an operation that was applied.\<close>

definition answers_ok :: "(int \<times> Op \<times> result) set \<Rightarrow> 's rsm \<Rightarrow> bool" where
  "answers_ok H r \<longleftrightarrow>
     (\<forall>c<length (rsm_chans r). \<forall>i rep. rsm_chans r ! c = Some (i, rep) \<longrightarrow>
        i = -1 \<or> (\<exists>idx op. (idx, op, rep) \<in> H \<and> op_ID op = i)) \<and>
     (\<forall>idx ch. map_of (rsm_notify r) idx = Some ch \<longrightarrow> ch < length (rsm_chans r))"

lemma answers_okD:
  "answers_ok H r \<Longrightarrow> c < length (rsm_chans r) \<Longrightarrow> rsm_chans r ! c = Some (i, rep) \<Longrightarrow> i \<noteq> -1 \<Longrightarrow>
     \<exists>idx op. (idx, op, rep) \<in> H \<and> op_ID op = i"
  unfolding answers_ok_def by blast

lemma answers_ok_mono: "answers_ok H r \<Longrightarrow> H \<subseteq> H' \<Longrightarrow> answers_ok H' r"
  unfolding answers_ok_def by blast

lemma answers_ok_New [simp]: "answers_ok H (RSM_New sm k)"
  by (simp add: answers_ok_def RSM_New_def)

lemma answers_ok_register: "answers_ok H r \<Longrightarrow> answers_ok H (snd (Submit_register p r))"
  by (auto simp: answers_ok_def Submit_register_def Let_def nth_append update_conv' less_Suc_eq split: if_splits)

lemma answers_ok_leave: "answers_ok H r \<Longrightarrow> answers_ok H (Submit_leave p r)"
  by (auto simp: answers_ok_def Submit_leave_def AList.delete_conv' restrict_map_def split: if_splits)

lemma answers_ok_receive:
  assumes "answers_ok H r" and "Submit_receive p ch r = Some (ans, r')"
  shows "answers_ok H r'"
proof -
  have "(rsm_chans r)[ch := None] ! c = (if c = ch then None else rsm_chans r ! c)"
    if "c < length (rsm_chans r)" for c
    using that by simp
  then have "answers_ok H (r\<lparr>rsm_chans := (rsm_chans r)[ch := None]\<rparr>)"
    using assms(1) by (auto simp: answers_ok_def split: if_splits)
  with assms(2) show ?thesis by (auto simp: Submit_receive_def intro: answers_ok_leave split: option.splits)
qed

lemma answers_ok_tick: "answers_ok H r \<Longrightarrow> Submit_tick p rf r = Some (ans, r') \<Longrightarrow> answers_ok H r'"
  by (auto simp: Submit_tick_def intro: answers_ok_leave split: prod.splits if_splits)

text \<open>Channels that are filled with the failure value, or with a reply that is recorded.\<close>

lemma answers_ok_filled:
  assumes "answers_ok H r" and "rsm_notify r' = rsm_notify r" and "length (rsm_chans r') = length (rsm_chans r)"
    and "\<And>c. rsm_chans r' ! c = rsm_chans r ! c \<or> rsm_chans r' ! c = Some x"
    and "fst x = -1 \<or> (\<exists>idx op. (idx, op, snd x) \<in> H \<and> op_ID op = fst x)"
  shows "answers_ok H r'"
  using assms unfolding answers_ok_def by (metis fst_conv option.inject snd_conv)

lemma answers_ok_notify: "answers_ok H r \<Longrightarrow> answers_ok H (notifyAll P r)"
  by (rule answers_ok_filled [where x = "(-1, NilRep)"]) (use notifyAll_at in auto)

lemma answers_ok_end: "answers_ok H r \<Longrightarrow> answers_ok H (reader_end r)"
  unfolding reader_end_def by (rule answers_ok_notify)

lemma answers_ok_command:
  assumes "answers_ok H r" and rd: "reader_command doop snapshot blen op idx (r, rf) = Some (r', rf')"
    and "doop (op_Payload op) (rsm_sm r) = Some (rep, sm)"
  shows "answers_ok (insert (idx, op, rep) H) r'"
proof (rule reader_command_cases [OF rd])
  fix rep'
  assume a: "doop (op_Payload op) (rsm_sm r) = Some (rep', rsm_sm r')" "rsm_notify r' = rsm_notify r"
    "length (rsm_chans r') = length (rsm_chans r)"
    "\<And>c. rsm_chans r' ! c = rsm_chans r ! c \<or> rsm_chans r' ! c = Some (op_ID op, rep') \<and>
      map_of (rsm_notify r) idx = Some c"
  have "answers_ok (insert (idx, op, rep) H) r" by (rule answers_ok_mono [OF assms(1)]) blast
  then show ?thesis
    by (rule answers_ok_filled [OF _ a(2,3), where x = "(op_ID op, rep')"]) (use a(1,4) assms(3) in auto)
qed

lemma answers_ok_snapshot:
  assumes "answers_ok H r" and "reader_snapshot restore d idx (r, rf) = Some (r', rf')"
  shows "answers_ok H r'"
proof -
  have "r' = r \<or> (\<exists>sm. r' = notifyAll (\<lambda>i. i \<le> idx) (r\<lparr>rsm_sm := sm, rsm_lastApplied := idx\<rparr>))"
    using assms(2) by (auto simp: reader_snapshot_def split: if_splits Option.bind_splits)
  moreover have "answers_ok H (r\<lparr>rsm_sm := sm, rsm_lastApplied := idx\<rparr>)" for sm
    using assms(1) by (simp add: answers_ok_def)
  ultimately show ?thesis using assms(1) answers_ok_notify by auto
qed

lemma rsm_run_answers: "rsm_run doop snapshot restore blen r H \<Longrightarrow> answers_ok H r"
  by (induction rule: rsm_run.induct)
     (auto intro: answers_ok_register answers_ok_receive answers_ok_tick answers_ok_command
        answers_ok_snapshot answers_ok_end)

lemma reader_snapshot_cases:
  assumes "reader_snapshot restore d idx (r, rf) = Some (r', rf')"
  obtains (old) "idx \<le> rsm_lastApplied r" and "r' = r" and "rf' = rf"
  | (restored) "rsm_lastApplied r < idx" and "restore (slice d) (rsm_sm r) = Some (rsm_sm r')"
      and "rsm_lastApplied r' = idx" and "rf' = rf"
  using assms by (auto simp: reader_snapshot_def split: if_splits Option.bind_splits)

subsection \<open>The reader applies the log in order\<close>

text \<open>
  \<open>follows\<close>: messages that follow a committed history \<open>h\<close> after its first \<open>k\<close> operations. Each command
  is the next operation, and a snapshot holds the state after the first \<open>i\<close> operations. The
  refinement: whatever mixture of commands and snapshots a replica is sent, its state machine is
  in the state that the prefix of \<open>h\<close> up to \<open>lastApplied\<close> computes.
\<close>

fun reached :: "int \<Rightarrow> 'c ApplyMsg list \<Rightarrow> int" where
  "reached k [] = k"
| "reached k (CommandMsg c i # ms) = reached i ms"
| "reached k (SnapshotMsg d t i # ms) = reached (max k i) ms"

context state_machine
begin

definition after :: "Op list \<Rightarrow> 's \<Rightarrow> int \<Rightarrow> 's option" where
  "after h s0 k = run_ops doop (map op_Payload (take (nat k) h)) s0"

fun follows :: "Op list \<Rightarrow> 's \<Rightarrow> int \<Rightarrow> Op ApplyMsg list \<Rightarrow> bool" where
  "follows h s0 k [] \<longleftrightarrow> True"
| "follows h s0 k (CommandMsg c i # ms) \<longleftrightarrow>
     i = k + 1 \<and> nat k < length h \<and> c = Some (h ! nat k) \<and> follows h s0 i ms"
| "follows h s0 k (SnapshotMsg d t i # ms) \<longleftrightarrow>
     0 \<le> i \<and> nat i \<le> length h \<and>
     (\<exists>m. after h s0 i = Some m \<and> slice d = snapshot m) \<and> follows h s0 (max k i) ms"

lemma after_Suc:
  assumes "0 \<le> k" and "nat k < length h" and "after h s0 k = Some m"
    and "doop (op_Payload (h ! nat k)) m = Some (rep, m')"
  shows "after h s0 (k + 1) = Some m'"
proof -
  have "nat (k + 1) = Suc (nat k)" using assms(1) by simp
  then have "take (nat (k + 1)) h = take (nat k) h @ [h ! nat k]"
    using assms(2) by (simp add: take_Suc_conv_app_nth)
  with assms(3,4) show ?thesis by (simp add: after_def run_ops_append)
qed

lemma after_wf: "wf s0 \<Longrightarrow> after h s0 k = Some m \<Longrightarrow> wf m"
  unfolding after_def by (rule run_wf)

lemma after_peer: "wf s0 \<Longrightarrow> after h s0 k = Some m \<Longrightarrow> peer s0 t \<Longrightarrow> peer m t"
  unfolding after_def by (rule run_peer)

text \<open>The index reached by a message: commands come in order, an old snapshot is passed over.\<close>

lemma follows_append:
  "follows h s0 k (ms @ ns) \<longleftrightarrow> follows h s0 k ms \<and> follows h s0 (reached k ms) ns"
  by (induction h s0 k ms rule: follows.induct) auto

lemma follows_reached: "follows h s0 k ms \<Longrightarrow> k \<le> reached k ms"
  by (induction h s0 k ms rule: follows.induct) auto

lemma follows_mono:
  assumes "prefix h h'" and "follows h s0 k ms"
  shows "follows h' s0 k ms"
proof -
  obtain zs where z: "h' = h @ zs" using assms(1) by (auto simp: prefix_def)
  have "follows h s0 k ms \<Longrightarrow> follows (h @ zs) s0 k ms"
    by (induction h s0 k ms rule: follows.induct) (auto simp: nth_append after_def)
  with assms(2) z show ?thesis by simp
qed

lemma after_mono: "prefix h h' \<Longrightarrow> nat k \<le> length h \<Longrightarrow> after h' s0 k = after h s0 k"
  by (auto simp: prefix_def after_def)

lemma follows_commands:
  assumes "0 \<le> a" and "nat b \<le> length h" and "\<And>i. a < i \<Longrightarrow> i \<le> b \<Longrightarrow> c i = Some (h ! nat (i - 1))"
  shows "follows h s0 a (map (\<lambda>i. CommandMsg (c i) i) [a + 1..b])"
    and "reached a (map (\<lambda>i. CommandMsg (c i) i) [a + 1..b]) = max a b"
proof -
  have "follows h s0 a (map (\<lambda>i. CommandMsg (c i) i) [a + 1..b]) \<and>
    reached a (map (\<lambda>i. CommandMsg (c i) i) [a + 1..b]) = max a b"
    using assms(1,3)
  proof (induction "nat (b - a)" arbitrary: a)
    case 0
    then show ?case by simp
  next
    case (Suc m)
    then have ab: "a < b" by simp
    from Suc.hyps(2) have "m = nat (b - (a + 1))" by simp
    from Suc.hyps(1) [OF this] Suc.prems have "follows h s0 (a + 1) (map (\<lambda>i. CommandMsg (c i) i) [a + 1 + 1..b]) \<and>
      reached (a + 1) (map (\<lambda>i. CommandMsg (c i) i) [a + 1 + 1..b]) = max (a + 1) b"
      by simp
    with ab Suc.prems(1) Suc.prems(2) [of "a + 1"] assms(2) upto_rec1 [of "a + 1" b]
    show ?case by (simp add: max_def)
  qed
  then show "follows h s0 a (map (\<lambda>i. CommandMsg (c i) i) [a + 1..b])"
    "reached a (map (\<lambda>i. CommandMsg (c i) i) [a + 1..b]) = max a b" by simp_all
qed

text \<open>A replica that is in step with the history stays so with every message, and a compaction saves
  the state of the history at the index it names.\<close>

definition in_step :: "Op list \<Rightarrow> 's \<Rightarrow> 's rsm \<Rightarrow> bool" where
  "in_step h s0 r \<longleftrightarrow> 0 \<le> rsm_lastApplied r \<and> nat (rsm_lastApplied r) \<le> length h \<and>
     after h s0 (rsm_lastApplied r) = Some (rsm_sm r)"

lemma reader_msg_in_step:
  assumes "wf s0" and "follows h s0 (rsm_lastApplied r) (m # ms)" and "in_step h s0 r"
    and st: "reader_msg doop snapshot restore blen m (r, rf) = Some (r', rf')"
  shows "in_step h s0 r'" and "rsm_lastApplied r' = reached (rsm_lastApplied r) [m]"
    and "rf' = rf \<or> Raft_Snapshot (rsm_lastApplied r') (Some (snapshot (rsm_sm r'))) rf = Some rf'"
proof -
  from assms(3) have r: "0 \<le> rsm_lastApplied r" "after h s0 (rsm_lastApplied r) = Some (rsm_sm r)"
    by (simp_all add: in_step_def)
  have "in_step h s0 r' \<and> rsm_lastApplied r' = reached (rsm_lastApplied r) [m] \<and>
    (rf' = rf \<or> Raft_Snapshot (rsm_lastApplied r') (Some (snapshot (rsm_sm r'))) rf = Some rf')"
  proof (cases m)
    case (CommandMsg c i)
    with assms(2) have i: "i = rsm_lastApplied r + 1" "nat (rsm_lastApplied r) < length h"
      "c = Some (h ! nat (rsm_lastApplied r))" by auto
    from st CommandMsg i(3)
    have "reader_command doop snapshot blen (h ! nat (rsm_lastApplied r)) i (r, rf) = Some (r', rf')"
      by (simp add: reader_msg_def)
    then obtain rep where d: "doop (op_Payload (h ! nat (rsm_lastApplied r))) (rsm_sm r) = Some (rep, rsm_sm r')"
      "rsm_lastApplied r' = i"
      "rf' = rf \<or> Raft_Snapshot i (Some (snapshot (rsm_sm r'))) rf = Some rf'"
      by (rule reader_command_cases)
    have "after h s0 i = Some (rsm_sm r')"
      using after_Suc [OF r(1) i(2) r(2) d(1)] i(1) by simp
    with d i r(1) CommandMsg show ?thesis by (simp add: in_step_def)
  next
    case (SnapshotMsg d t i)
    with assms(2) obtain m0 where i: "0 \<le> i" "nat i \<le> length h" "after h s0 i = Some m0" "slice d = snapshot m0"
      by auto
    from st SnapshotMsg have "reader_snapshot restore d i (r, rf) = Some (r', rf')"
      by (simp add: reader_msg_def)
    then show ?thesis
    proof (cases rule: reader_snapshot_cases)
      case old
      with assms(3) SnapshotMsg show ?thesis by (auto simp: max_def)
    next
      case restored
      have "peer m0 (rsm_sm r)"
        using after_peer [OF assms(1) i(3)] after_peer [OF assms(1) r(2) peer_refl] peer_sym
        by blast
      then have "restore (snapshot m0) (rsm_sm r) = Some m0"
        using restore_snapshot after_wf [OF assms(1) i(3)] by blast
      with restored i have "rsm_sm r' = m0" by simp
      with restored i SnapshotMsg show ?thesis by (auto simp: in_step_def max_def)
    qed
  qed
  then show "in_step h s0 r'" and "rsm_lastApplied r' = reached (rsm_lastApplied r) [m]"
    and "rf' = rf \<or> Raft_Snapshot (rsm_lastApplied r') (Some (snapshot (rsm_sm r'))) rf = Some rf'" by blast+
qed

theorem reader_refines:
  assumes "wf s0" and "follows h s0 (rsm_lastApplied r) ms" and "in_step h s0 r"
    and "reader_msgs doop snapshot restore blen ms (r, rf) = Some (r', rf')"
  shows "in_step h s0 r'"
  using assms(2-4)
proof (induction ms arbitrary: r rf)
  case (Cons m ms)
  then obtain r1 rf1 where st: "reader_msg doop snapshot restore blen m (r, rf) = Some (r1, rf1)"
    and rest: "reader_msgs doop snapshot restore blen ms (r1, rf1) = Some (r', rf')"
    by (auto split: Option.bind_splits)
  note s = reader_msg_in_step [OF assms(1) Cons.prems(1,2) st]
  have "follows h s0 (rsm_lastApplied r1) ms"
    using Cons.prems(1) follows_append [of h s0 "rsm_lastApplied r" "[m]" ms] s(2) by simp
  with s(1) rest show ?case by (rule Cons.IH [rotated])
qed simp

end

text \<open>
  The race of \<open>Submit\<close>: a channel registered only after the operation was applied stays empty as
  long as commands with higher indexes are applied, so the call ends by losing leadership only.
\<close>

lemma late_registration:
  assumes "ch < length (rsm_chans r)" and "rsm_chans r ! ch = None"
    and "\<And>idx. map_of (rsm_notify r) idx = Some ch \<Longrightarrow> idx \<le> k" and "k < idx"
    and "reader_command doop snapshot blen op idx (r, rf) = Some (r', rf')"
  shows "rsm_chans r' ! ch = None" and "rsm_notify r' = rsm_notify r"
    and "length (rsm_chans r') = length (rsm_chans r)"
proof -
  have ne: "map_of (rsm_notify r) idx \<noteq> Some ch" using assms(3) [of idx] assms(4) by auto
  show "rsm_chans r' ! ch = None" "rsm_notify r' = rsm_notify r"
    "length (rsm_chans r') = length (rsm_chans r)"
    by (rule reader_command_cases [OF assms(5)]; use assms(2) ne in metis)+
qed

text \<open>A call of \<open>Submit\<close> that leaves takes the channel of a later call at its index away.\<close>

lemma leaving_call_drops_channel:
  assumes "Submit_register p r = (ch, r1)" and "Submit_register q r1 = (ch2, r2)" and "pd_index p = pd_index q"
    and "reader_command doop snapshot blen op (pd_index q) (Submit_leave p r2, rf) = Some (r3, rf')"
  shows "Submit_receive q ch2 r3 = None"
proof -
  have "rsm_chans (Submit_leave p r2) ! ch2 = None"
    using assms(1,2) by (auto simp: Submit_register_def Submit_leave_def Let_def nth_append)
  moreover have "map_of (rsm_notify (Submit_leave p r2)) (pd_index q) = None"
    using assms(3) by (simp add: Submit_leave_def delete_conv)
  ultimately have "rsm_chans r3 ! ch2 = None"
    using reader_command_cases [OF assms(4)] by force
  then show ?thesis by (simp add: Submit_receive_def)
qed

end
