(* ===== verification/ShardProperties.thy ===== *)
theory ShardProperties
  imports ShardCtrlrd RSM
begin

section \<open>Properties of the shard groups, their controller and clients\<close>

text \<open>
  The claims about sharding: the invariant of a group and the errors of its operations, who serves
  a shard during a migration, what a configuration change does over a lossy network, the cases in
  which a migration loses data, the configuration's text and its distribution of shards, and what
  the routing client may answer. The claims about the replicated state machine that runs a group
  are here too.
\<close>

subsection \<open>A shard group\<close>

text \<open>C24: After any operations on a new group the arrays have ten elements, no map is nil and a frozen
  shard is not owned; the configuration number of no shard ever decreases.\<close>

theorem group_invariant:
  assumes "run_ops ShardGroup_DoOp ps (ShardGroup_New gid) = Some sg"
    and "run_ops ShardGroup_DoOp qs sg = Some sg'"
  shows "wf_group sg \<and> wf_group sg' \<and> sg_gid sg' = gid \<and>
    (\<forall>s. valid_shard s \<longrightarrow> 0 \<le> numOf sg s \<and> numOf sg s \<le> numOf sg' s)"
proof -
  have wf: "wf_group sg" using sg_sm.run_wf [OF wf_group_New assms(1)] .
  have "numOf (ShardGroup_New gid) s = 0" if "valid_shard s" for s
    using valid_nat [OF that] by (simp add: ShardGroup_New_def)
  then have "0 \<le> numOf sg s" if "valid_shard s" for s
    using run_num_mono [OF wf_group_New assms(1) that] that by simp
  moreover have "sg_gid sg = gid"
    using sg_sm.run_peer [OF wf_group_New assms(1), of "ShardGroup_New gid"] by (simp add: ShardGroup_New_def)
  ultimately show ?thesis
    using wf sg_sm.run_wf [OF wf assms(2)] sg_sm.run_peer [OF wf assms(2), of sg]
      run_num_mono [OF wf assms(2)] by simp
qed

definition demo_install :: payload where
  "demo_install = InstallOp \<lparr>ia_Shard = 1, ia_ConfigNum = 1, ia_Data = Map.empty\<rparr>"

definition demo_freeze :: payload where
  "demo_freeze = FreezeOp \<lparr>fa_Shard = 1, fa_ConfigNum = 2\<rparr>"

definition demo_group :: ShardGroup where
  "demo_group = withShard 1 Map.empty True False 1 (ShardGroup_New 7)"

definition demo_frozen :: ShardGroup where
  "demo_frozen = withShard 1 Map.empty False True 2 demo_group"

lemma valid_1 [simp]: "valid_shard 1"
  by (simp add: valid_shard_def NShards_def)

lemma demo_group_ok [simp]: "wf_group demo_group" "wf_group demo_frozen"
  by (simp_all add: demo_group_def demo_frozen_def withShard_wf)

lemma New_at [simp]:
  "valid_shard s \<Longrightarrow> mapOf (ShardGroup_New g) s = Map.empty" "valid_shard s \<Longrightarrow> \<not> ownedOf (ShardGroup_New g) s"
  "valid_shard s \<Longrightarrow> numOf (ShardGroup_New g) s = 0"
  using valid_nat [of s] by (auto simp: mapOf_def ShardGroup_New_def)

lemma demo_at [simp]:
  "sg_configNums (ShardGroup_New 7) ! Suc 0 = 0" "mapOf demo_group 1 = Map.empty"
  "sg_owned demo_group ! Suc 0" "sg_configNums demo_group ! Suc 0 = 1"
  "\<not> sg_owned demo_frozen ! Suc 0" "sg_configNums demo_frozen ! Suc 0 = 2"
  using New_at(3) [of 1 7] withShard_at [of "ShardGroup_New 7" 1 1 Map.empty True False 1]
    withShard_at [OF demo_group_ok(1), of 1 1 Map.empty False True 2]
  by (simp_all add: demo_group_def demo_frozen_def)

lemma demo_ops:
  "ShardGroup_DoOp demo_install (ShardGroup_New 7) = Some (InstallRep \<lparr>ir_Err = OK\<rparr>, demo_group)"
  "ShardGroup_DoOp demo_freeze demo_group = Some (FreezeRep \<lparr>fr_Err = OK, fr_Data = Map.empty\<rparr>, demo_frozen)"
  by (simp_all add: ShardGroup_DoOp_def demo_install_def demo_freeze_def doInstall_eq doFreeze_eq Let_def)
    (simp_all add: demo_frozen_def demo_group_def)

lemma shard_Q [simp]: "Key2Shard ''Q'' = 1"
  by (simp add: Key2Shard_def NShards_def)

lemma group_invariant_witness: "wf_group demo_frozen \<and> numOf demo_group 1 \<le> numOf demo_frozen 1"
proof -
  have "wf_group demo_group \<and> wf_group demo_frozen \<and> sg_gid demo_frozen = 7 \<and>
      (\<forall>s. valid_shard s \<longrightarrow> 0 \<le> numOf demo_group s \<and> numOf demo_group s \<le> numOf demo_frozen s)"
    by (rule group_invariant [of "[demo_install]" 7 _ "[demo_freeze]"]) (simp_all add: demo_ops)
  then show ?thesis using valid_1 by blast
qed

text \<open>C33: An operation panics, in any state a group can reach, exactly when it is a migration
  operation with a shard number outside 0..9; every other operation answers.\<close>

theorem group_panics_exactly:
  assumes "run_ops ShardGroup_DoOp ps (ShardGroup_New gid) = Some sg"
  shows "ShardGroup_DoOp p sg = None \<longleftrightarrow>
    (case p of FreezeOp a \<Rightarrow> fa_Shard a < 0 \<or> 10 \<le> fa_Shard a
     | InstallOp a \<Rightarrow> ia_Shard a < 0 \<or> 10 \<le> ia_Shard a
     | DeleteOp a \<Rightarrow> da_Shard a < 0 \<or> 10 \<le> da_Shard a
     | _ \<Rightarrow> False)"
  using DoOp_panics_iff [OF sg_sm.run_wf [OF wf_group_New assms], of p]
  by (cases p) (auto simp: valid_shard_def NShards_def not_le)

lemma group_panics_witness:
  "ShardGroup_DoOp (FreezeOp \<lparr>fa_Shard = 10, fa_ConfigNum = 1\<rparr>) demo_group = None"
  using group_panics_exactly [of "[demo_install]" 7 demo_group "FreezeOp \<lparr>fa_Shard = 10, fa_ConfigNum = 1\<rparr>"]
  by (simp add: demo_ops)

text \<open>No operation of a group answers \<open>ErrFrozen\<close>: a shard that is frozen is not owned, and the
  ownership test comes first, so clients see \<open>ErrWrongGroup\<close>.\<close>

theorem err_frozen_unreachable:
  assumes "run_ops ShardGroup_DoOp ps (ShardGroup_New gid) = Some sg"
    and "ShardGroup_DoOp p sg = Some (r, sg')"
  shows "result_err r \<noteq> Some ErrFrozen"
proof -
  have wf: "wf_group sg" using sg_sm.run_wf [OF wf_group_New assms(1)] .
  have v: "valid_shard (op_shard p)" using DoOp_panics_iff [OF wf, of p] assms(2) by simp
  have "fst (put_view a m) \<noteq> ErrFrozen" for a m using put_view_errs [of a m] by auto
  then show ?thesis
    using assms(2) wf v
    by (cases p) (auto simp: ShardGroup_DoOp_def doOp_eqs Let_def case_prod_beta get_view_def
        split: if_splits option.splits)
qed

lemma err_frozen_witness:
  "result_err (GetRep \<lparr>gr_Err = ErrWrongGroup, gr_Value = [], gr_Version = 0\<rparr>) \<noteq> Some ErrFrozen"
  by (rule err_frozen_unreachable [of "[demo_install, demo_freeze]" 7 demo_frozen
        "GetOp \<lparr>ga_Key = ''Q''\<rparr>" _ demo_frozen])
    (simp_all add: demo_ops, simp add: ShardGroup_DoOp_def doGet_eq)

text \<open>C27: From the freeze of a shard at configuration \<open>c\<close> on, until an install of that shard with a
  number of at least \<open>c\<close>, the group answers \<open>ErrWrongGroup\<close> to every read and write of the shard's
  keys, whatever other operations it executes; and the freeze answered all the data.\<close>

theorem frozen_shard_not_served:
  assumes "wf_group sg" and "valid_shard s" and "numOf sg s \<le> c"
    and "ShardGroup_DoOp (FreezeOp \<lparr>fa_Shard = s, fa_ConfigNum = c\<rparr>) sg = Some (r, sg1)"
    and "run_ops ShardGroup_DoOp ps sg1 = Some sg2" and "\<forall>p\<in>set ps. \<not> installs s c p"
    and "Key2Shard k = s"
  shows "r = FreezeRep \<lparr>fr_Err = OK, fr_Data = mapOf sg s\<rparr> \<and>
    ShardGroup_DoOp (GetOp \<lparr>ga_Key = k\<rparr>) sg2 =
      Some (GetRep \<lparr>gr_Err = ErrWrongGroup, gr_Value = [], gr_Version = 0\<rparr>, sg2) \<and>
    ShardGroup_DoOp (PutOp \<lparr>pa_Key = k, pa_Value = v, pa_Version = n\<rparr>) sg2 =
      Some (PutRep \<lparr>pr_Err = ErrWrongGroup\<rparr>, sg2)"
proof -
  let ?a = "\<lparr>fa_Shard = s, fa_ConfigNum = c\<rparr>"
  have f: "r = FreezeRep \<lparr>fr_Err = OK, fr_Data = mapOf sg s\<rparr>" "\<not> ownedOf sg1 s" "numOf sg1 s = c" "wf_group sg1"
    using freeze_spec [of sg ?a r sg1] assms(1-4) by simp_all
  have "\<not> ownedOf sg2 s"
    by (rule run_not_owned [OF f(4) assms(5,2) f(2)]) (use assms(6) f(3) in simp)
  moreover have "wf_group sg2" using sg_sm.run_wf [OF f(4) assms(5)] .
  ultimately show ?thesis
    using f(1) assms(7) by (simp add: ShardGroup_DoOp_def doGet_eq doPut_eq Let_def case_prod_beta)
qed

lemma frozen_shard_witness:
  "ShardGroup_DoOp (GetOp \<lparr>ga_Key = ''Q''\<rparr>) demo_frozen =
     Some (GetRep \<lparr>gr_Err = ErrWrongGroup, gr_Value = [], gr_Version = 0\<rparr>, demo_frozen)"
  using frozen_shard_not_served [of demo_group 1 2
      "FreezeRep \<lparr>fr_Err = OK, fr_Data = Map.empty\<rparr>" demo_frozen "[]" demo_frozen "''Q''" "[]" 0]
    demo_ops(2)
  by (simp add: demo_freeze_def installs_def)

text \<open>C32: A migration operation whose configuration number is below the highest one the group has
  seen for the shard is refused with \<open>ErrVersion\<close> and changes nothing; one with that very number
  is accepted again.\<close>

theorem old_migration_rejected:
  assumes "wf_group sg" and "valid_shard (op_shard p)" and "op_num p = Some c"
  shows "(c < numOf sg (op_shard p) \<longrightarrow> (\<exists>r. ShardGroup_DoOp p sg = Some (r, sg) \<and> result_err r = Some ErrVersion)) \<and>
    (numOf sg (op_shard p) \<le> c \<longrightarrow> (\<exists>r sg'. ShardGroup_DoOp p sg = Some (r, sg') \<and> result_err r = Some OK \<and>
       numOf sg' (op_shard p) = c))"
proof (intro conjI impI)
  show "\<exists>r. ShardGroup_DoOp p sg = Some (r, sg) \<and> result_err r = Some ErrVersion" if "c < numOf sg (op_shard p)"
    by (rule old_op_rejected [OF assms that])
  show "\<exists>r sg'. ShardGroup_DoOp p sg = Some (r, sg') \<and> result_err r = Some OK \<and> numOf sg' (op_shard p) = c"
    if "numOf sg (op_shard p) \<le> c"
    using assms that withShard_at(4) [OF assms(1,2,2)]
    by (cases p) (auto simp: ShardGroup_DoOp_def doFreeze_eq doInstall_eq doDelete_eq Let_def)
qed

lemma old_migration_witness:
  "\<exists>r. ShardGroup_DoOp demo_install demo_frozen = Some (r, demo_frozen) \<and> result_err r = Some ErrVersion"
  using old_migration_rejected [of demo_frozen demo_install 1]
  by (simp add: demo_install_def)

text \<open>C28: A shard that a group owns behaves as the versioned key/value server does: the same answers
  to reads and writes, and after a write the same contents.\<close>

theorem owned_shard_is_kvserver:
  assumes "wf_group sg" and "ownedOf sg (Key2Shard (pa_Key a))" and "ga_Key g = pa_Key a"
  shows "ShardGroup_DoOp (GetOp g) sg = Some (GetRep (KVServer_Get g \<lparr>store = groupView sg\<rparr>), sg) \<and>
    (\<exists>sg'. ShardGroup_DoOp (PutOp a) sg = Some (PutRep (fst (KVServer_Put a \<lparr>store = groupView sg\<rparr>)), sg') \<and>
       groupView sg' = store (snd (KVServer_Put a \<lparr>store = groupView sg\<rparr>)) \<and> wf_group sg')"
proof -
  have serves: "groupServes sg (pa_Key a)" using assms by (simp add: groupServes_def)
  have get: "ShardGroup_DoOp (GetOp g) sg = Some (GetRep (KVServer_Get g \<lparr>store = groupView sg\<rparr>), sg)"
    using assms by (simp add: ShardGroup_DoOp_def doGet_eq KVServer_Get_view get_view_def groupView_def)
  obtain r sg' where put: "doPut a sg = Some (r, sg')" using doPut_eq [OF assms(1)] by fastforce
  then have gp: "groupPut a sg = (r, sg')" by (simp add: groupPut_def)
  have "r = fst (KVServer_Put a \<lparr>store = groupView sg\<rparr>)"
    using groupPut_spec(1) [OF serves] KVServer_Put_view(1) [of a "\<lparr>store = groupView sg\<rparr>"] gp by simp
  moreover have "groupView sg' = store (snd (KVServer_Put a \<lparr>store = groupView sg\<rparr>))"
    using groupPut_spec(2) [OF serves] KVServer_Put_view(2) [of a "\<lparr>store = groupView sg\<rparr>"] gp by simp
  moreover have "ShardGroup_DoOp (PutOp a) sg = Some (PutRep r, sg')" using put by (simp add: ShardGroup_DoOp_def)
  moreover have "wf_group sg'" using DoOp_wf [OF assms(1), of "PutOp a" "PutRep r" sg'] put by (simp add: ShardGroup_DoOp_def)
  ultimately show ?thesis using get by blast
qed

lemma owned_shard_witness:
  "ShardGroup_DoOp (GetOp \<lparr>ga_Key = ''Q''\<rparr>) demo_group =
     Some (GetRep (KVServer_Get \<lparr>ga_Key = ''Q''\<rparr> \<lparr>store = groupView demo_group\<rparr>), demo_group)"
  using owned_shard_is_kvserver [of demo_group "\<lparr>pa_Key = ''Q'', pa_Value = [], pa_Version = 0\<rparr>" "\<lparr>ga_Key = ''Q''\<rparr>"]
  by simp

subsection \<open>A configuration change\<close>

text \<open>C11: \<open>ChangeConfigTo\<close> over the lossy network returns for every finite script of lost requests and
  replies; the new configuration is then published, the lock is free, every shard that changed
  hands is owned by its new group with exactly the data its old group had and is gone from the
  old one, and every other shard is untouched. Its error is nil, or \<open>failed to publish\<close> although
  the configuration was published (when a reply of the last put was lost).\<close>

theorem migration_moves_data:
  assumes "ready_to_change ctl current target ver w" and "rnd \<noteq> []"
  shows "\<exists>err w'. ChangeConfigTo dkv_call ctl rnd target w = Some (err, w') \<and>
    err \<in> {None, Some ''failed to publish new config''} \<and>
    store (dw_kv w') ''config'' = Some \<lparr>vv_Value = json_Marshal target, vv_Version = ver + 1\<rparr> \<and>
    (\<exists>u. store (dw_kv w') ''config_lock'' = Some \<lparr>vv_Value = [], vv_Version = u\<rparr>) \<and>
    (\<forall>i<NShards. handed_over current target (dw_group w) (dw_group w') i)"
  using ChangeConfigTo_world [OF assms] by blast

definition demo_config :: "int \<Rightarrow> int \<Rightarrow> string \<Rightarrow> ShardConfig" where
  "demo_config num gid addr = \<lparr>sc_Num = num, sc_Shards = replicate NShards gid,
     sc_Groups = fmap_of_list [(gid, [addr])]\<rparr>"

definition demo_dkv :: "fate list \<Rightarrow> dkv_world" where
  "demo_dkv script = \<lparr>dw_kvaddr = ''kv'',
     dw_kv = \<lparr>store = [''config'' \<mapsto> \<lparr>vv_Value = json_Marshal (demo_config 0 1 ''a''), vv_Version = 1\<rparr>]\<rparr>,
     dw_member = [''a'' \<mapsto> (1, True), ''b'' \<mapsto> (2, True)],
     dw_group = (\<lambda>g. ShardGroup_New g), dw_script = script\<rparr>"

lemma demo_ready: "ready_to_change \<lparr>ctl_kvsrv = ''kv'', ctl_groups = fmempty\<rparr> (demo_config 0 1 ''a'') (demo_config 1 2 ''b'') 1
    (demo_dkv script)"
  by (auto simp: ready_to_change_def demo_dkv_def demo_config_def lock_free_def wf_config_def int64_def
      groups_ok_def movable_def reachable_gid_def replicas_def leads_def serversOf_def fmlookup_of_list
      valid_nat)

lemma migration_moves_data_witness:
  "\<exists>err w'. ChangeConfigTo dkv_call \<lparr>ctl_kvsrv = ''kv'', ctl_groups = fmempty\<rparr> [1] (demo_config 1 2 ''b'')
     (demo_dkv [ReplyLost, RequestLost]) = Some (err, w') \<and>
     (\<forall>i<NShards. handed_over (demo_config 0 1 ''a'') (demo_config 1 2 ''b'') ShardGroup_New (dw_group w') i)"
  using migration_moves_data [OF demo_ready [of "[ReplyLost, RequestLost]"], of "[1]"]
  by (auto simp: demo_dkv_def)

text \<open>C36: A migration that is run again after its controller died before publishing loses the shard:
  the source accepts the freeze with the same number once more, answers the empty data left by
  the delete, and the destination installs it over the data it had received; no call fails.\<close>

theorem rerun_loses_shard:
  assumes "groups_ok (sc_Num target) (dw_group w)" and "valid_shard s" and "src \<noteq> dst" and "src \<noteq> 0"
    and "movable w current target src dst"
  shows "\<exists>w1 w2. moveShard dkv_call current target s src dst w = Some (None, w1) \<and>
    mapOf (dw_group w1 dst) s = mapOf (dw_group w src) s \<and>
    moveShard dkv_call current target s src dst w1 = Some (None, w2) \<and>
    mapOf (dw_group w2 dst) s = Map.empty"
proof -
  let ?N = "sc_Num target"
  let ?G1 = "moveGroups ?N s src dst (dw_group w)"
  let ?G2 = "moveGroups ?N s src dst ?G1"
  have w: "inWorld w (dw_group w) (dw_script w) = w" by (simp add: inWorld_def)
  have ok1: "groups_ok ?N ?G1" using assms(1,2) by (rule moveGroups_ok)
  obtain f1 where m1: "moveShard dkv_call current target s src dst w = Some (None, inWorld w ?G1 f1)"
    using moveShard_world [OF assms(5,1,2), of "dw_script w"] unfolding w by blast
  obtain f2 where m2: "moveShard dkv_call current target s src dst (inWorld w ?G1 f1) = Some (None, inWorld w ?G2 f2)"
    using moveShard_world [OF assms(5) ok1 assms(2), of f1] by blast
  have "mapOf (?G1 dst) s = mapOf (dw_group w src) s" "mapOf (?G1 src) s = Map.empty"
    using moveGroups_self(1,3) [OF assms(1-3)] assms(4) by simp_all
  moreover from this(2) have "mapOf (?G2 dst) s = Map.empty"
    using moveGroups_self(1) [OF ok1 assms(2,3)] by simp
  ultimately show ?thesis
    using m1 m2 by (intro exI [where x = "inWorld w ?G1 f1"] exI [where x = "inWorld w ?G2 f2"]) simp
qed

lemma rerun_loses_shard_witness:
  "\<exists>w1 w2. moveShard dkv_call (demo_config 0 1 ''a'') (demo_config 1 2 ''b'') 1 1 2 (demo_dkv []) = Some (None, w1) \<and>
     moveShard dkv_call (demo_config 0 1 ''a'') (demo_config 1 2 ''b'') 1 1 2 w1 = Some (None, w2)"
  using rerun_loses_shard [of "demo_config 1 2 ''b''" "demo_dkv []" 1 1 2 "demo_config 0 1 ''a''"] demo_ready [of "[]"]
  by (auto simp: ready_to_change_def demo_dkv_def demo_config_def movable_def reachable_gid_def replicas_def
      leads_def serversOf_def fmlookup_of_list)

lemma put_view_changes: "fst (put_view b m) = OK \<Longrightarrow> snd (put_view b m) (pa_Key b) \<noteq> m (pa_Key b)"
proof -
  have "v \<noteq> \<lparr>vv_Value = x, vv_Version = vv_Version v + 1\<rparr>" for v :: VersionedValue and x
    by (cases v) simp
  then show "fst (put_view b m) = OK \<Longrightarrow> snd (put_view b m) (pa_Key b) \<noteq> m (pa_Key b)"
    by (auto simp: put_view_def split: option.splits if_splits)
qed

text \<open>A repeated install (a retry of the controller's call whose reply was lost) overwrites what
  clients wrote since the first one: a put that was answered \<open>OK\<close> is undone, and the group
  answers \<open>OK\<close> to the install again.\<close>

theorem repeated_install_undoes_puts:
  assumes "wf_group sg" and "valid_shard (ia_Shard a)" and "numOf sg (ia_Shard a) \<le> ia_ConfigNum a"
    and "ShardGroup_DoOp (InstallOp a) sg = Some (r1, sg1)"
    and "ShardGroup_DoOp (PutOp b) sg1 = Some (PutRep \<lparr>pr_Err = OK\<rparr>, sg2)" and "Key2Shard (pa_Key b) = ia_Shard a"
  shows "\<exists>sg3. ShardGroup_DoOp (InstallOp a) sg2 = Some (InstallRep \<lparr>ir_Err = OK\<rparr>, sg3) \<and>
    groupView sg3 (pa_Key b) = ia_Data a (pa_Key b) \<and> groupView sg2 (pa_Key b) \<noteq> ia_Data a (pa_Key b)"
proof -
  let ?s = "ia_Shard a"
  note i = install_spec [OF assms(1-4)]
  have sg2: "wf_group sg2" using DoOp_wf [OF i(5) assms(5)] .
  have put: "put_view b (mapOf sg1 ?s) = (OK, mapOf sg2 ?s)" "numOf sg2 ?s = numOf sg1 ?s"
    using assms(5,6) i(2,5) withShard_at [OF i(5) assms(2,2)]
    by (auto simp: ShardGroup_DoOp_def doPut_eq Let_def case_prod_beta prod_eq_iff)
  obtain sg3 r3 where op: "ShardGroup_DoOp (InstallOp a) sg2 = Some (r3, sg3)"
    using DoOp_panics_iff [OF sg2, of "InstallOp a"] assms(2) by fastforce
  note i3 = install_spec [OF sg2 assms(2) _ op]
  have "snd (put_view b (ia_Data a)) (pa_Key b) \<noteq> ia_Data a (pa_Key b)"
    using put(1) i(4) by (intro put_view_changes) simp
  then have "ia_Data a (pa_Key b) \<noteq> mapOf sg2 ?s (pa_Key b)" using put(1) i(4) by simp
  then show ?thesis
    using op i3 put(2) i(3) assms(6) by (intro exI [where x = sg3]) (auto simp: groupView_def)
qed

lemma repeated_install_witness:
  "\<exists>sg2 sg3. ShardGroup_DoOp (PutOp \<lparr>pa_Key = ''Q'', pa_Value = ''v'', pa_Version = 0\<rparr>) demo_group =
       Some (PutRep \<lparr>pr_Err = OK\<rparr>, sg2) \<and>
     ShardGroup_DoOp demo_install sg2 = Some (InstallRep \<lparr>ir_Err = OK\<rparr>, sg3) \<and> groupView sg3 ''Q'' = None"
proof -
  let ?b = "\<lparr>pa_Key = ''Q'', pa_Value = ''v'', pa_Version = 0\<rparr>"
  obtain sg2 where put: "ShardGroup_DoOp (PutOp ?b) demo_group = Some (PutRep \<lparr>pr_Err = OK\<rparr>, sg2)"
    by (auto simp: ShardGroup_DoOp_def doPut_eq put_view_def Let_def)
  with repeated_install_undoes_puts [of "ShardGroup_New 7" "\<lparr>ia_Shard = 1, ia_ConfigNum = 1, ia_Data = Map.empty\<rparr>"
      "InstallRep \<lparr>ir_Err = OK\<rparr>" demo_group ?b sg2] demo_ops(1)
  show ?thesis by (auto simp: demo_install_def)
qed

subsection \<open>The configuration\<close>

lemma Query_world:
  assumes "wf_config c" and "ctl_kvsrv ctl = dw_kvaddr w"
    and "store (dw_kv w) ''config'' = Some \<lparr>vv_Value = json_Marshal c, vv_Version = ver\<rparr>"
  shows "\<exists>fs. Query dkv_call ctl w = Some (Inr c, w\<lparr>dw_script := fs\<rparr>)"
proof -
  have json: "json_Unmarshal (json_Marshal c) = Some c"
    using assms(1) by (intro json_roundtrip) (auto simp: wf_config_def)
  obtain fs where "KVClerk_Get dkv_call (dw_kvaddr w) ''config'' w =
      (let r = KVServer_Get \<lparr>ga_Key = ''config''\<rparr> (dw_kv w) in
        Some ((gr_Value r, gr_Version r, gr_Err r), w\<lparr>dw_script := fs\<rparr>))"
    using KVClerk_Get_world by blast
  with json assms(2,3) show ?thesis by (intro exI [where x = fs]) (simp add: Query_def KVServer_Get_def)
qed



text \<open>The start-up comparison of the running groups with the flags is equality: it reports a
  difference exactly when the two maps of group ids to address lists differ.\<close>

theorem start_up_compares_groups: "groupsDiffer cur groups \<longleftrightarrow> cur \<noteq> groups"
  by (rule groupsDiffer_iff)

lemma card_residue: "i < n \<Longrightarrow> card {s. s < m \<and> s mod n = i} = (m + n - 1 - i) div n"
proof (induction m)
  case 0
  then show ?case by simp
next
  case (Suc m)
  have split: "{s. s < Suc m \<and> s mod n = i} = {s. s < m \<and> s mod n = i} \<union> (if m mod n = i then {m} else {})"
    by (auto simp: less_Suc_eq)
  have fin: "finite {s. s < m \<and> s mod n = i}" by simp
  let ?k = "m + n - 1 - i"
  have eq: "Suc m + n - 1 - i = Suc ?k" using Suc.prems by simp
  show ?case
  proof (cases "m mod n = i")
    case True
    then have "m = n * (m div n) + i" by (metis mult_div_mod_eq)
    then have "Suc ?k = n * (m div n) + n" using Suc.prems by simp
    then have "Suc ?k mod n = 0" by simp
    then have "Suc ?k div n = Suc (?k div n)" using Suc.prems by (simp add: div_Suc)
    with True split fin Suc show ?thesis unfolding eq by simp
  next
    case False
    have "Suc ?k mod n \<noteq> 0"
    proof
      assume "Suc ?k mod n = 0"
      then obtain q where "Suc ?k = n * q" by (auto simp: mod_eq_0_iff_dvd)
      then have q: "m + n = n * q + i" using Suc.prems by simp
      then have "(m + n) mod n = i mod n" by simp
      with False Suc.prems show False by simp
    qed
    then have "Suc ?k div n = ?k div n" by (simp add: div_Suc)
    with False split Suc show ?thesis unfolding eq by simp
  qed
qed

lemma count_map_list: "count_list (map f xs) y = length (filter (\<lambda>x. f x = y) xs)"
  by (induction xs) auto

text \<open>C35: The initial and every later assignment deals the ten shards round: every shard goes to one of
  the groups, and each group gets 10 div n shards or one more, n being the number of groups.\<close>

theorem assignment_balanced:
  assumes "distinct gids" and "gids \<noteq> []" and "g \<in> set gids"
  shows "length (assignShards gids) = 10 \<and> set (assignShards gids) \<subseteq> set gids \<and>
    count_list (assignShards gids) g \<in> {10 div length gids, 10 div length gids + 1}"
proof -
  let ?n = "length gids"
  obtain j where j: "j < ?n" "gids ! j = g" using assms(3) by (auto simp: in_set_conv_nth)
  have "count_list (assignShards gids) g = length (filter (\<lambda>i. gids ! (i mod ?n) = g) [0..<10])"
    using assms(2) by (simp add: assignShards_def NShards_def count_map_list)
  also have "\<dots> = card {i. i < 10 \<and> i mod ?n = j}"
  proof -
    have "gids ! (i mod ?n) = g \<longleftrightarrow> i mod ?n = j" for i
      using j assms(1,2) nth_eq_iff_index_eq [OF assms(1), of "i mod ?n" j] by auto
    then have "length (filter (\<lambda>i. gids ! (i mod ?n) = g) [0..<10]) = length (filter (\<lambda>i. i mod ?n = j) [0..<10])"
      by simp
    also have "\<dots> = card (set (filter (\<lambda>i. i mod ?n = j) [0..<10]))"
      by (rule distinct_card [symmetric]) simp
    also have "set (filter (\<lambda>i. i mod ?n = j) [0..<10]) = {i. i < 10 \<and> i mod ?n = j}" by auto
    finally show ?thesis .
  qed
  also have "\<dots> = (10 + ?n - 1 - j) div ?n" using j by (intro card_residue)
  finally have c: "count_list (assignShards gids) g = (10 + ?n - 1 - j) div ?n" .
  have "10 div ?n \<le> (10 + ?n - 1 - j) div ?n" using j by (intro div_le_mono) simp
  moreover have "(10 + ?n - 1 - j) div ?n \<le> (10 + ?n) div ?n" by (intro div_le_mono) simp
  moreover have "(10 + ?n) div ?n = 10 div ?n + 1" using assms(2) by simp
  ultimately have "count_list (assignShards gids) g \<in> {10 div ?n, 10 div ?n + 1}" unfolding c by auto
  moreover have "set (assignShards gids) \<subseteq> set gids"
    using assms(2) by (auto simp: assignShards_def)
  ultimately show ?thesis by (simp add: NShards_def)
qed

lemma assignment_balanced_witness: "count_list (assignShards [101, 102, 103]) 102 \<in> {3, 4}"
  using assignment_balanced [of "[101, 102, 103]" 102] by simp

subsection \<open>The clients\<close>

lemma get_repeatable:
  assumes "wf_group sg"
  shows "repeatable (GetOp \<lparr>ga_Key = key\<rparr>) (\<lambda>rep. case rep of GetRep r \<Rightarrow> Some r | _ \<Rightarrow> None) gr_Err sg sg
    (if ownedOf sg (Key2Shard key) then get_view key (groupView sg)
     else \<lparr>gr_Err = ErrWrongGroup, gr_Value = [], gr_Version = 0\<rparr>)"
  using assms
  by (simp add: repeatable_def ShardGroup_DoOp_def doGet_eq groupRPC_def ShardGroup_Get_def groupView_def
      get_view_def split: option.split)

lemma tryGet_world:
  assumes "shardGid ck key \<noteq> 0" and "kc_clerks ck = Map.empty"
    and "reachable_gid w (sc_Groups (kc_config ck)) (shardGid ck key)"
    and "wf_group (dw_group w (shardGid ck key))"
  shows "\<exists>fs ck'. tryGet dkv_call key ck w =
    Some (if ownedOf (dw_group w (shardGid ck key)) (Key2Shard key)
       then let r = get_view key (groupView (dw_group w (shardGid ck key)))
            in Some (gr_Value r, gr_Version r, gr_Err r) else None, ck', w\<lparr>dw_script := fs\<rparr>) \<and>
    kc_sc ck' = kc_sc ck"
proof -
  let ?g = "shardGid ck key" and ?s = "serversOf (sc_Groups (kc_config ck)) (shardGid ck key)"
  have "repeatable (GetOp \<lparr>ga_Key = key\<rparr>) (\<lambda>rep. case rep of GetRep r \<Rightarrow> Some r | _ \<Rightarrow> None) gr_Err
      (dw_group w ?g) (dw_group w ?g) (if ownedOf (dw_group w ?g) (Key2Shard key)
       then get_view key (groupView (dw_group w ?g))
       else \<lparr>gr_Err = ErrWrongGroup, gr_Value = [], gr_Version = 0\<rparr>)"
    by (rule get_repeatable [OF assms(4)])
  then obtain fs where "callGroup dkv_call ''ShardGroup.Get'' (GetOp \<lparr>ga_Key = key\<rparr>)
      (\<lambda>rep. case rep of GetRep r \<Rightarrow> Some r | _ \<Rightarrow> None) gr_Err ?s (inWorld w (dw_group w) (dw_script w)) =
      Some (if ownedOf (dw_group w ?g) (Key2Shard key) then get_view key (groupView (dw_group w ?g))
       else \<lparr>gr_Err = ErrWrongGroup, gr_Value = [], gr_Version = 0\<rparr>,
       inWorld w ((dw_group w)(?g := dw_group w ?g)) fs)"
    using assms(3) callGroup_inWorld [of "GetOp \<lparr>ga_Key = key\<rparr>" _ gr_Err "dw_group w" ?g "dw_group w ?g" _ w ?s]
    unfolding reachable_gid_def by blast
  then have "ShardClerk_Get dkv_call ?s \<lparr>ga_Key = key\<rparr> w =
      Some (if ownedOf (dw_group w ?g) (Key2Shard key) then get_view key (groupView (dw_group w ?g))
       else \<lparr>gr_Err = ErrWrongGroup, gr_Value = [], gr_Version = 0\<rparr>, w\<lparr>dw_script := fs\<rparr>)"
    by (simp add: ShardClerk_Get_def inWorld_def)
  then show ?thesis
    using assms(1,2) by (intro exI [where x = fs]) (auto simp: tryGet_def getGroupClerk_def Let_def get_view_def
       split: option.split)
qed

lemma reachable_gid_script [simp]: "reachable_gid (w\<lparr>dw_script := fs\<rparr>) = reachable_gid w"
  by (simp add: reachable_gid_def replicas_def leads_def fun_eq_iff)

lemma ShardKV_Get_serving:
  assumes "shardGid ck key \<noteq> 0" and "kc_clerks ck = Map.empty"
    and "reachable_gid w (sc_Groups (kc_config ck)) (shardGid ck key)"
    and "groupServes (dw_group w (shardGid ck key)) key"
  shows "\<exists>ck' fs. ShardKV_Get dkv_call key ck w =
      Some (let r = KVServer_Get \<lparr>ga_Key = key\<rparr> \<lparr>store = groupView (dw_group w (shardGid ck key))\<rparr>
            in (gr_Value r, gr_Version r, gr_Err r), ck', w\<lparr>dw_script := fs\<rparr>)"
  using tryGet_world [OF assms(1-3)] assms(4)
  by (subst ShardKV_Get.simps) (auto simp: groupServes_def KVServer_Get_view Let_def)


definition demo_client :: ShardKVClerk where
  "demo_client = \<lparr>kc_sc = ShardController_New ''kv'' fmempty, kc_config = zeroConfig, kc_clerks = Map.empty\<rparr>"

definition demo_served :: dkv_world where
  "demo_served = (demo_dkv [RequestLost, ReplyLost])
     \<lparr>dw_kv := \<lparr>store = [''config'' \<mapsto> \<lparr>vv_Value = json_Marshal (demo_config 0 7 ''a''), vv_Version = 1\<rparr>]\<rparr>,
      dw_member := [''a'' \<mapsto> (7, True)], dw_group := (\<lambda>_. demo_group)\<rparr>"



definition demo_answer :: "nat network" where
  "demo_answer = (\<lambda>_ _ op w. (Some (case op of PutOp _ \<Rightarrow> PutRep \<lparr>pr_Err = ErrVersion\<rparr>
     | _ \<Rightarrow> GetRep \<lparr>gr_Err = OK, gr_Value = ''v'', gr_Version = 3\<rparr>), w))"

definition demo_routed :: ShardKVClerk where
  "demo_routed = demo_client\<lparr>kc_config := demo_config 0 7 ''a'', kc_clerks := [7 \<mapsto> [''a'']]\<rparr>"


text \<open>A shard group's clerk hides retries: when the reply to a put that took effect is lost, the
  clerk sends the put again and answers the second attempt's \<open>ErrVersion\<close>.\<close>

theorem group_clerk_hides_retry:
  assumes "dw_script w = [ReplyLost]" and "addr \<noteq> dw_kvaddr w" and "dw_member w addr = Some (gid, True)"
    and "wf_group (dw_group w gid)" and "ownedOf (dw_group w gid) (Key2Shard (pa_Key a))"
    and "fst (put_view a (mapOf (dw_group w gid) (Key2Shard (pa_Key a)))) = OK"
  shows "\<exists>w'. ShardClerk_Put dkv_call [addr] a w = Some (\<lparr>pr_Err = ErrVersion\<rparr>, w') \<and>
    groupView (dw_group w' gid) (pa_Key a) = Some \<lparr>vv_Value = pa_Value a, vv_Version = pa_Version a + 1\<rparr>"
proof -
  let ?s = "Key2Shard (pa_Key a)" and ?sg = "dw_group w gid"
  let ?m = "snd (put_view a (mapOf ?sg ?s))"
  let ?sg1 = "withShard ?s ?m True False (numOf ?sg ?s) ?sg"
  have op1: "ShardGroup_DoOp (PutOp a) ?sg = Some (PutRep \<lparr>pr_Err = OK\<rparr>, ?sg1)"
    using assms(5,6) by (simp add: ShardGroup_DoOp_def doPut_eq [OF assms(4)] Let_def case_prod_beta)
  note at = withShard_at [OF assms(4) valid_key valid_key]
  have wf1: "wf_group ?sg1" using assms(4) by (intro withShard_wf) simp_all
  have "put_view a ?m = (ErrVersion, ?m)" using stale_fails [OF stale_put [OF assms(6)]] .
  then have op2: "ShardGroup_DoOp (PutOp a) ?sg1 = Some (PutRep \<lparr>pr_Err = ErrVersion\<rparr>, ?sg1)"
    by (simp add: ShardGroup_DoOp_def doPut_eq [OF wf1] Let_def at)
  let ?w1 = "w\<lparr>dw_script := [], dw_group := (dw_group w)(gid := ?sg1)\<rparr>"
  have c1: "dkv_call addr ''ShardGroup.Put'' (PutOp a) w = (None, ?w1)"
    using assms(1-3) op1 by (simp add: dkv_call_def dkv_exec_def)
  have c2: "dkv_call addr ''ShardGroup.Put'' (PutOp a) ?w1 = (Some (PutRep \<lparr>pr_Err = ErrVersion\<rparr>), ?w1)"
    using assms(2,3) op2 by (simp add: dkv_call_def dkv_exec_def groupRPC_def ShardGroup_Put_def)
  have "ShardClerk_Put dkv_call [addr] a w = ShardClerk_Put dkv_call [addr] a ?w1"
    unfolding ShardClerk_Put_def by (subst callGroup.simps) (simp add: c1)
  also have "\<dots> = Some (\<lparr>pr_Err = ErrVersion\<rparr>, ?w1)"
    unfolding ShardClerk_Put_def by (subst callGroup.simps) (simp only: tryServers.simps c2, simp)
  finally have "ShardClerk_Put dkv_call [addr] a w = Some (\<lparr>pr_Err = ErrVersion\<rparr>, ?w1)" .
  moreover have "groupView (dw_group ?w1 gid) (pa_Key a) = Some \<lparr>vv_Value = pa_Value a, vv_Version = pa_Version a + 1\<rparr>"
    using assms(6) by (auto simp: groupView_def at put_view_def split: option.splits if_splits)
  ultimately show ?thesis by blast
qed

definition demo_owner :: dkv_world where
  "demo_owner = \<lparr>dw_kvaddr = ''kv'', dw_kv = \<lparr>store = Map.empty\<rparr>, dw_member = [''a'' \<mapsto> (7, True)],
     dw_group = (\<lambda>g. demo_group), dw_script = [ReplyLost]\<rparr>"

lemma group_clerk_hides_retry_witness:
  "\<exists>w'. ShardClerk_Put dkv_call [''a''] \<lparr>pa_Key = ''Q'', pa_Value = ''v'', pa_Version = 0\<rparr> demo_owner =
     Some (\<lparr>pr_Err = ErrVersion\<rparr>, w')"
  using group_clerk_hides_retry [of demo_owner "''a''" 7 "\<lparr>pa_Key = ''Q'', pa_Value = ''v'', pa_Version = 0\<rparr>"]
  by (auto simp: demo_owner_def put_view_def)

text \<open>A group without addresses (a configuration that gives a shard to group 0, or to a group it
  does not list) makes every method of its clerk loop forever.\<close>

theorem no_servers_never_returns:
  assumes "fmlookup groups gid = None"
  shows "ShardClerk_Get Call (serversOf groups gid) g w = None \<and>
   ShardClerk_Put Call (serversOf groups gid) p w = None \<and>
   ShardClerk_FreezeShard Call (serversOf groups gid) f w = None \<and>
   ShardClerk_InstallShard Call (serversOf groups gid) i w = None \<and>
   ShardClerk_DeleteShard Call (serversOf groups gid) d w = None"
  using assms by (simp add: serversOf_def ShardClerk_defs callGroup_no_servers)

lemma no_servers_witness: "ShardClerk_InstallShard dkv_call (serversOf fmempty 0) \<lparr>ia_Shard = 1, ia_ConfigNum = 1, ia_Data = Map.empty\<rparr> (demo_dkv []) = None"
  using no_servers_never_returns [of fmempty 0 dkv_call _ "demo_dkv []"] by simp

end
