(* ===== verification/RaftLocal.thy ===== *)
theory RaftLocal
  imports RaftReplication
begin

section \<open>What one critical section of a peer does\<close>

text \<open>
  Closed forms of the loops of a peer's handlers and, for each handler, the cases it can end in.
  The theories about the cluster use these facts only and never unfold a handler.
\<close>

subsection \<open>Fields left alone by the helpers\<close>

lemma persist_frame [frame_simps]:
  "peers (persist rf) = peers rf" "me (persist rf) = me rf" "dead (persist rf) = dead rf"
  "currentTerm (persist rf) = currentTerm rf" "votedFor (persist rf) = votedFor rf"
  "rlog (persist rf) = rlog rf" "lastIncludedIndex (persist rf) = lastIncludedIndex rf"
  "lastIncludedTerm (persist rf) = lastIncludedTerm rf" "commitIndex (persist rf) = commitIndex rf"
  "lastApplied (persist rf) = lastApplied rf" "role (persist rf) = role rf"
  "nextIndex (persist rf) = nextIndex rf" "matchIndex (persist rf) = matchIndex rf"
  "pendingSnapshotValid (persist rf) = pendingSnapshotValid rf"
  "Mem_ReadSnapshot (persister (persist rf)) = Mem_ReadSnapshot (persister rf)"
  by (auto simp: persist_def Mem_defs)

lemma reset_frame [frame_simps]:
  "peers (resetElectionTimeout ck rf) = peers rf" "me (resetElectionTimeout ck rf) = me rf"
  "currentTerm (resetElectionTimeout ck rf) = currentTerm rf"
  "votedFor (resetElectionTimeout ck rf) = votedFor rf"
  "rlog (resetElectionTimeout ck rf) = rlog rf"
  "lastIncludedIndex (resetElectionTimeout ck rf) = lastIncludedIndex rf"
  "lastIncludedTerm (resetElectionTimeout ck rf) = lastIncludedTerm rf"
  "commitIndex (resetElectionTimeout ck rf) = commitIndex rf"
  "lastApplied (resetElectionTimeout ck rf) = lastApplied rf"
  "role (resetElectionTimeout ck rf) = role rf"
  "nextIndex (resetElectionTimeout ck rf) = nextIndex rf"
  "matchIndex (resetElectionTimeout ck rf) = matchIndex rf"
  "pendingSnapshotValid (resetElectionTimeout ck rf) = pendingSnapshotValid rf"
  "persister (resetElectionTimeout ck rf) = persister rf"
  by (simp_all add: resetElectionTimeout_def)

lemma persisted_reset [simp]: "persisted (resetElectionTimeout ck rf) = persisted rf"
  by (simp add: persisted_def serializeState_def resetElectionTimeout_def)

text \<open>Updates of fields that are not persisted keep \<open>persisted\<close>.\<close>

lemma persisted_frame [simp]:
  "persisted (rf\<lparr>role := r\<rparr>) = persisted rf"
  "persisted (rf\<lparr>commitIndex := i\<rparr>) = persisted rf"
  "persisted (rf\<lparr>lastApplied := i\<rparr>) = persisted rf"
  "persisted (rf\<lparr>nextIndex := ns\<rparr>) = persisted rf"
  "persisted (rf\<lparr>matchIndex := ns\<rparr>) = persisted rf"
  "persisted (rf\<lparr>dead := b\<rparr>) = persisted rf"
  "persisted (rf\<lparr>pendingSnapshotValid := b\<rparr>) = persisted rf"
  "persisted (rf\<lparr>pendingSnapshot := d\<rparr>) = persisted rf"
  "persisted (rf\<lparr>pendingSnapshotIndex := i\<rparr>) = persisted rf"
  "persisted (rf\<lparr>pendingSnapshotTerm := i\<rparr>) = persisted rf"
  by (simp_all add: persisted_def serializeState_def)

text \<open>Replacing the log and persisting, unless nothing changes.\<close>

definition saveLog :: "'c LogEntry list \<Rightarrow> 'c raft \<Rightarrow> 'c raft" where
  "saveLog l rf = (if l = rlog rf then rf else persist (rf\<lparr>rlog := l\<rparr>))"

lemma saveLog_frame [simp]:
  "peers (saveLog l rf) = peers rf" "me (saveLog l rf) = me rf"
  "currentTerm (saveLog l rf) = currentTerm rf" "votedFor (saveLog l rf) = votedFor rf"
  "rlog (saveLog l rf) = l" "lastIncludedIndex (saveLog l rf) = lastIncludedIndex rf"
  "lastIncludedTerm (saveLog l rf) = lastIncludedTerm rf" "commitIndex (saveLog l rf) = commitIndex rf"
  "lastApplied (saveLog l rf) = lastApplied rf" "role (saveLog l rf) = role rf"
  "nextIndex (saveLog l rf) = nextIndex rf" "matchIndex (saveLog l rf) = matchIndex rf"
  "persisted rf \<Longrightarrow> persisted (saveLog l rf)"
  by (auto simp: saveLog_def frame_simps)

lemma saveLog_id [simp]: "saveLog (rlog rf) rf = rf"
  by (simp add: saveLog_def)

lemma persist_persist_log:
  "persist ((persist (rf\<lparr>rlog := a\<rparr>))\<lparr>rlog := b\<rparr>) = persist (rf\<lparr>rlog := b\<rparr>)"
  by (simp add: persist_def serializeState_def Mem_defs)

lemma saveLog_persist: "saveLog b (persist (rf\<lparr>rlog := a\<rparr>)) = persist (rf\<lparr>rlog := b\<rparr>)"
  by (auto simp: saveLog_def persist_persist_log frame_simps)

subsection \<open>Merging new entries into a log\<close>

text \<open>
  The loop of \<open>AppendEntries\<close> as a function of the entries after \<open>PrevLogIndex\<close> (\<open>old\<close>) and the
  new ones: keep what agrees by term, replace everything from the first conflict on, and keep what
  lies beyond the new entries when there is no conflict.
\<close>

fun merge_entries :: "'c LogEntry list \<Rightarrow> 'c LogEntry list \<Rightarrow> 'c LogEntry list" where
  "merge_entries [] es = es"
| "merge_entries os [] = os"
| "merge_entries (x # xs) (e # es) =
     (if le_Term x = le_Term e then x # merge_entries xs es else e # es)"

lemma merge_entries_Nil [simp]: "merge_entries xs [] = xs"
  by (cases xs) auto

lemma merge_entries_length: "length es \<le> length (merge_entries xs es)"
  by (induction xs es rule: merge_entries.induct) auto

lemma merge_entries_prefix:
  \<comment> \<open>the new entries end up in the log, up to entries of equal term\<close>
  "k < length es \<Longrightarrow> le_Term (merge_entries xs es ! k) = le_Term (es ! k)"
  by (induction xs es arbitrary: k rule: merge_entries.induct) (auto simp: nth_Cons split: nat.splits)

lemma getLastLogIndex_log [simp]:
  "getLastLogIndex (rf\<lparr>rlog := l\<rparr>) = lastIncludedIndex rf + int (length l) - 1"
  by (simp add: getLastLogIndex_def)

lemma getLastLogIndex_frame [frame_simps]:
  "getLastLogIndex (persist rf) = getLastLogIndex rf"
  "getLastLogIndex (resetElectionTimeout ck rf) = getLastLogIndex rf"
  by (simp_all add: getLastLogIndex_def frame_simps)

lemma appendEntriesLoop_fresh:
  \<comment> \<open>past the end of the log every entry is appended\<close>
  assumes "idx = getLastLogIndex rf + 1"
  shows "appendEntriesLoop idx es (getLastLogIndex rf) rf =
    Some (getLastLogIndex (rf\<lparr>rlog := rlog rf @ es\<rparr>), saveLog (rlog rf @ es) rf)"
  using assms
proof (induction es arbitrary: idx rf)
  case Nil
  then show ?case by (simp add: getLastLogIndex_def)
next
  case (Cons e es)
  let ?rf = "persist (rf\<lparr>rlog := rlog rf @ [e]\<rparr>)"
  have "getLastLogIndex ?rf = idx"
    using Cons.prems by (simp add: getLastLogIndex_def frame_simps)
  with Cons.IH [of "idx + 1" ?rf] Cons.prems show ?case
    by (simp add: Let_def frame_simps saveLog_persist getLastLogIndex_def add.assoc)
       (simp add: saveLog_def)
qed

lemma appendEntriesLoop_eq:
  assumes "lastIncludedIndex rf < idx" and "idx \<le> getLastLogIndex rf + 1"
  shows "appendEntriesLoop idx es (getLastLogIndex rf) rf =
    (let k = nat (idx - lastIncludedIndex rf);
         l = take k (rlog rf) @ merge_entries (drop k (rlog rf)) es
     in Some (getLastLogIndex (rf\<lparr>rlog := l\<rparr>), saveLog l rf))"
  using assms unfolding Let_def
proof (induction es arbitrary: idx)
  case Nil
  then show ?case by (simp add: getLastLogIndex_def)
next
  case (Cons e es)
  let ?k = "nat (idx - lastIncludedIndex rf)"
  show ?case
  proof (cases "idx \<le> getLastLogIndex rf")
    case False
    with Cons.prems have "idx = getLastLogIndex rf + 1" and "length (rlog rf) \<le> ?k"
      by (auto simp: getLastLogIndex_def)
    with appendEntriesLoop_fresh [of idx rf "e # es"] show ?thesis
      by simp
  next
    case True
    with Cons.prems have k: "?k < length (rlog rf)" "0 < ?k"
      by (auto simp: getLastLogIndex_def)
    have d: "drop ?k (rlog rf) = rlog rf ! ?k # drop (Suc ?k) (rlog rf)"
      using k by (simp add: Cons_nth_drop_Suc)
    have t: "getLogTerm idx rf = Some (le_Term (rlog rf ! ?k))"
      using True Cons.prems by (subst getLogTerm_in) (auto simp: term_at_def)
    have k': "nat (idx + 1 - lastIncludedIndex rf) = Suc ?k"
      using Cons.prems by simp
    show ?thesis
    proof (cases "le_Term (rlog rf ! ?k) = le_Term e")
      case True
      have "take ?k (rlog rf) @ [rlog rf ! ?k] = take (Suc ?k) (rlog rf)"
        using k by (simp add: take_Suc_conv_app_nth)
      then have "take (Suc ?k) (rlog rf) @ xs = take ?k (rlog rf) @ rlog rf ! ?k # xs" for xs
        by (metis append.assoc append_Cons append_Nil)
      with True t d k' Cons.IH [of "idx + 1"] Cons.prems \<open>idx \<le> getLastLogIndex rf\<close> show ?thesis
        by simp
    next
      case False
      let ?rf = "persist (rf\<lparr>rlog := take ?k (rlog rf) @ [e]\<rparr>)"
      let ?l = "take ?k (rlog rf) @ e # es"
      have tk: "go_take (rlog rf) (idx - lastIncludedIndex rf) = Some (take ?k (rlog rf))"
        using k Cons.prems by (intro go_take_Some) auto
      have last: "getLastLogIndex ?rf = idx"
        using k Cons.prems by (simp add: getLastLogIndex_def frame_simps)
      have "?l ! ?k = e"
        using k by (simp add: nth_append)
      with False have "?l \<noteq> rlog rf" by auto
      then have sv: "saveLog ?l rf = persist (rf\<lparr>rlog := ?l\<rparr>)"
        by (simp add: saveLog_def)
      show ?thesis
        using False t d tk last \<open>idx \<le> getLastLogIndex rf\<close> appendEntriesLoop_fresh [of "idx + 1" ?rf es] sv
        by (simp add: Let_def frame_simps saveLog_persist getLastLogIndex_def)
    qed
  qed
qed

subsection \<open>Relations between the states before and after\<close>

text \<open>
  \<open>keeps_log\<close>: log and compaction point stay. \<open>vote_step\<close>: the term never decreases and a vote is
  never changed within a term; the peer keeps its identity. \<open>no_new_leader\<close>: whoever leads
  afterwards led before, in the same term.
\<close>

definition keeps_log :: "'c raft \<Rightarrow> 'c raft \<Rightarrow> bool" where
  "keeps_log rf rf' \<longleftrightarrow> rlog rf' = rlog rf \<and>
     lastIncludedIndex rf' = lastIncludedIndex rf \<and> lastIncludedTerm rf' = lastIncludedTerm rf"

definition vote_step :: "'c raft \<Rightarrow> 'c raft \<Rightarrow> bool" where
  "vote_step rf rf' \<longleftrightarrow> peers rf' = peers rf \<and> me rf' = me rf \<and> currentTerm rf \<le> currentTerm rf' \<and>
     (currentTerm rf' = currentTerm rf \<and> votedFor rf \<noteq> -1 \<longrightarrow> votedFor rf' = votedFor rf)"

definition no_new_leader :: "'c raft \<Rightarrow> 'c raft \<Rightarrow> bool" where
  "no_new_leader rf rf' \<longleftrightarrow>
     (role rf' = Leader \<longrightarrow> role rf = Leader \<and> currentTerm rf' = currentTerm rf)"

definition no_new_candidate :: "'c raft \<Rightarrow> 'c raft \<Rightarrow> bool" where
  "no_new_candidate rf rf' \<longleftrightarrow>
     (role rf' = Candidate \<longrightarrow> role rf = Candidate \<and> currentTerm rf' = currentTerm rf)"

lemmas step_defs = keeps_log_def vote_step_def no_new_leader_def no_new_candidate_def

lemma step_refl [simp]:
  "keeps_log rf rf" "vote_step rf rf" "no_new_leader rf rf" "no_new_candidate rf rf"
  by (simp_all add: step_defs)

lemma keeps_log_trans: "keeps_log a b \<Longrightarrow> keeps_log b c \<Longrightarrow> keeps_log a c"
  by (simp add: keeps_log_def)

lemma vote_step_trans: "vote_step a b \<Longrightarrow> vote_step b c \<Longrightarrow> vote_step a c"
  by (force simp: vote_step_def)

lemma no_new_leader_trans: "no_new_leader a b \<Longrightarrow> no_new_leader b c \<Longrightarrow> no_new_leader a c"
  by (simp add: no_new_leader_def)

lemma no_new_candidate_trans: "no_new_candidate a b \<Longrightarrow> no_new_candidate b c \<Longrightarrow> no_new_candidate a c"
  by (simp add: no_new_candidate_def)

lemmas step_trans = keeps_log_trans vote_step_trans no_new_leader_trans no_new_candidate_trans

lemma observeTerm_fields [simp]:
  "rlog (observeTerm ck t rf) = rlog rf"
  "lastIncludedIndex (observeTerm ck t rf) = lastIncludedIndex rf"
  "lastIncludedTerm (observeTerm ck t rf) = lastIncludedTerm rf"
  "peers (observeTerm ck t rf) = peers rf" "me (observeTerm ck t rf) = me rf"
  "commitIndex (observeTerm ck t rf) = commitIndex rf"
  "lastApplied (observeTerm ck t rf) = lastApplied rf"
  "nextIndex (observeTerm ck t rf) = nextIndex rf"
  "matchIndex (observeTerm ck t rf) = matchIndex rf"
  "currentTerm (observeTerm ck t rf) = max (currentTerm rf) t"
  "getLastLogIndex (observeTerm ck t rf) = getLastLogIndex rf"
  "term_at i (observeTerm ck t rf) = term_at i rf"
  "getLogTerm i (observeTerm ck t rf) = getLogTerm i rf"
  "Mem_ReadSnapshot (persister (observeTerm ck t rf)) = Mem_ReadSnapshot (persister rf)"
  by (auto simp: observeTerm_def frame_simps term_at_def getLogTerm_def getLastLogIndex_def)

lemma observeTerm_persisted [simp]: "persisted rf \<Longrightarrow> persisted (observeTerm ck t rf)"
  by (auto simp: observeTerm_def)

lemma observeTerm_role: "role (observeTerm ck t rf) =
    (if currentTerm rf < t \<or> role rf = Candidate then Follower else role rf)"
  by (auto simp: observeTerm_def frame_simps)

lemma observeTerm_steps [simp]:
  "keeps_log rf (observeTerm ck t rf)" "vote_step rf (observeTerm ck t rf)"
  "no_new_leader rf (observeTerm ck t rf)" "no_new_candidate rf (observeTerm ck t rf)"
  by (auto simp: step_defs observeTerm_def frame_simps)

lemma stepDown_fields [simp]:
  "rlog (stepDown ck t rf) = rlog rf"
  "lastIncludedIndex (stepDown ck t rf) = lastIncludedIndex rf"
  "lastIncludedTerm (stepDown ck t rf) = lastIncludedTerm rf"
  "peers (stepDown ck t rf) = peers rf" "me (stepDown ck t rf) = me rf"
  "commitIndex (stepDown ck t rf) = commitIndex rf" "lastApplied (stepDown ck t rf) = lastApplied rf"
  "nextIndex (stepDown ck t rf) = nextIndex rf" "matchIndex (stepDown ck t rf) = matchIndex rf"
  "currentTerm (stepDown ck t rf) = t" "role (stepDown ck t rf) = Follower"
  "votedFor (stepDown ck t rf) = -1" "persisted (stepDown ck t rf)"
  by (simp_all add: stepDown_def frame_simps)

subsection \<open>Elections\<close>

lemma startElection_spec:
  assumes "startElection ck rf = Some (el, args, rf')" and "rlog rf \<noteq> []"
  shows "el = \<lparr>el_term = currentTerm rf + 1, el_votes = 1\<rparr>"
    and "args = \<lparr>rv_Term = currentTerm rf + 1, rv_CandidateID = me rf,
                 rv_LastLogIndex = getLastLogIndex rf, rv_LastLogTerm = last_term rf\<rparr>"
    and "keeps_log rf rf'" and "vote_step rf rf'" and "persisted rf'"
    and "role rf' = Candidate" and "currentTerm rf' = currentTerm rf + 1" and "votedFor rf' = me rf"
    and "commitIndex rf' = commitIndex rf" and "lastApplied rf' = lastApplied rf"
    and "nextIndex rf' = nextIndex rf" and "matchIndex rf' = matchIndex rf"
proof -
  let ?rf = "resetElectionTimeout ck
    (persist (rf\<lparr>currentTerm := currentTerm rf + 1, role := Candidate, votedFor := me rf\<rparr>))"
  have "getLastLogTerm ?rf = Some (last_term rf)"
    using assms(2) getLastLogTerm_eq [of ?rf]
    by (simp add: frame_simps last_term_def term_at_def getLastLogIndex_def)
  then have eqs: "el = \<lparr>el_term = currentTerm rf + 1, el_votes = 1\<rparr>"
    "args = \<lparr>rv_Term = currentTerm rf + 1, rv_CandidateID = me rf,
             rv_LastLogIndex = getLastLogIndex rf, rv_LastLogTerm = last_term rf\<rparr>" "rf' = ?rf"
    using assms(1) by (auto simp: startElection_def Let_def frame_simps getLastLogIndex_def)
  from eqs(1,2) show "el = \<lparr>el_term = currentTerm rf + 1, el_votes = 1\<rparr>"
    "args = \<lparr>rv_Term = currentTerm rf + 1, rv_CandidateID = me rf,
             rv_LastLogIndex = getLastLogIndex rf, rv_LastLogTerm = last_term rf\<rparr>"
    by simp_all
  from eqs(3) show "keeps_log rf rf'" "vote_step rf rf'" "persisted rf'" "role rf' = Candidate"
    "currentTerm rf' = currentTerm rf + 1" "votedFor rf' = me rf"
    "commitIndex rf' = commitIndex rf" "lastApplied rf' = lastApplied rf"
    "nextIndex rf' = nextIndex rf" "matchIndex rf' = matchIndex rf"
    by (simp_all add: frame_simps step_defs)
qed

definition raised :: "int \<Rightarrow> 'c raft \<Rightarrow> 'c raft" where
  "raised t rf = (if t > currentTerm rf
     then persist (rf\<lparr>currentTerm := t, role := Follower, votedFor := -1\<rparr>) else rf)"

lemma raised_fields [simp]:
  "rlog (raised t rf) = rlog rf" "lastIncludedIndex (raised t rf) = lastIncludedIndex rf"
  "lastIncludedTerm (raised t rf) = lastIncludedTerm rf"
  "peers (raised t rf) = peers rf" "me (raised t rf) = me rf"
  "commitIndex (raised t rf) = commitIndex rf" "lastApplied (raised t rf) = lastApplied rf"
  "nextIndex (raised t rf) = nextIndex rf" "matchIndex (raised t rf) = matchIndex rf"
  "currentTerm (raised t rf) = max (currentTerm rf) t"
  "getLastLogIndex (raised t rf) = getLastLogIndex rf" "last_term (raised t rf) = last_term rf"
  "persisted rf \<Longrightarrow> persisted (raised t rf)"
  by (auto simp: raised_def frame_simps last_term_def term_at_def getLastLogIndex_def)

lemma raised_steps [simp]:
  "keeps_log rf (raised t rf)" "vote_step rf (raised t rf)"
  "no_new_leader rf (raised t rf)" "no_new_candidate rf (raised t rf)"
  by (auto simp: step_defs raised_def frame_simps)

lemma RequestVote_cases:
  assumes "RequestVote ck args rf = Some (r, rf')" and "rlog rf \<noteq> []"
  obtains (old) "rv_Term args < currentTerm rf" "rf' = rf"
      "\<not> rvr_VoteGranted r" "rvr_Term r = currentTerm rf"
  | (refused) "currentTerm rf \<le> rv_Term args" "rf' = raised (rv_Term args) rf"
      "\<not> rvr_VoteGranted r" "rvr_Term r = currentTerm rf"
  | (granted) "currentTerm rf \<le> rv_Term args"
      "rf' = resetElectionTimeout ck (persist ((raised (rv_Term args) rf)\<lparr>votedFor := rv_CandidateID args\<rparr>))"
      "rvr_VoteGranted r" "rvr_Term r = currentTerm rf"
      "votedFor (raised (rv_Term args) rf) \<in> {-1, rv_CandidateID args}"
      "Pos (last_term rf) (getLastLogIndex rf) \<le> Pos (rv_LastLogTerm args) (rv_LastLogIndex args)"
proof (cases "rv_Term args < currentTerm rf")
  case True
  with assms(1) show ?thesis by (intro old) (auto simp: RequestVote_def)
next
  case False
  have t: "getLastLogTerm (raised (rv_Term args) rf) = Some (last_term rf)"
    using assms(2) getLastLogTerm_eq [of "raised (rv_Term args) rf"] by simp
  let ?rf = "raised (rv_Term args) rf"
  have up: "rv_LastLogTerm args > last_term rf \<or>
      rv_LastLogTerm args = last_term rf \<and> rv_LastLogIndex args \<ge> getLastLogIndex rf \<longleftrightarrow>
    Pos (last_term rf) (getLastLogIndex rf) \<le> Pos (rv_LastLogTerm args) (rv_LastLogIndex args)"
    by (auto simp: less_eq_log_position_def)
  show ?thesis
  proof (cases "votedFor ?rf \<in> {-1, rv_CandidateID args} \<and>
      Pos (last_term rf) (getLastLogIndex rf) \<le> Pos (rv_LastLogTerm args) (rv_LastLogIndex args)")
    case True
    with assms(1) False t up show ?thesis
      by (intro granted) (auto simp: RequestVote_def Let_def raised_def [symmetric] split: if_splits)
  next
    case no: False
    with assms(1) False t up show ?thesis
      by (intro refused) (auto simp: RequestVote_def Let_def raised_def [symmetric] split: if_splits)
  qed
qed

lemma grant_steps:
  assumes "votedFor rf \<in> {-1, c}" and "rf' = resetElectionTimeout ck (persist (rf\<lparr>votedFor := c\<rparr>))"
  shows "keeps_log rf rf'" "vote_step rf rf'" "no_new_leader rf rf'" "no_new_candidate rf rf'"
    "persisted rf'" "commitIndex rf' = commitIndex rf" "lastApplied rf' = lastApplied rf"
    "nextIndex rf' = nextIndex rf" "matchIndex rf' = matchIndex rf"
  using assms by (simp_all add: step_defs frame_simps) auto

lemma RequestVote_steps:
  assumes "RequestVote ck args rf = Some (r, rf')" and "rlog rf \<noteq> []" and "persisted rf"
  shows "keeps_log rf rf'" "vote_step rf rf'" "no_new_leader rf rf'" "no_new_candidate rf rf'"
    "persisted rf'" "commitIndex rf' = commitIndex rf" "lastApplied rf' = lastApplied rf"
    "nextIndex rf' = nextIndex rf" "matchIndex rf' = matchIndex rf"
proof -
  have "keeps_log rf rf' \<and> vote_step rf rf' \<and> no_new_leader rf rf' \<and> no_new_candidate rf rf' \<and>
    persisted rf' \<and> commitIndex rf' = commitIndex rf \<and> lastApplied rf' = lastApplied rf \<and>
    nextIndex rf' = nextIndex rf \<and> matchIndex rf' = matchIndex rf"
    using assms(1,2)
  proof (cases rule: RequestVote_cases)
    case granted
    note g = grant_steps [OF granted(5,2)]
    from g(5-9) show ?thesis
      by (auto intro: keeps_log_trans [OF _ g(1)] vote_step_trans [OF _ g(2)]
          no_new_leader_trans [OF _ g(3)] no_new_candidate_trans [OF _ g(4)])
  qed (use assms(3) in simp_all)
  then show "keeps_log rf rf'" "vote_step rf rf'" "no_new_leader rf rf'" "no_new_candidate rf rf'"
    "persisted rf'" "commitIndex rf' = commitIndex rf" "lastApplied rf' = lastApplied rf"
    "nextIndex rf' = nextIndex rf" "matchIndex rf' = matchIndex rf" by simp_all
qed

end
