(* ===== verification/RaftLocalRepl.thy ===== *)
theory RaftLocalRepl
  imports RaftLocal
begin

section \<open>What one critical section does: replication, snapshots, application\<close>

subsection \<open>Becoming leader\<close>

lemma transitionToLeader_eq:
  assumes "length (nextIndex rf) = length (peers rf)" and "length (matchIndex rf) = length (peers rf)"
  shows "transitionToLeader rf = Some (rf\<lparr>role := Leader,
    nextIndex := replicate (length (peers rf)) (getLastLogIndex rf + 1),
    matchIndex := replicate (length (peers rf)) 0\<rparr>)"
  using assms by (simp add: transitionToLeader_def fill_peers_def Let_def getLastLogIndex_def)

text \<open>The five ways a vote goroutine can end.\<close>

lemma handleVoteReply_cases:
  assumes "handleVoteReply ck r el rf = Some (el', rf')"
    and "length (nextIndex rf) = length (peers rf)" and "length (matchIndex rf) = length (peers rf)"
  obtains (ignored) "role rf \<noteq> Candidate \<or> currentTerm rf \<noteq> el_term el" "el' = el" "rf' = rf"
  | (outdated) "currentTerm rf < rvr_Term r" "el' = el" "rf' = stepDown ck (rvr_Term r) rf"
  | (refused) "role rf = Candidate" "currentTerm rf = el_term el" "\<not> rvr_VoteGranted r"
      "rvr_Term r \<le> currentTerm rf" "el' = el" "rf' = rf"
  | (counted) "role rf = Candidate" "currentTerm rf = el_term el" "rvr_VoteGranted r"
      "rvr_Term r \<le> currentTerm rf" "el' = el\<lparr>el_votes := el_votes el + 1\<rparr>" "rf' = rf"
      "el_votes el + 1 \<le> int (length (peers rf) div 2)"
  | (won) "role rf = Candidate" "currentTerm rf = el_term el" "rvr_VoteGranted r"
      "rvr_Term r \<le> currentTerm rf" "el' = el\<lparr>el_votes := el_votes el + 1\<rparr>"
      "rf' = rf\<lparr>role := Leader,
         nextIndex := replicate (length (peers rf)) (getLastLogIndex rf + 1),
         matchIndex := replicate (length (peers rf)) 0\<rparr>"
      "int (length (peers rf) div 2) < el_votes el + 1"
proof -
  consider "role rf \<noteq> Candidate \<or> currentTerm rf \<noteq> el_term el"
    | "role rf = Candidate" "currentTerm rf = el_term el" "rvr_Term r > currentTerm rf"
    | "role rf = Candidate" "currentTerm rf = el_term el" "rvr_Term r \<le> currentTerm rf"
      "\<not> rvr_VoteGranted r"
    | "role rf = Candidate" "currentTerm rf = el_term el" "rvr_Term r \<le> currentTerm rf"
      "rvr_VoteGranted r"
    by linarith
  then show ?thesis
  proof cases
    case 4
    with assms show ?thesis
      using transitionToLeader_eq [OF assms(2,3)]
      by (cases "el_votes el + 1 \<le> int (length (peers rf) div 2)")
         (auto simp: handleVoteReply_def Let_def intro: counted won)
  qed (use assms(1) in \<open>auto simp: handleVoteReply_def stepDown_def intro: ignored outdated refused\<close>)
qed

subsection \<open>Committing\<close>

text \<open>The peers, other than this one, whose \<open>matchIndex\<close> reaches \<open>n\<close>.\<close>

definition matchers :: "int \<Rightarrow> 'c raft \<Rightarrow> nat set" where
  "matchers n rf = {p. p < length (peers rf) \<and> int p \<noteq> me rf \<and> n \<le> matchIndex rf ! p}"

lemma count_match_eq:
  "set ps \<subseteq> {..<length (matchIndex rf)} \<Longrightarrow> distinct ps \<Longrightarrow>
   count_match ps n rf = Some (1 + int (card {p \<in> set ps. int p \<noteq> me rf \<and> n \<le> matchIndex rf ! p}))"
proof (induction ps)
  case Nil
  then show ?case by simp
next
  case (Cons p ps)
  let ?P = "\<lambda>p. int p \<noteq> me rf \<and> n \<le> matchIndex rf ! p"
  have "{q \<in> set (p # ps). ?P q} = (if ?P p then insert p {q \<in> set ps. ?P q} else {q \<in> set ps. ?P q})"
    by auto
  moreover have "p \<notin> {q \<in> set ps. ?P q}"
    using Cons.prems by simp
  ultimately show ?case
    using Cons by simp
qed

lemma count_match_all:
  assumes "length (matchIndex rf) = length (peers rf)"
  shows "count_match [0..<length (peers rf)] n rf = Some (1 + int (card (matchers n rf)))"
  using assms by (subst count_match_eq) (auto simp: matchers_def intro!: arg_cong [where f = card])

text \<open>
  \<open>advanceCommit\<close> moves the commit index only to an entry of the current term that a majority of
  peers, counting the leader, holds; and it does nothing else.
\<close>

lemma advanceCommit_spec:
  assumes "advanceCommit n rf = Some rf'" and "length (matchIndex rf) = length (peers rf)"
    and "lastIncludedIndex rf \<le> commitIndex rf" and "n \<le> getLastLogIndex rf"
  shows "rf' = rf \<or> (\<exists>c. rf' = rf\<lparr>commitIndex := c\<rparr> \<and> commitIndex rf < c \<and> c \<le> n \<and>
    term_at c rf = currentTerm rf \<and> int (length (peers rf) div 2) < 1 + int (card (matchers c rf)))"
  using assms
proof (induction n rf rule: advanceCommit.induct)
  case (1 n rf)
  show ?case
  proof (cases "n > commitIndex rf")
    case False
    with "1.prems" show ?thesis by (simp add: advanceCommit.simps [of n])
  next
    case True
    with "1.prems" have t: "getLogTerm n rf = Some (term_at n rf)"
      by (intro getLogTerm_in) auto
    note cm = count_match_all [OF "1.prems"(2), of n]
    show ?thesis
    proof (cases "term_at n rf = currentTerm rf \<and>
        int (length (peers rf) div 2) < 1 + int (card (matchers n rf))")
      case yes: True
      with True t cm "1.prems"(1) show ?thesis by (auto simp: advanceCommit.simps [of n])
    next
      case False
      with True t cm "1.prems"(1) have rec: "advanceCommit (n - 1) rf = Some rf'"
        by (auto simp: advanceCommit.simps [of n] split: if_splits)
      have "rf' = rf \<or> (\<exists>c. rf' = rf\<lparr>commitIndex := c\<rparr> \<and> commitIndex rf < c \<and> c \<le> n - 1 \<and>
        term_at c rf = currentTerm rf \<and> int (length (peers rf) div 2) < 1 + int (card (matchers c rf)))"
      proof (cases "term_at n rf = currentTerm rf")
        case True
        with \<open>n > commitIndex rf\<close> t cm False rec "1.prems" "1.IH"(1) show ?thesis by simp
      next
        case False
        with \<open>n > commitIndex rf\<close> t rec "1.prems" "1.IH"(2) show ?thesis by simp
      qed
      then show ?thesis by auto
    qed
  qed
qed

lemma advanceCommit_total:
  \<comment> \<open>it never panics\<close>
  assumes "length (matchIndex rf) = length (peers rf)"
    and "lastIncludedIndex rf \<le> commitIndex rf" and "n \<le> getLastLogIndex rf"
  shows "advanceCommit n rf \<noteq> None"
  using assms
proof (induction n rf rule: advanceCommit.induct)
  case (1 n rf)
  show ?case
  proof (cases "n > commitIndex rf")
    case False
    then show ?thesis by (simp add: advanceCommit.simps [of n])
  next
    case True
    with "1.prems" have t: "getLogTerm n rf = Some (term_at n rf)"
      by (intro getLogTerm_in) auto
    with True "1" count_match_all [OF "1.prems"(1), of n] show ?thesis
      by (auto simp: advanceCommit.simps [of n])
  qed
qed

subsection \<open>Sending and hearing back\<close>

lemma sendAppend_spec:
  assumes "sendAppendEntriesToPeer p term rf = Some (Some args)" and "rlog rf \<noteq> []"
  shows "role rf = Leader" and "currentTerm rf = term" and "ae_Term args = term"
    and "ae_LeaderID args = me rf" and "ae_LeaderCommit args = commitIndex rf"
    and "lastIncludedIndex rf \<le> ae_PrevLogIndex args"
    and "ae_PrevLogIndex args \<le> getLastLogIndex rf"
    and "ae_PrevLogTerm args = term_at (ae_PrevLogIndex args) rf"
    and "ae_Entries args = drop (nat (ae_PrevLogIndex args + 1 - lastIncludedIndex rf)) (rlog rf)"
proof -
  from assms(1) obtain ni where ni: "go_index (nextIndex rf) (int p) = Some ni"
    and lead: "role rf = Leader" "currentTerm rf = term" and lo: "lastIncludedIndex rf \<le> ni - 1"
    by (auto simp: sendAppendEntriesToPeer_def Let_def split: if_splits Option.bind_splits)
  have hi: "ni - 1 \<le> getLastLogIndex rf"
  proof (rule ccontr)
    assume "\<not> ni - 1 \<le> getLastLogIndex rf"
    then show False
      using assms(1) ni lead lo
      by (auto simp: sendAppendEntriesToPeer_def Let_def split: if_splits Option.bind_splits)
  qed
  have t: "getLogTerm (ni - 1) rf = Some (term_at (ni - 1) rf)"
    using lo hi by (intro getLogTerm_in)
  have d: "go_drop (rlog rf) (ni - 1 + 1 - lastIncludedIndex rf) =
      Some (drop (nat (ni - 1 + 1 - lastIncludedIndex rf)) (rlog rf))"
    using lo hi by (intro go_drop_Some) (auto simp: getLastLogIndex_def)
  have "args = \<lparr>ae_Term = currentTerm rf, ae_LeaderID = me rf, ae_PrevLogIndex = ni - 1,
      ae_PrevLogTerm = term_at (ni - 1) rf,
      ae_Entries = drop (nat (ni - 1 + 1 - lastIncludedIndex rf)) (rlog rf),
      ae_LeaderCommit = commitIndex rf\<rparr>"
    using assms(1) ni lead lo hi t d
    by (auto simp: sendAppendEntriesToPeer_def Let_def split: if_splits)
  with lead lo hi show "role rf = Leader" and "currentTerm rf = term" and "ae_Term args = term"
    and "ae_LeaderID args = me rf" and "ae_LeaderCommit args = commitIndex rf"
    and "lastIncludedIndex rf \<le> ae_PrevLogIndex args"
    and "ae_PrevLogIndex args \<le> getLastLogIndex rf"
    and "ae_PrevLogTerm args = term_at (ae_PrevLogIndex args) rf"
    and "ae_Entries args = drop (nat (ae_PrevLogIndex args + 1 - lastIncludedIndex rf)) (rlog rf)"
    by simp_all
qed

text \<open>The state after \<open>matchIndex[p]\<close> was raised to at least \<open>m\<close> and \<open>nextIndex[p]\<close> set after it.\<close>

definition recordMatch :: "nat \<Rightarrow> int \<Rightarrow> 'c raft \<Rightarrow> 'c raft" where
  "recordMatch p m rf =
     rf\<lparr>matchIndex := (matchIndex rf)[p := max m (matchIndex rf ! p)],
        nextIndex := (nextIndex rf)[p := max m (matchIndex rf ! p) + 1]\<rparr>"

lemma recordMatch_fields [simp]:
  "rlog (recordMatch p m rf) = rlog rf" "lastIncludedIndex (recordMatch p m rf) = lastIncludedIndex rf"
  "lastIncludedTerm (recordMatch p m rf) = lastIncludedTerm rf"
  "peers (recordMatch p m rf) = peers rf" "me (recordMatch p m rf) = me rf"
  "commitIndex (recordMatch p m rf) = commitIndex rf" "lastApplied (recordMatch p m rf) = lastApplied rf"
  "currentTerm (recordMatch p m rf) = currentTerm rf" "votedFor (recordMatch p m rf) = votedFor rf"
  "role (recordMatch p m rf) = role rf" "persister (recordMatch p m rf) = persister rf"
  "length (matchIndex (recordMatch p m rf)) = length (matchIndex rf)"
  "length (nextIndex (recordMatch p m rf)) = length (nextIndex rf)"
  "getLastLogIndex (recordMatch p m rf) = getLastLogIndex rf"
  "term_at i (recordMatch p m rf) = term_at i rf"
  "persisted (recordMatch p m rf) = persisted rf"
  by (simp_all add: recordMatch_def getLastLogIndex_def term_at_def persisted_def serializeState_def)

lemma if_max: "(if b < (a :: int) then a else b) = max a b"
  by auto

lemma handleAppendReply_cases:
  assumes "handleAppendReply ck p t args r rf = Some rf'"
    and "p < length (peers rf)" and "length (nextIndex rf) = length (peers rf)"
    and "length (matchIndex rf) = length (peers rf)" and "lastIncludedIndex rf \<le> commitIndex rf"
  obtains (ignored) "rf' = rf"
  | (outdated) "currentTerm rf < aer_Term r" "rf' = stepDown ck (aer_Term r) rf"
  | (accepted) m where "role rf = Leader" "currentTerm rf = t" "aer_Success r"
      "m = ae_PrevLogIndex args + int (length (ae_Entries args))"
      "rf' = recordMatch p m rf"
  | (committed) m c where "role rf = Leader" "currentTerm rf = t" "aer_Success r"
      "m = ae_PrevLogIndex args + int (length (ae_Entries args))"
      "rf' = (recordMatch p m rf)\<lparr>commitIndex := c\<rparr>" "commitIndex rf < c"
      "c \<le> getLastLogIndex rf" "term_at c rf = currentTerm rf"
      "int (length (peers rf) div 2) < 1 + int (card (matchers c (recordMatch p m rf)))"
  | (backed) ni where "role rf = Leader" "currentTerm rf = t" "\<not> aer_Success r"
      "rf' = rf\<lparr>nextIndex := (nextIndex rf)[p := ni]\<rparr>" "1 \<le> ni"
proof -
  consider "role rf \<noteq> Leader \<or> currentTerm rf \<noteq> t"
    | "role rf = Leader" "currentTerm rf = t" "currentTerm rf < aer_Term r"
    | "role rf = Leader" "currentTerm rf = t" "aer_Term r \<le> currentTerm rf" "aer_Success r"
    | "role rf = Leader" "currentTerm rf = t" "aer_Term r \<le> currentTerm rf" "\<not> aer_Success r"
    by linarith
  then show ?thesis
  proof cases
    case 3
    let ?m = "ae_PrevLogIndex args + int (length (ae_Entries args))"
    have "advanceCommit (getLastLogIndex rf) (recordMatch p ?m rf) = Some rf'"
      using 3 assms(1-4)
      by (simp add: handleAppendReply_def Let_def if_max recordMatch_def getLastLogIndex_def
          split: if_splits)
    then consider "rf' = recordMatch p ?m rf" | c where "rf' = (recordMatch p ?m rf)\<lparr>commitIndex := c\<rparr>"
      "commitIndex rf < c" "c \<le> getLastLogIndex rf" "term_at c rf = currentTerm rf"
      "int (length (peers rf) div 2) < 1 + int (card (matchers c (recordMatch p ?m rf)))"
      using advanceCommit_spec [of "getLastLogIndex rf" "recordMatch p ?m rf" rf'] assms(4,5) by auto
    then show ?thesis
    proof cases
      case 1
      with 3 show ?thesis by (intro accepted) simp_all
    next
      case 2
      with 3 show ?thesis by (intro committed) simp_all
    qed
  next
    case 4
    then obtain x where "backtrackNext r rf = Some x"
        "rf' = rf\<lparr>nextIndex := (nextIndex rf)[p := max 1 x]\<rparr>"
      using assms(1-4)
      by (auto simp: handleAppendReply_def Let_def max_def split: if_splits Option.bind_splits)
    with 4 show ?thesis by (intro backed [of "max 1 x"]) simp_all
  qed (use assms(1) in \<open>auto simp: handleAppendReply_def intro: ignored outdated\<close>)
qed

lemma sendSnapshot_spec:
  assumes "sendSnapshotToPeer term rf = Some args"
  shows "role rf = Leader" and "currentTerm rf = term" and "is_Term args = term"
    and "is_LeaderID args = me rf" and "is_LastIncludedIndex args = lastIncludedIndex rf"
    and "is_LastIncludedTerm args = lastIncludedTerm rf"
    and "is_Data args = Mem_ReadSnapshot (persister rf)"
  using assms by (auto simp: sendSnapshotToPeer_def split: if_splits)

lemma handleSnapshotReply_cases:
  assumes "handleSnapshotReply ck p t args r rf = Some rf'"
    and "p < length (peers rf)" and "length (nextIndex rf) = length (peers rf)"
    and "length (matchIndex rf) = length (peers rf)"
  obtains (ignored) "rf' = rf"
  | (outdated) "currentTerm rf < isr_Term r" "rf' = stepDown ck (isr_Term r) rf"
  | (accepted) "role rf = Leader" "currentTerm rf = t" "isr_Term r \<le> currentTerm rf"
      "rf' = recordMatch p (is_LastIncludedIndex args) rf"
proof -
  consider "role rf \<noteq> Leader \<or> currentTerm rf \<noteq> t"
    | "role rf = Leader" "currentTerm rf = t" "currentTerm rf < isr_Term r"
    | "role rf = Leader" "currentTerm rf = t" "isr_Term r \<le> currentTerm rf"
    by linarith
  then show ?thesis
  proof cases
    case 3
    with assms show ?thesis
      by (intro accepted) (auto simp: handleSnapshotReply_def Let_def if_max recordMatch_def split: if_splits)
  qed (use assms(1) in \<open>auto simp: handleSnapshotReply_def intro: ignored outdated\<close>)
qed

subsection \<open>Receiving entries\<close>

definition mergedLog :: "'c AppendEntriesArgs \<Rightarrow> 'c raft \<Rightarrow> 'c LogEntry list" where
  "mergedLog args rf =
     (let k = nat (ae_PrevLogIndex args + 1 - lastIncludedIndex rf)
      in take k (rlog rf) @ merge_entries (drop k (rlog rf)) (ae_Entries args))"

definition newCommit :: "'c AppendEntriesArgs \<Rightarrow> 'c raft \<Rightarrow> int" where
  "newCommit args rf =
     max (commitIndex rf)
         (min (ae_LeaderCommit args) (lastIncludedIndex rf + int (length (mergedLog args rf)) - 1))"

lemma AppendEntries_cases:
  assumes "AppendEntries ck args rf = Some (r, rf')"
  obtains (old) "ae_Term args < currentTerm rf" "rf' = rf" "\<not> aer_Success r"
      "aer_Term r = currentTerm rf"
  | (rejected) "currentTerm rf \<le> ae_Term args" "rf' = observeTerm ck (ae_Term args) rf"
      "\<not> aer_Success r" "aer_Term r = currentTerm rf"
  | (accepted) "currentTerm rf \<le> ae_Term args" "aer_Success r" "aer_Term r = currentTerm rf"
      "lastIncludedIndex rf \<le> ae_PrevLogIndex args" "ae_PrevLogIndex args \<le> getLastLogIndex rf"
      "term_at (ae_PrevLogIndex args) rf = ae_PrevLogTerm args"
      "rf' = (saveLog (mergedLog args rf) (observeTerm ck (ae_Term args) rf))
               \<lparr>commitIndex := (if ae_LeaderCommit args > commitIndex rf
                  then min (ae_LeaderCommit args)
                           (lastIncludedIndex rf + int (length (mergedLog args rf)) - 1)
                  else commitIndex rf)\<rparr>"
proof -
  let ?rf = "observeTerm ck (ae_Term args) rf"
  consider "ae_Term args < currentTerm rf"
    | "currentTerm rf \<le> ae_Term args" "getLastLogIndex rf < ae_PrevLogIndex args"
    | "currentTerm rf \<le> ae_Term args" "ae_PrevLogIndex args < lastIncludedIndex rf"
    | "currentTerm rf \<le> ae_Term args" "lastIncludedIndex rf \<le> ae_PrevLogIndex args"
      "ae_PrevLogIndex args \<le> getLastLogIndex rf" "term_at (ae_PrevLogIndex args) rf \<noteq> ae_PrevLogTerm args"
    | "currentTerm rf \<le> ae_Term args" "lastIncludedIndex rf \<le> ae_PrevLogIndex args"
      "ae_PrevLogIndex args \<le> getLastLogIndex rf" "term_at (ae_PrevLogIndex args) rf = ae_PrevLogTerm args"
    by linarith
  then show ?thesis
  proof cases
    case 4
    with assms getLogTerm_in [of rf "ae_PrevLogIndex args"] show ?thesis
      by (intro rejected) (auto simp: AppendEntries_def Let_def split: if_splits Option.bind_splits)
  next
    case 5
    have t: "getLogTerm (ae_PrevLogIndex args) rf = Some (ae_PrevLogTerm args)"
      using 5 getLogTerm_in [of rf "ae_PrevLogIndex args"] by simp
    have l: "appendEntriesLoop (ae_PrevLogIndex args + 1) (ae_Entries args) (getLastLogIndex rf) ?rf =
      Some (lastIncludedIndex rf + int (length (mergedLog args rf)) - 1,
            saveLog (mergedLog args rf) ?rf)"
      using appendEntriesLoop_eq [of ?rf "ae_PrevLogIndex args + 1" "ae_Entries args"] 5
      by (simp add: mergedLog_def Let_def)
    from 5 assms t l show ?thesis
      by (intro accepted)
         (auto simp: AppendEntries_def Let_def frame_simps min_def split: if_splits)
  qed (use assms in \<open>auto simp: AppendEntries_def Let_def intro: old rejected split: if_splits\<close>)
qed

subsection \<open>Receiving a snapshot\<close>

lemma drop_update_0: "k < length xs \<Longrightarrow> (drop k xs)[0 := d] = d # drop (Suc k) xs"
  by (simp add: Cons_nth_drop_Suc [symmetric])

text \<open>The log after a snapshot: what follows it if the log agrees with it, nothing otherwise.\<close>

definition agreesWithSnapshot :: "'c InstallSnapshotArgs \<Rightarrow> 'c raft \<Rightarrow> bool" where
  "agreesWithSnapshot args rf \<longleftrightarrow> is_LastIncludedIndex args \<le> getLastLogIndex rf \<and>
     term_at (is_LastIncludedIndex args) rf = is_LastIncludedTerm args"

definition snapshotLog :: "'c InstallSnapshotArgs \<Rightarrow> 'c raft \<Rightarrow> 'c LogEntry list" where
  "snapshotLog args rf =
     dummyEntry (is_LastIncludedTerm args) (is_LastIncludedIndex args) #
     (if agreesWithSnapshot args rf
      then drop (nat (is_LastIncludedIndex args - lastIncludedIndex rf + 1)) (rlog rf) else [])"

lemma InstallSnapshot_cases:
  assumes "InstallSnapshot ck args rf = Some (r, rf')"
  obtains (old) "is_Term args < currentTerm rf" "rf' = rf" "isr_Term r = currentTerm rf"
  | (known) "currentTerm rf \<le> is_Term args" "is_LastIncludedIndex args \<le> lastIncludedIndex rf"
      "rf' = observeTerm ck (is_Term args) rf" "isr_Term r = currentTerm rf"
  | (installed) "currentTerm rf \<le> is_Term args" "lastIncludedIndex rf < is_LastIncludedIndex args"
      "isr_Term r = currentTerm rf" "rlog rf' = snapshotLog args rf"
      "lastIncludedIndex rf' = is_LastIncludedIndex args"
      "lastIncludedTerm rf' = is_LastIncludedTerm args"
      "commitIndex rf' = max (commitIndex rf) (is_LastIncludedIndex args)"
      "lastApplied rf' = max (lastApplied rf) (is_LastIncludedIndex args)"
      "persisted rf'" "currentTerm rf' = is_Term args"
      "votedFor rf' = votedFor (observeTerm ck (is_Term args) rf)"
      "role rf' = role (observeTerm ck (is_Term args) rf)"
      "peers rf' = peers rf" "me rf' = me rf" "nextIndex rf' = nextIndex rf"
      "matchIndex rf' = matchIndex rf"
proof -
  let ?i = "is_LastIncludedIndex args" and ?rf = "observeTerm ck (is_Term args) rf"
  consider "is_Term args < currentTerm rf"
    | "currentTerm rf \<le> is_Term args" "?i \<le> lastIncludedIndex rf"
    | "currentTerm rf \<le> is_Term args" "lastIncludedIndex rf < ?i" "agreesWithSnapshot args rf"
    | "currentTerm rf \<le> is_Term args" "lastIncludedIndex rf < ?i" "\<not> agreesWithSnapshot args rf"
    by linarith
  then show ?thesis
  proof cases
    case 3
    have t: "getLogTerm ?i rf = Some (is_LastIncludedTerm args)"
      using 3 getLogTerm_in [of rf ?i] by (simp add: agreesWithSnapshot_def)
    have k: "nat (?i - lastIncludedIndex rf) < length (rlog rf)"
      using 3 by (auto simp: agreesWithSnapshot_def getLastLogIndex_def)
    then have d: "go_drop (rlog rf) (?i - lastIncludedIndex rf) =
        Some (drop (nat (?i - lastIncludedIndex rf)) (rlog rf))"
      using 3 by (intro go_drop_Some) auto
    have u: "go_update (drop (nat (?i - lastIncludedIndex rf)) (rlog rf)) 0
          (dummyEntry (is_LastIncludedTerm args) ?i) = Some (snapshotLog args rf)"
      using 3 k drop_update_0 [OF k]
      by (simp add: snapshotLog_def go_update_def nat_add_distrib)
    from 3 assms t d u show ?thesis
      by (intro installed)
         (auto simp: InstallSnapshot_def Let_def agreesWithSnapshot_def max_def split: if_splits)
  next
    case 4
    then have s: "(if ?i \<le> getLastLogIndex rf then do { t \<leftarrow> getLogTerm ?i rf;
        Some (t = is_LastIncludedTerm args) } else Some False) = Some False"
      using getLogTerm_in [of rf ?i] by (auto simp: agreesWithSnapshot_def)
    from 4 assms s show ?thesis
      by (intro installed)
         (auto simp: InstallSnapshot_def Let_def snapshotLog_def max_def split: if_splits)
  qed (use assms in \<open>auto simp: InstallSnapshot_def Let_def intro: old known split: if_splits\<close>)
qed

subsection \<open>Proposing, compacting, applying, restarting\<close>

lemma Start_spec:
  assumes "Start c rf = ((idx, term, lead), rf')" and "persisted rf"
  shows "term = currentTerm rf" and "lead \<longleftrightarrow> role rf = Leader"
    and "\<not> lead \<Longrightarrow> rf' = rf \<and> idx = -1"
    and "lead \<Longrightarrow> idx = getLastLogIndex rf + 1 \<and>
      rf' = persist (rf\<lparr>rlog := rlog rf @ [\<lparr>le_Term = currentTerm rf, le_Index = idx, le_Command = Some c\<rparr>]\<rparr>)"
  using assms by (auto simp: Start_def Let_def split: if_splits)

lemma Raft_Snapshot_spec:
  assumes "Raft_Snapshot i d rf = Some rf'" and "lastIncludedIndex rf < i"
  shows "i \<le> getLastLogIndex rf"
    and "rlog rf' = dummyEntry (term_at i rf) i # drop (nat (i - lastIncludedIndex rf + 1)) (rlog rf)"
    and "lastIncludedIndex rf' = i" and "lastIncludedTerm rf' = term_at i rf" and "persisted rf'"
    and "currentTerm rf' = currentTerm rf" and "votedFor rf' = votedFor rf" and "role rf' = role rf"
    and "peers rf' = peers rf" and "me rf' = me rf" and "commitIndex rf' = commitIndex rf"
    and "lastApplied rf' = lastApplied rf" and "nextIndex rf' = nextIndex rf"
    and "matchIndex rf' = matchIndex rf"
proof -
  show i: "i \<le> getLastLogIndex rf"
  proof (rule ccontr)
    assume "\<not> i \<le> getLastLogIndex rf"
    with assms show False by (simp add: Raft_Snapshot_def getLogTerm_out)
  qed
  have t: "getLogTerm i rf = Some (term_at i rf)"
    using i assms(2) getLogTerm_in [of rf i] by simp
  have k: "nat (i - lastIncludedIndex rf) < length (rlog rf)"
    using i assms(2) by (auto simp: getLastLogIndex_def)
  have d: "go_drop (rlog rf) (i - lastIncludedIndex rf) = Some (drop (nat (i - lastIncludedIndex rf)) (rlog rf))"
    using k assms(2) by (intro go_drop_Some) auto
  have u: "go_update (drop (nat (i - lastIncludedIndex rf)) (rlog rf)) 0 (dummyEntry (term_at i rf) i)
      = Some (dummyEntry (term_at i rf) i # drop (nat (i - lastIncludedIndex rf + 1)) (rlog rf))"
    using k assms(2) drop_update_0 [OF k] by (simp add: go_update_def nat_add_distrib)
  from assms t d u show "rlog rf' = dummyEntry (term_at i rf) i # drop (nat (i - lastIncludedIndex rf + 1)) (rlog rf)"
    and "lastIncludedIndex rf' = i" and "lastIncludedTerm rf' = term_at i rf" and "persisted rf'"
    and "currentTerm rf' = currentTerm rf" and "votedFor rf' = votedFor rf" and "role rf' = role rf"
    and "peers rf' = peers rf" and "me rf' = me rf" and "commitIndex rf' = commitIndex rf"
    and "lastApplied rf' = lastApplied rf" and "nextIndex rf' = nextIndex rf"
    and "matchIndex rf' = matchIndex rf"
    by (auto simp: Raft_Snapshot_def Let_def)
qed

text \<open>The applier delivers the committed commands it has not delivered, in index order.\<close>

definition deliveries :: "int \<Rightarrow> int \<Rightarrow> 'c raft \<Rightarrow> 'c ApplyMsg list" where
  "deliveries a b rf =
     map (\<lambda>i. CommandMsg (le_Command (rlog rf ! nat (i - lastIncludedIndex rf))) i) [a..b]"

lemma applyLoop_eq:
  assumes "lastIncludedIndex rf \<le> lastApplied rf" and "lastApplied rf \<le> commitIndex rf"
    and "commitIndex rf \<le> getLastLogIndex rf"
  shows "applyLoop rf = Some (deliveries (lastApplied rf + 1) (commitIndex rf) rf,
    rf\<lparr>lastApplied := commitIndex rf\<rparr>)"
  using assms
proof (induction rf rule: applyLoop.induct)
  case (1 rf)
  show ?case
  proof (cases "lastApplied rf < commitIndex rf")
    case False
    with "1.prems" show ?thesis by (simp add: applyLoop.simps [of rf] deliveries_def)
  next
    case True
    let ?rf = "rf\<lparr>lastApplied := lastApplied rf + 1\<rparr>"
    let ?e = "rlog rf ! nat (lastApplied rf + 1 - lastIncludedIndex rf)"
    have e: "getLogEntry (lastApplied rf + 1) ?rf = Some ?e"
      using True "1.prems" by (simp add: getLogEntry_def getLastLogIndex_def go_simps)
    have "applyLoop ?rf = Some (deliveries (lastApplied rf + 2) (commitIndex rf) rf,
        rf\<lparr>lastApplied := commitIndex rf\<rparr>)"
      using "1.IH"(2) [OF True refl refl] True "1.prems" e
      by (simp add: deliveries_def getLastLogIndex_def add.commute)
    then show ?thesis
      using True "1.prems" e upto_rec1 [of "lastApplied rf + 1" "commitIndex rf"]
      by (simp add: applyLoop.simps [of rf] Let_def deliveries_def add.commute)
  qed
qed

lemma applier_cases:
  assumes "applier rf = Some (msgs, rf')" and "lastIncludedIndex rf \<le> lastApplied rf"
    and "lastApplied rf \<le> commitIndex rf" and "commitIndex rf \<le> getLastLogIndex rf"
  obtains (idle) "msgs = []" "rf' = rf"
  | (snapshot) "pendingSnapshotValid rf"
      "msgs = [SnapshotMsg (pendingSnapshot rf) (pendingSnapshotTerm rf) (pendingSnapshotIndex rf)]"
      "rf' = rf\<lparr>pendingSnapshotValid := False, pendingSnapshot := None\<rparr>"
  | (commands) "msgs = deliveries (lastApplied rf + 1) (commitIndex rf) rf"
      "rf' = rf\<lparr>lastApplied := commitIndex rf\<rparr>"
proof -
  consider "\<not> applier_ready rf" | "applier_ready rf" "pendingSnapshotValid rf"
    | "applier_ready rf" "\<not> pendingSnapshotValid rf" by blast
  then show ?thesis
  proof cases
    case 1
    with assms(1) show ?thesis by (intro idle) (simp_all add: applier_def)
  next
    case 2
    with assms(1) show ?thesis by (intro snapshot) (simp_all add: applier_def)
  next
    case 3
    with assms(1) applyLoop_eq [OF assms(2-4)] show ?thesis
      by (intro commands) (simp_all add: applier_def)
  qed
qed

subsection \<open>Fields alone, without any assumption on the indexes\<close>

lemma commitIndex_id: "\<exists>c. rf = rf\<lparr>commitIndex := c\<rparr>"
  by (rule exI [where x = "commitIndex rf"]) simp

lemma advanceCommit_frame:
  "advanceCommit n rf = Some rf' \<Longrightarrow> \<exists>c. rf' = rf\<lparr>commitIndex := c\<rparr>"
proof (induction n rf rule: advanceCommit.induct)
  case (1 n rf)
  show ?case
  proof (cases "n > commitIndex rf")
    case False
    with "1.prems" show ?thesis
      using commitIndex_id [of rf] by (subst (asm) advanceCommit.simps) simp
  next
    case True
    with "1.prems" obtain t where t: "getLogTerm n rf = Some t"
      by (subst (asm) advanceCommit.simps) (simp split: Option.bind_splits)
    from True t "1.prems" consider "rf' = rf\<lparr>commitIndex := n\<rparr>"
      | c where "t = currentTerm rf" "count_match [0..<length (peers rf)] n rf = Some c"
        "\<not> int (length (peers rf) div 2) < c" "advanceCommit (n - 1) rf = Some rf'"
      | "t \<noteq> currentTerm rf" "advanceCommit (n - 1) rf = Some rf'"
      by (subst (asm) advanceCommit.simps) (auto split: if_splits Option.bind_splits)
    then show ?thesis
      using "1.IH" True t by cases auto
  qed
qed

lemma handleAppendReply_shape:
  assumes "handleAppendReply ck p t args r rf = Some rf'"
  obtains "rf' = rf" | "currentTerm rf < aer_Term r" "rf' = stepDown ck (aer_Term r) rf"
  | c mis nis where "rf' = rf\<lparr>matchIndex := mis, nextIndex := nis, commitIndex := c\<rparr>"
      "length mis = length (matchIndex rf)" "length nis = length (nextIndex rf)"
proof -
  consider "role rf \<noteq> Leader \<or> currentTerm rf \<noteq> t"
    | "role rf = Leader" "currentTerm rf = t" "currentTerm rf < aer_Term r"
    | "role rf = Leader" "currentTerm rf = t" "aer_Term r \<le> currentTerm rf" "aer_Success r"
    | "role rf = Leader" "currentTerm rf = t" "aer_Term r \<le> currentTerm rf" "\<not> aer_Success r"
    by linarith
  then show thesis
  proof cases
    case 1
    with assms that(1) show thesis by (simp add: handleAppendReply_def)
  next
    case 2
    with assms that(2) show thesis by (simp add: handleAppendReply_def)
  next
    case 3
    with assms obtain i mi mis nis where "go_update (matchIndex rf) (int p) mi = Some mis"
      "go_update (nextIndex rf) (int p) (mi + 1) = Some nis"
      "advanceCommit i (rf\<lparr>matchIndex := mis, nextIndex := nis\<rparr>) = Some rf'"
      by (auto simp: handleAppendReply_def Let_def split: if_splits Option.bind_splits)
    with that(3) show thesis
      by (metis advanceCommit_frame go_update_length)
  next
    case 4
    with assms obtain v nis where "go_update (nextIndex rf) (int p) v = Some nis"
      "rf' = rf\<lparr>nextIndex := nis\<rparr>"
      by (auto simp: handleAppendReply_def Let_def split: if_splits Option.bind_splits)
    with that(3) [where c = "commitIndex rf" and mis = "matchIndex rf" and nis = nis] show thesis
      by (simp add: go_update_length del: go_update_nat)
  qed
qed

lemma handleAppendReply_frame:
  assumes "handleAppendReply ck p t args r rf = Some rf'" and "persisted rf"
  shows "keeps_log rf rf'" "vote_step rf rf'" "no_new_leader rf rf'" "no_new_candidate rf rf'"
    "persisted rf'" "lastApplied rf' = lastApplied rf"
    "length (nextIndex rf') = length (nextIndex rf)" "length (matchIndex rf') = length (matchIndex rf)"
proof -
  have "keeps_log rf rf' \<and> vote_step rf rf' \<and> no_new_leader rf rf' \<and> no_new_candidate rf rf' \<and>
    persisted rf' \<and> lastApplied rf' = lastApplied rf \<and>
    length (nextIndex rf') = length (nextIndex rf) \<and> length (matchIndex rf') = length (matchIndex rf)"
    using assms(1)
    by (rule handleAppendReply_shape)
       (use assms(2) in \<open>simp_all add: step_defs\<close>)
  then show "keeps_log rf rf'" "vote_step rf rf'" "no_new_leader rf rf'" "no_new_candidate rf rf'"
    "persisted rf'" "lastApplied rf' = lastApplied rf"
    "length (nextIndex rf') = length (nextIndex rf)" "length (matchIndex rf') = length (matchIndex rf)"
    by simp_all
qed

end
