(* ===== verification/RaftCluster.thy ===== *)
theory RaftCluster
  imports RaftLocalRepl
begin

section \<open>A group of Raft peers over an unreliable network\<close>

text \<open>
  \<open>n\<close> peers run the critical sections of \<open>RaftElection\<close> and \<open>RaftReplication\<close> in any interleaving.
  The network keeps every request and every reply ever sent, so that a message can be delivered
  late, out of order, more than once (the TCP transport retries a call) or never; a request and a
  reply carry the arguments of the call they belong to. A step that would panic is not taken (the
  process dies instead, which is the crash step). A crash may hit any peer between two critical
  sections: the peer restarts from what its persister holds, with no goroutines.

  Fields after the comment line are history variables: the code does not have them, no step reads
  them, and each step updates them from the new state of the peer that moved.
\<close>

datatype 'c msg =
    VoteReq nat nat RequestVoteArgs
  | VoteRep nat nat RequestVoteArgs RequestVoteReply
  | AppendReq nat nat "'c AppendEntriesArgs"
  | AppendRep nat nat "'c AppendEntriesArgs" AppendEntriesReply
  | SnapReq nat nat "'c InstallSnapshotArgs"
  | SnapRep nat nat "'c InstallSnapshotArgs" InstallSnapshotReply

record 'c cluster =
  nodes :: "nat \<Rightarrow> 'c raft"
  net :: "'c msg set"
  elections :: "nat \<Rightarrow> int \<Rightarrow> (election \<times> nat set) option"
    \<comment> \<open>of peer and term: the shared variables and the peers whose vote goroutine still waits\<close>
  \<comment> \<open>history variables\<close>
  cast :: "(nat \<times> int \<times> int) set"               \<comment> \<open>(voter, term, candidate)\<close>
  elected :: "(int \<times> nat) set"                   \<comment> \<open>(term, leader)\<close>
  leaderLog :: "int \<Rightarrow> 'c LogEntry list"          \<comment> \<open>the whole log of the leader of a term\<close>
  delivered :: "(nat \<times> int \<times> 'c option) set"     \<comment> \<open>(peer, index, command) sent to \<open>applyCh\<close>\<close>

text \<open>
  The log of a peer with the part replaced by its snapshot put back: the first \<open>lastIncludedIndex\<close>
  entries of the log of the leader of term \<open>lastIncludedTerm\<close>, then the entries after the dummy.
\<close>

definition wholeLog :: "(int \<Rightarrow> 'c LogEntry list) \<Rightarrow> 'c raft \<Rightarrow> 'c LogEntry list" where
  "wholeLog L rf = take (nat (lastIncludedIndex rf)) (L (lastIncludedTerm rf)) @ tl (rlog rf)"

definition moveTo :: "nat \<Rightarrow> 'c raft \<Rightarrow> 'c msg set \<Rightarrow> 'c cluster \<Rightarrow> 'c cluster" where
  "moveTo i rf ms S = S\<lparr>
     nodes := (nodes S)(i := rf),
     net := net S \<union> ms,
     cast := cast S \<union> (if votedFor rf \<noteq> -1 then {(i, currentTerm rf, votedFor rf)} else {}),
     elected := elected S \<union> (if role rf = Leader then {(currentTerm rf, i)} else {}),
     leaderLog := (if role rf = Leader
                   then (leaderLog S)(currentTerm rf := wholeLog (leaderLog S) rf)
                   else leaderLog S)\<rparr>"

fun command_of :: "'c ApplyMsg \<Rightarrow> (int \<times> 'c option) set" where
  "command_of (CommandMsg c i) = {(i, c)}"
| "command_of (SnapshotMsg d t i) = {}"

definition deliver :: "nat \<Rightarrow> 'c ApplyMsg list \<Rightarrow> 'c cluster \<Rightarrow> 'c cluster" where
  "deliver i msgs S = S\<lparr>delivered := delivered S \<union> Pair i ` (\<Union>m\<in>set msgs. command_of m)\<rparr>"

text \<open>Every peer freshly made over an empty persister.\<close>

definition initial :: "nat \<Rightarrow> 'c cluster \<Rightarrow> bool" where
  "initial n S \<longleftrightarrow>
     (\<exists>addrs cks. length addrs = n \<and>
       (\<forall>i. Make (cks i) addrs (int i) NewMemoryPersister = Some (nodes S i))) \<and>
     net S = {} \<and> elections S = (\<lambda>_ _. None) \<and>
     cast S = {} \<and> elected S = {} \<and> leaderLog S = (\<lambda>_. []) \<and> delivered S = {}"

text \<open>
  \<open>net_step\<close>: what the Raft peers do among themselves, that is, timers, calls, handlers and replies.
  \<open>cluster_step\<close> adds what the owner of a peer does with it, that is, \<open>Start\<close>, \<open>Snapshot\<close> and the
  applier's messages, and crashes.
\<close>

inductive net_step :: "nat \<Rightarrow> 'c cluster \<Rightarrow> 'c cluster \<Rightarrow> bool" for n :: nat where
  elect: "\<lbrakk>i < n; startElection ck (nodes S i) = Some (el, args, rf)\<rbrakk> \<Longrightarrow>
    net_step n S ((moveTo i rf {VoteReq i j args | j. j < n \<and> j \<noteq> i} S)
      \<lparr>elections := (elections S)(i := (elections S i)(el_term el \<mapsto> (el, {j. j < n \<and> j \<noteq> i})))\<rparr>)"
| vote: "\<lbrakk>VoteReq i j args \<in> net S; RequestVote ck args (nodes S j) = Some (r, rf)\<rbrakk> \<Longrightarrow>
    net_step n S (moveTo j rf {VoteRep i j args r} S)"
| vote_reply: "\<lbrakk>VoteRep i j args r \<in> net S; elections S i (rv_Term args) = Some (el, W); j \<in> W;
     handleVoteReply ck r el (nodes S i) = Some (el', rf)\<rbrakk> \<Longrightarrow>
    net_step n S ((moveTo i rf {} S)
      \<lparr>elections := (elections S)(i := (elections S i)(rv_Term args \<mapsto> (el', W - {j})))\<rparr>)"
| send_append: "\<lbrakk>i < n; j < n; i \<noteq> j;
     sendAppendEntriesToPeer j term (nodes S i) = Some (Some args)\<rbrakk> \<Longrightarrow>
    net_step n S (S\<lparr>net := net S \<union> {AppendReq i j args}\<rparr>)"
| append: "\<lbrakk>AppendReq i j args \<in> net S; AppendEntries ck args (nodes S j) = Some (r, rf)\<rbrakk> \<Longrightarrow>
    net_step n S (moveTo j rf {AppendRep i j args r} S)"
| append_reply: "\<lbrakk>AppendRep i j args r \<in> net S;
     handleAppendReply ck j (ae_Term args) args r (nodes S i) = Some rf\<rbrakk> \<Longrightarrow>
    net_step n S (moveTo i rf {} S)"
| send_snapshot: "\<lbrakk>i < n; j < n; i \<noteq> j; sendSnapshotToPeer term (nodes S i) = Some args\<rbrakk> \<Longrightarrow>
    net_step n S (S\<lparr>net := net S \<union> {SnapReq i j args}\<rparr>)"
| install: "\<lbrakk>SnapReq i j args \<in> net S; InstallSnapshot ck args (nodes S j) = Some (r, rf)\<rbrakk> \<Longrightarrow>
    net_step n S (moveTo j rf {SnapRep i j args r} S)"
| snapshot_reply: "\<lbrakk>SnapRep i j args r \<in> net S;
     handleSnapshotReply ck j (is_Term args) args r (nodes S i) = Some rf\<rbrakk> \<Longrightarrow>
    net_step n S (moveTo i rf {} S)"
| kill: "i < n \<Longrightarrow> net_step n S (moveTo i (Kill (nodes S i)) {} S)"

inductive cluster_step :: "nat \<Rightarrow> 'c cluster \<Rightarrow> 'c cluster \<Rightarrow> bool" for n :: nat where
  network: "net_step n S S' \<Longrightarrow> cluster_step n S S'"
| propose: "\<lbrakk>i < n; Start c (nodes S i) = (res, rf)\<rbrakk> \<Longrightarrow>
    cluster_step n S (moveTo i rf {} S)"
| compact: "\<lbrakk>i < n; index \<le> lastApplied (nodes S i);
     Raft_Snapshot index d (nodes S i) = Some rf\<rbrakk> \<Longrightarrow>
    cluster_step n S (moveTo i rf {} S)"
| deliver_msgs: "\<lbrakk>i < n; applier (nodes S i) = Some (msgs, rf)\<rbrakk> \<Longrightarrow>
    cluster_step n S (deliver i msgs (moveTo i rf {} S))"
| crash: "\<lbrakk>i < n; Make ck (peers (nodes S i)) (int i) (persister (nodes S i)) = Some rf\<rbrakk> \<Longrightarrow>
    cluster_step n S ((moveTo i rf {} S)\<lparr>elections := (elections S)(i := (\<lambda>_. None))\<rparr>)"

text \<open>All steps at once.\<close>

lemma cluster_step_cases [consumes 1, case_names elect vote vote_reply send_append append append_reply send_snapshot install snapshot_reply propose compact deliver_msgs kill crash]:
  assumes "cluster_step n S S'"
  obtains
    (elect) i ck el args rf where "S' = ((moveTo i rf {VoteReq i j args | j. j < n \<and> j \<noteq> i} S) \<lparr>elections := (elections S)(i := (elections S i)(el_term el \<mapsto> (el, {j. j < n \<and> j \<noteq> i})))\<rparr>)"
      and "i < n"
      and "startElection ck (nodes S i) = Some (el, args, rf)"
  | (vote) i j args ck r rf where "S' = (moveTo j rf {VoteRep i j args r} S)"
      and "VoteReq i j args \<in> net S"
      and "RequestVote ck args (nodes S j) = Some (r, rf)"
  | (vote_reply) i j args r el W ck el' rf where "S' = ((moveTo i rf {} S) \<lparr>elections := (elections S)(i := (elections S i)(rv_Term args \<mapsto> (el', W - {j})))\<rparr>)"
      and "VoteRep i j args r \<in> net S"
      and "elections S i (rv_Term args) = Some (el, W)"
      and "j \<in> W"
      and "handleVoteReply ck r el (nodes S i) = Some (el', rf)"
  | (send_append) i j t args where "S' = (S\<lparr>net := net S \<union> {AppendReq i j args}\<rparr>)"
      and "i < n"
      and "j < n"
      and "i \<noteq> j"
      and "sendAppendEntriesToPeer j t (nodes S i) = Some (Some args)"
  | (append) i j args ck r rf where "S' = (moveTo j rf {AppendRep i j args r} S)"
      and "AppendReq i j args \<in> net S"
      and "AppendEntries ck args (nodes S j) = Some (r, rf)"
  | (append_reply) i j args r ck rf where "S' = (moveTo i rf {} S)"
      and "AppendRep i j args r \<in> net S"
      and "handleAppendReply ck j (ae_Term args) args r (nodes S i) = Some rf"
  | (send_snapshot) i j t args where "S' = (S\<lparr>net := net S \<union> {SnapReq i j args}\<rparr>)"
      and "i < n"
      and "j < n"
      and "i \<noteq> j"
      and "sendSnapshotToPeer t (nodes S i) = Some args"
  | (install) i j args ck r rf where "S' = (moveTo j rf {SnapRep i j args r} S)"
      and "SnapReq i j args \<in> net S"
      and "InstallSnapshot ck args (nodes S j) = Some (r, rf)"
  | (snapshot_reply) i j args r ck rf where "S' = (moveTo i rf {} S)"
      and "SnapRep i j args r \<in> net S"
      and "handleSnapshotReply ck j (is_Term args) args r (nodes S i) = Some rf"
  | (propose) i c res rf where "S' = (moveTo i rf {} S)"
      and "i < n"
      and "Start c (nodes S i) = (res, rf)"
  | (compact) i index d rf where "S' = (moveTo i rf {} S)"
      and "i < n"
      and "index \<le> lastApplied (nodes S i)"
      and "Raft_Snapshot index d (nodes S i) = Some rf"
  | (deliver_msgs) i msgs rf where "S' = (deliver i msgs (moveTo i rf {} S))"
      and "i < n"
      and "applier (nodes S i) = Some (msgs, rf)"
  | (kill) i where "S' = (moveTo i (Kill (nodes S i)) {} S)"
      and "i < n"
  | (crash) i ck rf where "S' = ((moveTo i rf {} S)\<lparr>elections := (elections S)(i := (\<lambda>_. None))\<rparr>)"
      and "i < n"
      and "Make ck (peers (nodes S i)) (int i) (persister (nodes S i)) = Some rf"
  using assms
proof cases
  case network
  then show ?thesis by cases (rule that(1-9,13); assumption)+
qed (rule that(10-12,14); assumption)+

inductive reachable :: "nat \<Rightarrow> 'c cluster \<Rightarrow> bool" for n :: nat where
  start: "initial n S \<Longrightarrow> reachable n S"
| step: "reachable n S \<Longrightarrow> cluster_step n S S' \<Longrightarrow> reachable n S'"

lemma moveTo_simps [simp]:
  "nodes (moveTo i rf ms S) = (nodes S)(i := rf)" "net (moveTo i rf ms S) = net S \<union> ms"
  "elections (moveTo i rf ms S) = elections S" "delivered (moveTo i rf ms S) = delivered S"
  "cast (moveTo i rf ms S) =
     cast S \<union> (if votedFor rf \<noteq> -1 then {(i, currentTerm rf, votedFor rf)} else {})"
  "elected (moveTo i rf ms S) = elected S \<union> (if role rf = Leader then {(currentTerm rf, i)} else {})"
  "leaderLog (moveTo i rf ms S) = (if role rf = Leader
     then (leaderLog S)(currentTerm rf := wholeLog (leaderLog S) rf) else leaderLog S)"
  by (simp_all add: moveTo_def)

lemma deliver_simps [simp]:
  "nodes (deliver i ms S) = nodes S" "net (deliver i ms S) = net S"
  "elections (deliver i ms S) = elections S" "cast (deliver i ms S) = cast S"
  "elected (deliver i ms S) = elected S" "leaderLog (deliver i ms S) = leaderLog S"
  "delivered (deliver i ms S) = delivered S \<union> Pair i ` (\<Union>m\<in>set ms. command_of m)"
  by (simp_all add: deliver_def)

subsection \<open>Well-formedness of the peers and of the messages\<close>

definition wf_raft :: "nat \<Rightarrow> nat \<Rightarrow> 'c raft \<Rightarrow> bool" where
  "wf_raft n i rf \<longleftrightarrow> length (peers rf) = n \<and> me rf = int i \<and>
     length (nextIndex rf) = n \<and> length (matchIndex rf) = n \<and>
     persisted rf \<and> rlog rf \<noteq> [] \<and> 0 \<le> lastIncludedIndex rf \<and> 0 \<le> currentTerm rf"

text \<open>Requests and replies travel between two different peers of the group.\<close>

fun wf_msg :: "nat \<Rightarrow> 'c msg \<Rightarrow> bool" where
  "wf_msg n (VoteReq i j args) \<longleftrightarrow> i < n \<and> j < n \<and> i \<noteq> j \<and> rv_CandidateID args = int i"
| "wf_msg n (VoteRep i j args r) \<longleftrightarrow> i < n \<and> j < n \<and> i \<noteq> j \<and> rv_CandidateID args = int i"
| "wf_msg n (AppendReq i j args) \<longleftrightarrow> i < n \<and> j < n \<and> i \<noteq> j"
| "wf_msg n (AppendRep i j args r) \<longleftrightarrow> i < n \<and> j < n \<and> i \<noteq> j"
| "wf_msg n (SnapReq i j args) \<longleftrightarrow> i < n \<and> j < n \<and> i \<noteq> j"
| "wf_msg n (SnapRep i j args r) \<longleftrightarrow> i < n \<and> j < n \<and> i \<noteq> j"

definition wf_cluster :: "nat \<Rightarrow> 'c cluster \<Rightarrow> bool" where
  "wf_cluster n S \<longleftrightarrow> (\<forall>i<n. wf_raft n i (nodes S i)) \<and> (\<forall>m\<in>net S. wf_msg n m)"

end
