(* ===== verification/ElectionSafety.thy ===== *)
theory ElectionSafety
  imports RaftCluster
begin

section \<open>At most one leader per term\<close>

subsection \<open>Votes and leadership across each handler\<close>

text \<open>What every step but winning an election does to a peer, as far as elections go.\<close>

definition quiet :: "nat \<Rightarrow> nat \<Rightarrow> 'c raft \<Rightarrow> 'c raft \<Rightarrow> bool" where
  "quiet n i rf rf' \<longleftrightarrow> vote_step rf rf' \<and> no_new_leader rf rf' \<and>
     (wf_raft n i rf \<longrightarrow> wf_raft n i rf')"

lemma keeps_log_wf:
  assumes "keeps_log rf rf'" and "vote_step rf rf'" and "persisted rf'"
    and "length (nextIndex rf') = length (nextIndex rf)"
    and "length (matchIndex rf') = length (matchIndex rf)" and "wf_raft n i rf"
  shows "wf_raft n i rf'"
  using assms by (auto simp: wf_raft_def keeps_log_def vote_step_def)

lemma RequestVote_quiet:
  assumes "RequestVote ck args rf = Some (r, rf')" and "wf_raft n i rf"
  shows "quiet n i rf rf'"
proof -
  have "rlog rf \<noteq> []" "persisted rf" using assms(2) by (auto simp: wf_raft_def)
  note s = RequestVote_steps [OF assms(1) this]
  with keeps_log_wf [OF s(1,2,5)] show ?thesis by (simp add: quiet_def)
qed

lemma AppendEntries_quiet:
  assumes "AppendEntries ck args rf = Some (r, rf')" and "wf_raft n i rf"
  shows "quiet n i rf rf'"
  using assms(1)
proof (cases rule: AppendEntries_cases)
  case old
  then show ?thesis by (simp add: quiet_def)
next
  case rejected
  have "wf_raft n i rf'"
    using assms(2) rejected(2) by (auto simp: wf_raft_def)
  with rejected(2) show ?thesis by (simp add: quiet_def)
next
  case accepted
  have "mergedLog args rf \<noteq> []"
    using assms(2) accepted(4) by (auto simp: mergedLog_def Let_def wf_raft_def)
  then have "wf_raft n i rf'"
    using assms(2) accepted(7) by (auto simp: wf_raft_def)
  moreover have "vote_step rf rf'" "no_new_leader rf rf'"
    using observeTerm_steps(2,3) [of rf ck "ae_Term args"] accepted(7)
    by (auto simp: vote_step_def no_new_leader_def)
  ultimately show ?thesis by (simp add: quiet_def)
qed

lemma InstallSnapshot_quiet:
  assumes "InstallSnapshot ck args rf = Some (r, rf')" and "wf_raft n i rf"
  shows "quiet n i rf rf'"
  using assms(1)
proof (cases rule: InstallSnapshot_cases)
  case old
  then show ?thesis by (simp add: quiet_def)
next
  case known
  have "wf_raft n i rf'"
    using assms(2) known(3) by (auto simp: wf_raft_def)
  with known(3) show ?thesis by (simp add: quiet_def)
next
  case installed
  have "wf_raft n i rf'"
    using assms(2) installed by (auto simp: wf_raft_def snapshotLog_def)
  moreover have "vote_step rf rf'" "no_new_leader rf rf'"
    using observeTerm_steps(2,3) [of rf ck "is_Term args"] installed
    by (auto simp: vote_step_def no_new_leader_def)
  ultimately show ?thesis by (simp add: quiet_def)
qed

lemma handleAppendReply_quiet:
  assumes "handleAppendReply ck p t args r rf = Some rf'" and "wf_raft n i rf"
  shows "quiet n i rf rf'"
proof -
  have "persisted rf" using assms(2) by (simp add: wf_raft_def)
  note s = handleAppendReply_frame [OF assms(1) this]
  with keeps_log_wf [OF s(1,2,5,7,8)] show ?thesis by (simp add: quiet_def)
qed

lemma handleSnapshotReply_quiet:
  assumes "handleSnapshotReply ck p t args r rf = Some rf'" and "wf_raft n i rf" and "p < n"
  shows "quiet n i rf rf'"
proof -
  have "p < length (peers rf)" "length (nextIndex rf) = length (peers rf)"
    "length (matchIndex rf) = length (peers rf)"
    using assms(2,3) by (auto simp: wf_raft_def)
  with assms(1) show ?thesis
  proof (cases rule: handleSnapshotReply_cases)
    case outdated
    with assms(2) show ?thesis by (auto simp: quiet_def step_defs wf_raft_def)
  next
    case accepted
    with assms(2) show ?thesis by (auto simp: quiet_def step_defs wf_raft_def)
  qed (simp add: quiet_def)
qed

lemma Start_quiet:
  assumes "Start c rf = (res, rf')" and "wf_raft n i rf"
  shows "quiet n i rf rf'"
proof -
  obtain idx t l where "res = (idx, t, l)" by (cases res)
  with assms show ?thesis
    by (auto simp: quiet_def step_defs wf_raft_def Start_def Let_def frame_simps split: if_splits)
qed

lemma Raft_Snapshot_quiet:
  assumes "Raft_Snapshot k d rf = Some rf'" and "wf_raft n i rf"
  shows "quiet n i rf rf'"
proof (cases "k \<le> lastIncludedIndex rf")
  case True
  with assms(1) show ?thesis by (simp add: Raft_Snapshot_def quiet_def)
next
  case False
  then have "lastIncludedIndex rf < k" by simp
  note s = Raft_Snapshot_spec [OF assms(1) this]
  with assms(2) False show ?thesis by (simp add: quiet_def step_defs wf_raft_def)
qed

lemma applyLoop_frame:
  "applyLoop rf = Some (msgs, rf') \<Longrightarrow> \<exists>k. rf' = rf\<lparr>lastApplied := k\<rparr> \<and> lastApplied rf \<le> k"
proof (induction rf arbitrary: msgs rf' rule: applyLoop.induct)
  case (1 rf)
  have id: "rf = rf\<lparr>lastApplied := lastApplied rf\<rparr>" by simp
  show ?case
  proof (cases "lastApplied rf < commitIndex rf")
    case False
    with "1.prems" have "rf' = rf" by (simp add: applyLoop.simps [of rf])
    with id show ?thesis by (metis order_refl)
  next
    case True
    let ?rf = "rf\<lparr>lastApplied := lastApplied rf + 1\<rparr>"
    from True "1.prems" obtain ms where ms: "applyLoop ?rf = Some (ms, rf')"
      by (subst (asm) applyLoop.simps) (auto simp: Let_def split: if_splits Option.bind_splits)
    have "\<exists>k. rf' = ?rf\<lparr>lastApplied := k\<rparr> \<and> lastApplied ?rf \<le> k"
    proof (cases "lastApplied ?rf \<le> lastIncludedIndex ?rf")
      case le: True
      show ?thesis by (rule "1.IH"(1) [OF True refl refl le ms])
    next
      case gt: False
      from True gt "1.prems" obtain e where "getLogEntry (lastApplied ?rf) ?rf = Some e"
        by (subst (asm) applyLoop.simps) (auto simp: Let_def split: if_splits Option.bind_splits)
      then show ?thesis by (intro "1.IH"(2) [OF True refl refl gt _ ms])
    qed
    then obtain k where "rf' = ?rf\<lparr>lastApplied := k\<rparr>" "lastApplied rf + 1 \<le> k" by auto
    then show ?thesis by (intro exI [where x = k]) simp
  qed
qed

lemma applier_quiet:
  assumes "applier rf = Some (msgs, rf')" and "wf_raft n i rf"
  shows "quiet n i rf rf'"
proof -
  have "rf' = rf \<or> rf' = rf\<lparr>pendingSnapshotValid := False, pendingSnapshot := None\<rparr> \<or>
      applyLoop rf = Some (msgs, rf')"
    using assms(1) by (simp add: applier_def split: if_splits)
  then obtain k where "rf' = rf \<or> rf' = rf\<lparr>pendingSnapshotValid := False, pendingSnapshot := None\<rparr> \<or>
      rf' = rf\<lparr>lastApplied := k\<rparr>"
    using applyLoop_frame by blast
  with assms(2) show ?thesis
    by (elim disjE) (simp_all add: quiet_def step_defs wf_raft_def)
qed

lemma startElection_quiet:
  assumes "startElection ck rf = Some (el, args, rf')" and "wf_raft n i rf"
  shows "quiet n i rf rf'"
proof -
  have "rlog rf \<noteq> []" using assms(2) by (auto simp: wf_raft_def)
  note s = startElection_spec [OF assms(1) this]
  then show ?thesis
    using assms(2) by (simp add: quiet_def no_new_leader_def wf_raft_def keeps_log_def vote_step_def)
qed

lemma Make_quiet:
  assumes "Make ck (peers rf) (int i) (persister rf) = Some rf'" and "wf_raft n i rf"
  shows "quiet n i rf rf'"
proof -
  have "persisted rf" using assms(2) by (simp add: wf_raft_def)
  then obtain rf1 where rf1: "Make ck (peers rf) (int i) (persister rf) = Some rf1"
    "currentTerm rf1 = currentTerm rf" "votedFor rf1 = votedFor rf" "rlog rf1 = rlog rf"
    "lastIncludedIndex rf1 = lastIncludedIndex rf" "lastIncludedTerm rf1 = lastIncludedTerm rf"
    "role rf1 = Follower" "persister rf1 = persister rf" "me rf1 = int i" "peers rf1 = peers rf"
    "nextIndex rf1 = replicate (length (peers rf)) 0" "matchIndex rf1 = replicate (length (peers rf)) 0"
    using Make_persisted [of rf ck "peers rf" "int i"] by blast
  with assms have "rf' = rf1" by simp
  moreover have "persisted rf1"
    using assms(2) rf1 by (simp add: wf_raft_def persisted_def serializeState_def)
  ultimately show ?thesis
    using assms(2) rf1 by (simp add: quiet_def step_defs wf_raft_def)
qed

lemma Kill_quiet: "wf_raft n i rf \<Longrightarrow> quiet n i rf (Kill rf)"
  by (simp add: quiet_def step_defs Kill_def wf_raft_def)

subsection \<open>The invariant\<close>

text \<open>Each peer votes once per term, and the votes of its current term are in its state.\<close>

definition cast_inv :: "nat \<Rightarrow> 'c cluster \<Rightarrow> bool" where
  "cast_inv n S \<longleftrightarrow>
     (\<forall>j t c c'. (j, t, c) \<in> cast S \<and> (j, t, c') \<in> cast S \<longrightarrow> c = c') \<and>
     (\<forall>j t c. (j, t, c) \<in> cast S \<longrightarrow> j < n \<and> c \<noteq> -1 \<and> t \<le> currentTerm (nodes S j) \<and>
        (t = currentTerm (nodes S j) \<longrightarrow> votedFor (nodes S j) = c))"

text \<open>A granted reply was a vote.\<close>

definition grant_inv :: "'c cluster \<Rightarrow> bool" where
  "grant_inv S \<longleftrightarrow> (\<forall>i j args r. VoteRep i j args r \<in> net S \<and> rvr_VoteGranted r \<longrightarrow>
     (j, rv_Term args, int i) \<in> cast S)"

text \<open>\<open>votes\<close> counts the candidate and the peers whose granted reply was handled, once each.\<close>

definition counted :: "nat \<Rightarrow> (nat \<times> int \<times> int) set \<Rightarrow> nat \<Rightarrow> int \<Rightarrow> election \<times> nat set \<Rightarrow> bool" where
  "counted n C i t e \<longleftrightarrow> el_term (fst e) = t \<and> snd e \<subseteq> {..<n} - {i} \<and> (i, t, int i) \<in> C \<and>
     (\<exists>G. G \<subseteq> {..<n} - {i} - snd e \<and> el_votes (fst e) = 1 + int (card G) \<and>
        (\<forall>j\<in>G. (j, t, int i) \<in> C))"

definition tally_inv :: "nat \<Rightarrow> 'c cluster \<Rightarrow> bool" where
  "tally_inv n S \<longleftrightarrow> (\<forall>i t e. elections S i t = Some e \<longrightarrow> i < n \<and> counted n (cast S) i t e)"

text \<open>A leader has the votes of a majority.\<close>

definition leader_inv :: "nat \<Rightarrow> 'c cluster \<Rightarrow> bool" where
  "leader_inv n S \<longleftrightarrow>
     (\<forall>t i. (t, i) \<in> elected S \<longrightarrow> i < n \<and> (\<exists>Q. majority n Q \<and> (\<forall>j\<in>Q. (j, t, int i) \<in> cast S))) \<and>
     (\<forall>i<n. role (nodes S i) = Leader \<longrightarrow> (currentTerm (nodes S i), i) \<in> elected S)"

definition election_inv :: "nat \<Rightarrow> 'c cluster \<Rightarrow> bool" where
  "election_inv n S \<longleftrightarrow>
     wf_cluster n S \<and> cast_inv n S \<and> grant_inv S \<and> tally_inv n S \<and> leader_inv n S"

lemmas election_inv_defs =
  election_inv_def wf_cluster_def cast_inv_def grant_inv_def tally_inv_def leader_inv_def

lemma counted_mono: "counted n C i t e \<Longrightarrow> C \<subseteq> C' \<Longrightarrow> counted n C' i t e"
  unfolding counted_def by (meson subset_eq)

text \<open>One more peer's reply handled: a granted one is counted, any other one is not.\<close>

lemma counted_reply:
  assumes "counted n C i t (el, W)" and "j \<in> W"
    and "el' = el \<or> el' = el\<lparr>el_votes := el_votes el + 1\<rparr> \<and> (j, t, int i) \<in> C"
  shows "counted n C i t (el', W - {j})"
proof -
  from assms(1) obtain G where G: "G \<subseteq> {..<n} - {i} - W" "el_votes el = 1 + int (card G)"
    "\<forall>j\<in>G. (j, t, int i) \<in> C" and c: "el_term el = t" "W \<subseteq> {..<n} - {i}" "(i, t, int i) \<in> C"
    by (auto simp: counted_def)
  from assms(3) show ?thesis
  proof
    assume "el' = el"
    with G c show ?thesis by (auto simp: counted_def)
  next
    assume e: "el' = el\<lparr>el_votes := el_votes el + 1\<rparr> \<and> (j, t, int i) \<in> C"
    have "finite G" "j \<notin> G" using G(1) assms(2) by (auto intro: finite_subset)
    with G c e assms(2) show ?thesis
      unfolding counted_def by (intro conjI exI [where x = "insert j G"]) auto
  qed
qed

text \<open>More votes than half of the peers are the votes of a majority.\<close>

lemma counted_majority:
  assumes "counted n C i t (el, W)" and "i < n" and "int (n div 2) < el_votes el"
  shows "\<exists>Q. majority n Q \<and> (\<forall>j\<in>Q. (j, t, int i) \<in> C)"
proof -
  from assms(1) obtain G where G: "G \<subseteq> {..<n} - {i} - W" "el_votes el = 1 + int (card G)"
    "\<forall>j\<in>G. (j, t, int i) \<in> C" "(i, t, int i) \<in> C"
    by (auto simp: counted_def)
  have "finite G" "i \<notin> G" using G(1) by (auto intro: finite_subset)
  then have "card (insert i G) = Suc (card G)" by simp
  with assms(2,3) G have "majority n (insert i G)" by (auto simp: majority_def)
  with G show ?thesis by blast
qed

subsection \<open>Its preservation\<close>

lemma cast_inv_move:
  assumes "cast_inv n S" and "i < n" and "vote_step (nodes S i) rf"
  shows "cast_inv n (moveTo i rf ms S)"
proof -
  have uniq: "c = c'" if "(j, t, c) \<in> cast S" "(j, t, c') \<in> cast S" for j t c c'
    using assms(1) that unfolding cast_inv_def by blast
  have old: "j < n" "c \<noteq> -1" "t \<le> currentTerm (nodes S j)"
      "t = currentTerm (nodes S j) \<Longrightarrow> votedFor (nodes S j) = c"
    if "(j, t, c) \<in> cast S" for j t c
    using assms(1) that unfolding cast_inv_def by blast+
  have up: "currentTerm (nodes S i) \<le> currentTerm rf"
    and keep: "currentTerm rf = currentTerm (nodes S i) \<Longrightarrow> votedFor (nodes S i) \<noteq> -1 \<Longrightarrow>
      votedFor rf = votedFor (nodes S i)"
    using assms(3) by (simp_all add: vote_step_def)
  have cur: "t \<le> currentTerm rf" "t = currentTerm rf \<Longrightarrow> votedFor rf = c" if "(i, t, c) \<in> cast S" for t c
    using old [OF that] up keep by fastforce+
  have mem: "(j, t, c) \<in> cast (moveTo i rf ms S) \<longleftrightarrow> (j, t, c) \<in> cast S \<or>
      j = i \<and> t = currentTerm rf \<and> c = votedFor rf \<and> votedFor rf \<noteq> -1" for j t c
    by auto
  show ?thesis
    unfolding cast_inv_def
  proof (intro conjI allI impI)
    fix j t c c'
    assume "(j, t, c) \<in> cast (moveTo i rf ms S) \<and> (j, t, c') \<in> cast (moveTo i rf ms S)"
    then show "c = c'" unfolding mem using uniq cur(2) by metis
  next
    fix j t c
    assume "(j, t, c) \<in> cast (moveTo i rf ms S)"
    then consider (other) "(j, t, c) \<in> cast S" "j \<noteq> i" | (before) "(i, t, c) \<in> cast S" "j = i"
      | (new) "j = i" "t = currentTerm rf" "c = votedFor rf" "votedFor rf \<noteq> -1"
      unfolding mem by blast
    then have "j < n \<and> c \<noteq> -1 \<and> t \<le> currentTerm (nodes (moveTo i rf ms S) j) \<and>
      (t = currentTerm (nodes (moveTo i rf ms S) j) \<longrightarrow> votedFor (nodes (moveTo i rf ms S) j) = c)"
    proof cases
      case other
      with old [OF other(1)] show ?thesis by simp
    next
      case before
      with old(2) [OF before(1)] cur [OF before(1)] assms(2) show ?thesis by simp
    qed (use assms(2) in simp)
    then show "j < n" "c \<noteq> -1" "t \<le> currentTerm (nodes (moveTo i rf ms S) j)"
      "t = currentTerm (nodes (moveTo i rf ms S) j) \<Longrightarrow> votedFor (nodes (moveTo i rf ms S) j) = c"
      by blast+
  qed
qed

lemma wf_move:
  assumes "wf_cluster n S" and "wf_raft n i rf" and "\<forall>m\<in>ms. wf_msg n m"
  shows "wf_cluster n (moveTo i rf ms S)"
  using assms by (auto simp: wf_cluster_def)

lemma leader_inv_mono:
  assumes "leader_inv n S" and "cast S \<subseteq> C"
    and "(t, i) \<in> elected S"
  shows "i < n \<and> (\<exists>Q. majority n Q \<and> (\<forall>j\<in>Q. (j, t, int i) \<in> C))"
  using assms unfolding leader_inv_def by (meson subset_eq)

lemma leader_inv_quiet:
  assumes "leader_inv n S" and "i < n" and "no_new_leader (nodes S i) rf"
  shows "leader_inv n (moveTo i rf ms S)"
proof -
  have lead: "\<And>j. j < n \<Longrightarrow> role (nodes S j) = Leader \<Longrightarrow> (currentTerm (nodes S j), j) \<in> elected S"
    using assms(1) by (simp add: leader_inv_def)
  have el: "elected (moveTo i rf ms S) = elected S"
    using assms by (auto simp: leader_inv_def no_new_leader_def)
  show ?thesis
    unfolding leader_inv_def
  proof (intro conjI allI impI)
    fix t j assume "(t, j) \<in> elected (moveTo i rf ms S)"
    then show "j < n" "\<exists>Q. majority n Q \<and> (\<forall>v\<in>Q. (v, t, int j) \<in> cast (moveTo i rf ms S))"
      unfolding el using leader_inv_mono [OF assms(1), of "cast (moveTo i rf ms S)"] by auto
  next
    fix j assume "j < n" "role (nodes (moveTo i rf ms S) j) = Leader"
    then show "(currentTerm (nodes (moveTo i rf ms S) j), j) \<in> elected (moveTo i rf ms S)"
      unfolding el using lead [of j] assms(3) lead [of i]
      by (cases "j = i") (simp_all add: no_new_leader_def)
  qed
qed

text \<open>A quiet step that sends messages without a new vote in them keeps the invariant.\<close>

lemma election_inv_quiet:
  assumes inv: "election_inv n S" and i: "i < n" and q: "quiet n i (nodes S i) rf"
    and ms: "\<forall>m\<in>ms. wf_msg n m"
    and grants: "\<And>a b args r. VoteRep a b args r \<in> ms \<Longrightarrow> rvr_VoteGranted r \<Longrightarrow>
      b = i \<and> rv_Term args = currentTerm rf \<and> votedFor rf = int a"
  shows "election_inv n (moveTo i rf ms S)"
proof -
  from inv i have "wf_raft n i (nodes S i)" by (simp add: election_inv_def wf_cluster_def)
  with q have steps: "vote_step (nodes S i) rf" "no_new_leader (nodes S i) rf" "wf_raft n i rf"
    by (auto simp: quiet_def)
  have "grant_inv (moveTo i rf ms S)"
    using inv grants by (fastforce simp: election_inv_def grant_inv_def)
  moreover have "tally_inv n (moveTo i rf ms S)"
    using inv counted_mono [OF _ Un_upper1] by (simp add: election_inv_def tally_inv_def)
  ultimately show ?thesis
    using inv i ms steps cast_inv_move [of n S i rf ms] leader_inv_quiet [of n S i rf ms]
      wf_move [of n S i rf ms]
    by (simp add: election_inv_def)
qed

lemma election_inv_elections:
  assumes "election_inv n S" and "\<And>i t e. E i t = Some e \<Longrightarrow> i < n \<and> counted n (cast S) i t e"
  shows "election_inv n (S\<lparr>elections := E\<rparr>)"
  using assms by (simp add: election_inv_defs)

lemma election_inv_send:
  assumes "election_inv n S" and "wf_msg n m" and "\<And>i j args r. m \<noteq> VoteRep i j args r"
  shows "election_inv n (S\<lparr>net := net S \<union> {m}\<rparr>)"
proof -
  let ?S = "S\<lparr>net := net S \<union> {m}\<rparr>"
  have "wf_cluster n ?S" using assms(1,2) by (simp add: election_inv_def wf_cluster_def)
  moreover have "grant_inv ?S"
    unfolding grant_inv_def
  proof (intro allI impI)
    fix i j args r
    assume "VoteRep i j args r \<in> net ?S \<and> rvr_VoteGranted r"
    with assms(3) [of i j args r] have "VoteRep i j args r \<in> net S \<and> rvr_VoteGranted r" by auto
    with assms(1) show "(j, rv_Term args, int i) \<in> cast ?S"
      unfolding election_inv_def grant_inv_def by fastforce
  qed
  ultimately show ?thesis
    using assms(1) by (simp add: election_inv_def cast_inv_def tally_inv_def leader_inv_def)
qed

lemma election_inv_deliver: "election_inv n S \<Longrightarrow> election_inv n (deliver i ms S)"
  by (simp add: election_inv_defs)

lemma election_inv_wfD:
  "election_inv n S \<Longrightarrow> i < n \<Longrightarrow> wf_raft n i (nodes S i)"
  "election_inv n S \<Longrightarrow> m \<in> net S \<Longrightarrow> wf_msg n m"
  by (simp_all add: election_inv_def wf_cluster_def)

lemma election_inv_tallyD:
  "election_inv n S \<Longrightarrow> elections S i t = Some e \<Longrightarrow> i < n \<and> counted n (cast S) i t e"
  unfolding election_inv_def tally_inv_def by blast

lemma cast_moves: "cast S \<subseteq> cast (moveTo i rf ms S)"
  by simp

lemma elect_preserves:
  assumes inv: "election_inv n S" and i: "i < n"
    and st: "startElection ck (nodes S i) = Some (el, args, rf)"
  shows "election_inv n ((moveTo i rf {VoteReq i j args | j. j < n \<and> j \<noteq> i} S)
      \<lparr>elections := (elections S)(i := (elections S i)(el_term el \<mapsto> (el, {j. j < n \<and> j \<noteq> i})))\<rparr>)"
    (is "election_inv n (?T\<lparr>elections := _\<rparr>)")
proof (rule election_inv_elections)
  have wf: "wf_raft n i (nodes S i)" using inv i by (rule election_inv_wfD)
  then have "rlog (nodes S i) \<noteq> []" by (simp add: wf_raft_def)
  note sp = startElection_spec [OF st this]
  have me: "me (nodes S i) = int i" using wf by (simp add: wf_raft_def)
  show "election_inv n ?T"
    by (rule election_inv_quiet [OF inv i startElection_quiet [OF st wf]])
       (use i me in \<open>auto simp: sp(2)\<close>)
  fix k t e
  assume e: "((elections S)(i := (elections S i)(el_term el \<mapsto> (el, {j. j < n \<and> j \<noteq> i})))) k t = Some e"
  show "k < n \<and> counted n (cast ?T) k t e"
  proof (cases "k = i \<and> t = el_term el")
    case True
    with e have ee: "e = (el, {j. j < n \<and> j \<noteq> i})" by simp
    have "(i, t, int i) \<in> cast ?T" using True me sp(1,7,8) by simp
    then have "counted n (cast ?T) k t e"
      unfolding counted_def ee using True sp by (intro conjI exI [where x = "{}"]) auto
    with True i show ?thesis by simp
  next
    case False
    with e have "elections S k t = Some e" by (auto split: if_splits)
    from election_inv_tallyD [OF inv this] have "k < n" "counted n (cast S) k t e" by blast+
    with cast_moves counted_mono show ?thesis by blast
  qed
qed

lemma vote_preserves:
  assumes inv: "election_inv n S" and m: "VoteReq i j args \<in> net S"
    and rv: "RequestVote ck args (nodes S j) = Some (r, rf)"
  shows "election_inv n (moveTo j rf {VoteRep i j args r} S)"
proof -
  have w: "i < n" "j < n" "i \<noteq> j" "rv_CandidateID args = int i"
    using election_inv_wfD(2) [OF inv m] by auto
  have wf: "wf_raft n j (nodes S j)" using inv w(2) by (rule election_inv_wfD)
  then have ne: "rlog (nodes S j) \<noteq> []" by (simp add: wf_raft_def)
  have "rv_Term args = currentTerm rf \<and> votedFor rf = int i" if "rvr_VoteGranted r"
    using rv ne that w(4) by (cases rule: RequestVote_cases) (auto simp: frame_simps)
  then show ?thesis
    using election_inv_quiet [OF inv w(2) RequestVote_quiet [OF rv wf], of "{VoteRep i j args r}"] w
    by simp
qed

lemma vote_reply_preserves:
  assumes inv: "election_inv n S" and m: "VoteRep i j args r \<in> net S"
    and el: "elections S i (rv_Term args) = Some (el, W)" and j: "j \<in> W"
    and hv: "handleVoteReply ck r el (nodes S i) = Some (el', rf)"
  shows "election_inv n ((moveTo i rf {} S)
      \<lparr>elections := (elections S)(i := (elections S i)(rv_Term args \<mapsto> (el', W - {j})))\<rparr>)"
    (is "election_inv n (?T\<lparr>elections := _\<rparr>)")
proof (rule election_inv_elections)
  let ?t = "rv_Term args"
  have i: "i < n" and cnt: "counted n (cast S) i ?t (el, W)"
    using election_inv_tallyD [OF inv el] by auto
  have wf: "wf_raft n i (nodes S i)" using inv i by (rule election_inv_wfD)
  then have lens: "length (nextIndex (nodes S i)) = length (peers (nodes S i))"
    "length (matchIndex (nodes S i)) = length (peers (nodes S i))" and n: "length (peers (nodes S i)) = n"
    by (auto simp: wf_raft_def)
  have grant: "rvr_VoteGranted r \<Longrightarrow> (j, ?t, int i) \<in> cast S"
    using inv m by (auto simp: election_inv_def grant_inv_def)
  have step: "el' = el \<or> el' = el\<lparr>el_votes := el_votes el + 1\<rparr> \<and> (j, ?t, int i) \<in> cast S"
    using hv lens grant by (cases rule: handleVoteReply_cases) auto
  note cnt' = counted_reply [OF cnt j step]
  show T: "election_inv n ?T"
    using hv lens
  proof (cases rule: handleVoteReply_cases)
    case won
    have t: "el_term el = ?t" using cnt by (simp add: counted_def)
    have "int (n div 2) < el_votes el'" using won n by simp
    from counted_majority [OF cnt' i this]
    have Q: "\<exists>Q. majority n Q \<and> (\<forall>v\<in>Q. (v, ?t, int i) \<in> cast S)" .
    have vs: "vote_step (nodes S i) rf" "wf_raft n i rf"
      using won wf by (auto simp: vote_step_def wf_raft_def)
    have "leader_inv n ?T"
      unfolding leader_inv_def
    proof (intro conjI allI impI)
      fix t k assume "(t, k) \<in> elected ?T"
      then have "(t, k) \<in> elected S \<or> t = ?t \<and> k = i" using won t by (auto split: if_splits)
      then show "k < n" "\<exists>Q. majority n Q \<and> (\<forall>v\<in>Q. (v, t, int k) \<in> cast ?T)"
        using leader_inv_mono [of n S "cast ?T" t k] inv i Q by (auto simp: election_inv_def)
    next
      fix k assume "k < n" "role (nodes ?T k) = Leader"
      then show "(currentTerm (nodes ?T k), k) \<in> elected ?T"
        using inv won by (auto simp: election_inv_def leader_inv_def)
    qed
    moreover have "tally_inv n ?T"
      using inv counted_mono [OF _ Un_upper1] by (simp add: election_inv_def tally_inv_def)
    ultimately show ?thesis
      using inv i vs cast_inv_move [of n S i rf "{}"] wf_move [of n S i rf "{}"]
      by (simp add: election_inv_def grant_inv_def)
  next
    case outdated
    have "quiet n i (nodes S i) rf"
      using outdated by (auto simp: quiet_def step_defs wf_raft_def)
    then show ?thesis by (intro election_inv_quiet [OF inv i]) auto
  qed (intro election_inv_quiet [OF inv i]; simp add: quiet_def)+
  fix k t e
  assume e: "((elections S)(i := (elections S i)(?t \<mapsto> (el', W - {j})))) k t = Some e"
  show "k < n \<and> counted n (cast ?T) k t e"
  proof (cases "k = i \<and> t = ?t")
    case True
    with e have "e = (el', W - {j})" by simp
    with True i counted_mono [OF cnt' cast_moves] show ?thesis by simp
  next
    case False
    with e have "elections S k t = Some e" by (auto split: if_splits)
    from election_inv_tallyD [OF inv this] have "k < n" "counted n (cast S) k t e" by blast+
    with cast_moves counted_mono show ?thesis by blast
  qed
qed

text \<open>A crash forgets the vote goroutines of the peer.\<close>

lemma crash_preserves:
  assumes inv: "election_inv n S" and i: "i < n"
    and mk: "Make ck (peers (nodes S i)) (int i) (persister (nodes S i)) = Some rf"
  shows "election_inv n ((moveTo i rf {} S)\<lparr>elections := (elections S)(i := (\<lambda>_. None))\<rparr>)"
    (is "election_inv n (?T\<lparr>elections := _\<rparr>)")
proof (rule election_inv_elections)
  have wf: "wf_raft n i (nodes S i)" using inv i by (rule election_inv_wfD)
  show "election_inv n ?T"
    by (rule election_inv_quiet [OF inv i Make_quiet [OF mk wf]]) auto
  fix k t e
  assume "((elections S)(i := (\<lambda>_. None))) k t = Some e"
  then have "elections S k t = Some e" by (auto split: if_splits)
  from election_inv_tallyD [OF inv this] have "k < n" "counted n (cast S) k t e" by blast+
  with cast_moves counted_mono show "k < n \<and> counted n (cast ?T) k t e" by blast
qed

text \<open>Every other step is quiet and grants no vote.\<close>

lemma quiet_preserves:
  assumes "election_inv n S" and "i < n" and "quiet n i (nodes S i) rf"
    and "\<forall>m\<in>ms. wf_msg n m \<and> (\<forall>a b args r. m \<noteq> VoteRep a b args r)"
  shows "election_inv n (moveTo i rf ms S)"
  using assms(4) by (intro election_inv_quiet [OF assms(1-3)]) blast+

theorem election_inv_step:
  assumes "cluster_step n S S'" and inv: "election_inv n S"
  shows "election_inv n S'"
  using assms(1)
proof (cases rule: cluster_step_cases)
  case (elect i ck el args rf)
  then show ?thesis using elect_preserves [OF inv] by simp
next
  case (vote i j args ck r rf)
  then show ?thesis using vote_preserves [OF inv] by simp
next
  case (vote_reply i j args r el W ck el' rf)
  then show ?thesis using vote_reply_preserves [OF inv] by simp
next
  case (send_append i j "term" args)
  then show ?thesis using election_inv_send [OF inv, of "AppendReq i j args"] by simp
next
  case (append i j args ck r rf)
  have "i < n" "j < n" "i \<noteq> j" using election_inv_wfD(2) [OF inv append(2)] by auto
  with append AppendEntries_quiet [OF append(3)] election_inv_wfD(1) [OF inv] show ?thesis
    by (auto intro!: quiet_preserves [OF inv])
next
  case (append_reply i j args r ck rf)
  have "i < n" "j < n" "i \<noteq> j" using election_inv_wfD(2) [OF inv append_reply(2)] by auto
  with append_reply handleAppendReply_quiet [OF append_reply(3)] election_inv_wfD(1) [OF inv]
  show ?thesis by (auto intro!: quiet_preserves [OF inv])
next
  case (send_snapshot i j "term" args)
  then show ?thesis using election_inv_send [OF inv, of "SnapReq i j args"] by simp
next
  case (install i j args ck r rf)
  have "i < n" "j < n" "i \<noteq> j" using election_inv_wfD(2) [OF inv install(2)] by auto
  with install InstallSnapshot_quiet [OF install(3)] election_inv_wfD(1) [OF inv] show ?thesis
    by (auto intro!: quiet_preserves [OF inv])
next
  case (snapshot_reply i j args r ck rf)
  have "i < n" "j < n" "i \<noteq> j" using election_inv_wfD(2) [OF inv snapshot_reply(2)] by auto
  with snapshot_reply handleSnapshotReply_quiet [OF snapshot_reply(3)] election_inv_wfD(1) [OF inv]
  show ?thesis by (auto intro!: quiet_preserves [OF inv])
next
  case (propose i c res rf)
  then show ?thesis using Start_quiet [OF propose(3)] election_inv_wfD(1) [OF inv]
    by (auto intro!: quiet_preserves [OF inv])
next
  case (compact i index d rf)
  then show ?thesis using Raft_Snapshot_quiet [OF compact(4)] election_inv_wfD(1) [OF inv]
    by (auto intro!: quiet_preserves [OF inv])
next
  case (deliver_msgs i msgs rf)
  then show ?thesis using applier_quiet [OF deliver_msgs(3)] election_inv_wfD(1) [OF inv]
    by (auto intro!: quiet_preserves [OF inv] election_inv_deliver)
next
  case (kill i)
  then show ?thesis using Kill_quiet election_inv_wfD(1) [OF inv]
    by (auto intro!: quiet_preserves [OF inv])
next
  case (crash i ck rf)
  then show ?thesis using crash_preserves [OF inv] by simp
qed

text \<open>A peer made over an empty persister holds the dummy entry only.\<close>

lemma Make_empty:
  assumes "Make ck addrs k NewMemoryPersister = Some rf"
  shows "currentTerm rf = 0" and "votedFor rf = -1" and "rlog rf = [dummyEntry 0 0]"
    and "lastIncludedIndex rf = 0" and "lastIncludedTerm rf = 0" and "role rf = Follower"
    and "commitIndex rf = 0" and "lastApplied rf = 0" and "me rf = k" and "peers rf = addrs"
    and "nextIndex rf = replicate (length addrs) 0" and "matchIndex rf = replicate (length addrs) 0"
    and "persisted rf" and "pendingSnapshotValid rf = False"
  using assms
  by (auto simp: Make_def readPersist_def NewMemoryPersister_def Mem_defs slice_def
      persisted_def frame_simps Let_def split: option.splits if_splits)

lemma election_inv_initial:
  assumes "initial n S"
  shows "election_inv n S"
proof -
  from assms obtain addrs cks where a: "length addrs = n"
    "\<And>i. Make (cks i) addrs (int i) NewMemoryPersister = Some (nodes S i)"
    by (auto simp: initial_def)
  note mk = Make_empty [OF a(2)]
  have "wf_raft n i (nodes S i)" for i
    using mk [of i] a(1) by (simp add: wf_raft_def)
  then show ?thesis
    using assms mk(6) by (simp add: election_inv_defs initial_def)
qed

theorem election_inv_reachable: "reachable n S \<Longrightarrow> election_inv n S"
  by (induction rule: reachable.induct) (auto intro: election_inv_initial election_inv_step)

lemma elected_unique:
  assumes "election_inv n S" and "(t, i) \<in> elected S" and "(t, j) \<in> elected S"
  shows "i = j"
proof -
  have cu: "\<And>v t c c'. (v, t, c) \<in> cast S \<Longrightarrow> (v, t, c') \<in> cast S \<Longrightarrow> c = c'"
    using assms(1) unfolding election_inv_def cast_inv_def by blast
  obtain Q R where "majority n Q" "\<forall>v\<in>Q. (v, t, int i) \<in> cast S"
    "majority n R" "\<forall>v\<in>R. (v, t, int j) \<in> cast S"
    using assms unfolding election_inv_def leader_inv_def by blast
  with cu maj.meet [of n Q R] have "int i = int j" by blast
  then show ?thesis by simp
qed

lemma leader_elected:
  assumes "election_inv n S" and "i < n" and "role (nodes S i) = Leader"
  shows "(currentTerm (nodes S i), i) \<in> elected S"
  using assms by (simp add: election_inv_def leader_inv_def)

end
