(* ===== verification/RaftDemo.thy ===== *)
theory RaftDemo
  imports ElectionSafety
begin

section \<open>A concrete run of three peers\<close>

text \<open>
  The run the witnesses of the Raft properties use: peer 0 of three times out, peer 1 grants its
  vote, the reply makes peer 0 the leader of term 1, it accepts a command \<open>c\<close>, peer 1 stores
  it, the reply commits it, and after the next heartbeat both peers have applied it.
\<close>

definition demo_clock :: clock where
  "demo_clock = \<lparr>now = 0, rand200 = 0\<rparr>"

definition demo_addrs :: "string list" where
  "demo_addrs = [''a'', ''b'', ''c'']"

definition demo_peer :: "nat \<Rightarrow> 'c raft" where
  "demo_peer i = the (Make demo_clock demo_addrs (int i) NewMemoryPersister)"

definition demo_start :: "'c cluster" where
  "demo_start = \<lparr>nodes = demo_peer, net = {}, elections = (\<lambda>_ _. None), cast = {}, elected = {},
     leaderLog = (\<lambda>_. []), delivered = {}\<rparr>"

definition demo_candidate :: "'c raft" where
  "demo_candidate = (case startElection demo_clock (demo_peer 0) of Some (el, args, rf) \<Rightarrow> rf)"

definition demo_vote_args :: RequestVoteArgs where
  "demo_vote_args = \<lparr>rv_Term = 1, rv_CandidateID = 0, rv_LastLogIndex = 0, rv_LastLogTerm = 0\<rparr>"

definition demo_voter :: "'c raft" where
  "demo_voter = (case RequestVote demo_clock demo_vote_args (demo_peer 1) of Some (r, rf) \<Rightarrow> rf)"

definition demo_vote :: RequestVoteReply where
  "demo_vote = \<lparr>rvr_Term = 0, rvr_VoteGranted = True\<rparr>"

definition demo_leader :: "'c raft" where
  "demo_leader = (case handleVoteReply demo_clock demo_vote \<lparr>el_term = 1, el_votes = 1\<rparr> demo_candidate
     of Some (el, rf) \<Rightarrow> rf)"

lemma demo_Make: "Make demo_clock demo_addrs (int i) NewMemoryPersister = Some (demo_peer i)"
  by (simp add: demo_peer_def Make_def readPersist_def NewMemoryPersister_def Mem_defs slice_def)

lemmas demo_peer_eq = demo_Make [THEN Make_empty(1)] demo_Make [THEN Make_empty(2)]
  demo_Make [THEN Make_empty(3)] demo_Make [THEN Make_empty(4)] demo_Make [THEN Make_empty(5)]
  demo_Make [THEN Make_empty(6)] demo_Make [THEN Make_empty(7)] demo_Make [THEN Make_empty(8)]
  demo_Make [THEN Make_empty(9)] demo_Make [THEN Make_empty(10)] demo_Make [THEN Make_empty(11)]
  demo_Make [THEN Make_empty(12)] demo_Make [THEN Make_empty(13)] demo_Make [THEN Make_empty(14)]

lemma demo_initial: "initial 3 demo_start"
  unfolding initial_def
  by (intro conjI exI [where x = demo_addrs] exI [where x = "\<lambda>_. demo_clock"])
    (simp_all add: demo_Make demo_start_def, simp add: demo_addrs_def)

lemma demo_reachable_start: "reachable 3 demo_start"
  by (rule reachable.start [OF demo_initial])

lemma demo_elect: "startElection demo_clock (demo_peer 0) =
    Some (\<lparr>el_term = 1, el_votes = 1\<rparr>, demo_vote_args, demo_candidate)"
  by (simp add: demo_candidate_def startElection_def Let_def getLastLogTerm_def getLastLogIndex_def
      frame_simps demo_peer_eq demo_vote_args_def)

lemma demo_candidate_eq [simp]:
  fixes rf :: "'c raft"
  defines rf: "rf \<equiv> demo_candidate"
  shows "role rf = Candidate" "currentTerm rf = 1" "votedFor rf = 0"
  "rlog rf = [dummyEntry 0 0]" "lastIncludedIndex rf = 0"
  "lastIncludedTerm rf = 0" "peers rf = demo_addrs" "me rf = 0"
  "nextIndex rf = [0, 0, 0]" "matchIndex rf = [0, 0, 0]"
  "commitIndex rf = 0" "lastApplied rf = 0"
  using startElection_spec [OF demo_elect, where 'a = 'c]
  by (simp_all add: rf demo_peer_eq keeps_log_def vote_step_def demo_addrs_def numeral_3_eq_3)

lemma demo_grant: "RequestVote demo_clock demo_vote_args (demo_peer 1) = Some (demo_vote, demo_voter)"
  by (simp add: demo_voter_def RequestVote_def Let_def getLastLogTerm_def getLastLogIndex_def
      frame_simps demo_peer_eq demo_vote_args_def demo_vote_def)

lemma demo_win: "handleVoteReply demo_clock demo_vote \<lparr>el_term = 1, el_votes = 1\<rparr> demo_candidate =
    Some (\<lparr>el_term = 1, el_votes = 2\<rparr>, demo_leader)"
  by (simp add: demo_leader_def handleVoteReply_def demo_vote_def transitionToLeader_eq demo_addrs_def)

lemma demo_leader_eq [simp]:
  fixes rf :: "'c raft"
  defines rf: "rf \<equiv> demo_leader"
  shows "role rf = Leader" "currentTerm rf = 1" "votedFor rf = 0"
  "rlog rf = [dummyEntry 0 0]" "lastIncludedIndex rf = 0"
  "lastIncludedTerm rf = 0" "peers rf = demo_addrs" "me rf = 0"
  "nextIndex rf = [1, 1, 1]" "matchIndex rf = [0, 0, 0]"
  "commitIndex rf = 0" "lastApplied rf = 0"
  by (simp_all add: rf demo_leader_def handleVoteReply_def demo_vote_def transitionToLeader_eq demo_addrs_def
      getLastLogIndex_def numeral_3_eq_3)

lemma net_steps_reachable:
  assumes "rtranclp (net_step n) S S'" and "reachable n S"
  shows "reachable n S'"
  using assms by (induction rule: rtranclp_induct) (auto intro: reachable.step cluster_step.network)

lemma run_elected:
  "\<exists>S :: 'c cluster. rtranclp (net_step 3) demo_start S \<and> nodes S 0 = demo_leader \<and> nodes S 1 = demo_voter \<and>
     nodes S 2 = demo_peer 2"
proof -
  let ?S0 = "demo_start :: 'c cluster"
  define S1 where "S1 = (moveTo 0 demo_candidate {VoteReq 0 j demo_vote_args | j. j < 3 \<and> j \<noteq> 0} ?S0)
      \<lparr>elections := (elections ?S0)(0 := (elections ?S0 0)(el_term \<lparr>el_term = 1, el_votes = 1\<rparr> \<mapsto>
         (\<lparr>el_term = 1, el_votes = 1\<rparr>, {j. j < 3 \<and> j \<noteq> 0})))\<rparr>"
  have n0: "nodes ?S0 = demo_peer" by (simp add: demo_start_def)
  have "net_step 3 ?S0 S1"
    unfolding S1_def by (rule net_step.elect [where ck = demo_clock]) (simp_all add: n0 demo_elect)
  then have r1: "rtranclp (net_step 3) ?S0 S1" by (rule r_into_rtranclp)
  have f1: "nodes S1 = demo_peer(0 := demo_candidate)" "VoteReq 0 1 demo_vote_args \<in> net S1"
    "elections S1 0 1 = Some (\<lparr>el_term = 1, el_votes = 1\<rparr>, {1, 2})"
    by (auto simp: S1_def n0)
  define S2 where "S2 = moveTo 1 demo_voter {VoteRep 0 1 demo_vote_args demo_vote} S1"
  have "net_step 3 S1 S2"
    unfolding S2_def by (rule net_step.vote [OF f1(2), where ck = demo_clock]) (use demo_grant in \<open>simp add: f1\<close>)
  with r1 have r2: "rtranclp (net_step 3) ?S0 S2" by (rule rtranclp.rtrancl_into_rtrancl)
  have f2: "nodes S2 = demo_peer(0 := demo_candidate, 1 := demo_voter)"
    "VoteRep 0 1 demo_vote_args demo_vote \<in> net S2"
    "elections S2 0 (rv_Term demo_vote_args) = Some (\<lparr>el_term = 1, el_votes = 1\<rparr>, {1, 2})"
    by (simp_all add: S2_def f1 demo_vote_args_def)
  define S3 where "S3 = (moveTo 0 demo_leader {} S2)\<lparr>elections := (elections S2)(0 :=
      (elections S2 0)(rv_Term demo_vote_args \<mapsto> (\<lparr>el_term = 1, el_votes = 2\<rparr>, {1, 2} - {1})))\<rparr>"
  have "net_step 3 S2 S3"
    unfolding S3_def by (rule net_step.vote_reply [OF f2(2,3), where ck = demo_clock]) (simp_all add: f2 demo_win)
  with r2 have "rtranclp (net_step 3) ?S0 S3" by (rule rtranclp.rtrancl_into_rtrancl)
  moreover have "nodes S3 0 = demo_leader" "nodes S3 1 = demo_voter" "nodes S3 2 = demo_peer 2"
    by (simp_all add: S3_def f2)
  ultimately show ?thesis by blast
qed

subsection \<open>A command is committed and applied\<close>

text \<open>Peer 0 accepts a command, peer 1 stores it, its reply commits it, and both peers apply it.\<close>

definition run_entry :: "'c \<Rightarrow> 'c LogEntry" where
  "run_entry c = \<lparr>le_Term = 1, le_Index = 1, le_Command = Some c\<rparr>"

definition run_log :: "'c \<Rightarrow> 'c LogEntry list" where
  "run_log c = [dummyEntry 0 0, run_entry c]"

definition run_proposer :: "'c \<Rightarrow> 'c raft" where
  "run_proposer c = snd (Start c demo_leader)"

definition demo_append :: "int \<Rightarrow> 'c LogEntry list \<Rightarrow> 'c AppendEntriesArgs" where
  "demo_append c es = \<lparr>ae_Term = 1, ae_LeaderID = 0, ae_PrevLogIndex = c, ae_PrevLogTerm = c,
     ae_Entries = es, ae_LeaderCommit = c\<rparr>"

definition demo_stored :: AppendEntriesReply where
  "demo_stored = \<lparr>aer_Term = 1, aer_Success = True, aer_XTerm = 0, aer_XIndex = 0, aer_XLen = 0\<rparr>"

definition run_store :: "'c \<Rightarrow> 'c raft" where
  "run_store c = (case AppendEntries demo_clock (demo_append 0 [run_entry c]) demo_voter of Some (r, rf) \<Rightarrow> rf)"

definition run_committer :: "'c \<Rightarrow> 'c raft" where
  "run_committer c = the (handleAppendReply demo_clock 1 1 (demo_append 0 [run_entry c]) demo_stored (run_proposer c))"

definition run_store2 :: "'c \<Rightarrow> 'c raft" where
  "run_store2 c = (case AppendEntries demo_clock (demo_append 1 []) (run_store c) of Some (r, rf) \<Rightarrow> rf)"

lemma demo_leader_more [simp]:
  fixes rf :: "'c raft"
  defines rf: "rf \<equiv> demo_leader"
  shows "dead rf = False" "pendingSnapshotValid rf = False"
  by (simp_all add: rf demo_leader_def handleVoteReply_def demo_vote_def transitionToLeader_eq demo_addrs_def
      demo_candidate_def startElection_def Let_def getLastLogTerm_def getLastLogIndex_def frame_simps
      demo_peer_def Make_def readPersist_def NewMemoryPersister_def Mem_defs slice_def resetElectionTimeout_def)

lemma demo_voter_eq [simp]:
  fixes rf :: "'c raft"
  defines rf: "rf \<equiv> demo_voter"
  shows "role rf = Follower" "currentTerm rf = 1" "rlog rf = [dummyEntry 0 0]"
  "lastIncludedIndex rf = 0" "lastIncludedTerm rf = 0" "commitIndex rf = 0"
  "lastApplied rf = 0" "dead rf = False" "pendingSnapshotValid rf = False"
  by (simp_all add: rf demo_voter_def RequestVote_def Let_def getLastLogTerm_def getLastLogIndex_def
      frame_simps demo_peer_eq demo_vote_args_def demo_peer_def Make_def readPersist_def NewMemoryPersister_def
      Mem_defs slice_def resetElectionTimeout_def)

lemma demo_propose:
  "Start c demo_leader = ((1, 1, True), run_proposer c)"
  by (simp add: run_proposer_def Start_def getLastLogIndex_def)

lemma run_proposer_eq [simp]:
  "role (run_proposer c) = Leader" "currentTerm (run_proposer c) = 1" "rlog (run_proposer c) = run_log c"
  "lastIncludedIndex (run_proposer c) = 0" "lastIncludedTerm (run_proposer c) = 0"
  "peers (run_proposer c) = demo_addrs" "me (run_proposer c) = 0" "nextIndex (run_proposer c) = [1, 1, 1]"
  "matchIndex (run_proposer c) = [0, 0, 0]" "commitIndex (run_proposer c) = 0" "lastApplied (run_proposer c) = 0"
  "dead (run_proposer c) = False" "pendingSnapshotValid (run_proposer c) = False"
  by (simp_all add: run_proposer_def Start_def getLastLogIndex_def frame_simps run_log_def run_entry_def)

lemma demo_send: "sendAppendEntriesToPeer 1 1 (run_proposer c) = Some (Some (demo_append 0 [run_entry c]))"
  by (simp add: sendAppendEntriesToPeer_def Let_def getLogTerm_def getLastLogIndex_def go_simps demo_append_def
      run_log_def)

lemma demo_accept: "AppendEntries demo_clock (demo_append 0 [run_entry c]) demo_voter = Some (demo_stored, run_store c)"
  by (simp add: run_store_def AppendEntries_def Let_def demo_append_def demo_stored_def observeTerm_def
      getLastLogIndex_def getLogTerm_def frame_simps)

lemma run_store_eq [simp]:
  "role (run_store c) = Follower" "currentTerm (run_store c) = 1" "rlog (run_store c) = run_log c"
  "lastIncludedIndex (run_store c) = 0" "lastIncludedTerm (run_store c) = 0" "commitIndex (run_store c) = 0"
  "lastApplied (run_store c) = 0" "dead (run_store c) = False" "pendingSnapshotValid (run_store c) = False"
  by (simp_all add: run_store_def AppendEntries_def Let_def demo_append_def observeTerm_def
      getLastLogIndex_def getLogTerm_def frame_simps run_log_def resetElectionTimeout_def persist_def)

lemma demo_commit: "handleAppendReply demo_clock 1 1 (demo_append 0 [run_entry c]) demo_stored (run_proposer c) = Some (run_committer c)"
  by (simp add: run_committer_def handleAppendReply_def Let_def demo_append_def demo_stored_def
      getLastLogIndex_def run_log_def advanceCommit.simps getLogTerm_def go_simps run_entry_def demo_addrs_def
      upt_rec numeral_3_eq_3)

lemma run_committer_eq [simp]:
  "role (run_committer c) = Leader" "currentTerm (run_committer c) = 1" "rlog (run_committer c) = run_log c"
  "lastIncludedIndex (run_committer c) = 0" "lastIncludedTerm (run_committer c) = 0"
  "nextIndex (run_committer c) = [1, 2, 1]" "commitIndex (run_committer c) = 1" "lastApplied (run_committer c) = 0"
  "dead (run_committer c) = False" "pendingSnapshotValid (run_committer c) = False" "me (run_committer c) = 0"
  by (simp_all add: run_committer_def handleAppendReply_def Let_def demo_append_def demo_stored_def
      getLastLogIndex_def run_log_def advanceCommit.simps getLogTerm_def go_simps run_entry_def demo_addrs_def
      upt_rec numeral_3_eq_3)

lemma demo_heartbeat: "sendAppendEntriesToPeer 1 1 (run_committer c) = Some (Some (demo_append 1 []))"
  by (simp add: sendAppendEntriesToPeer_def Let_def getLogTerm_def getLastLogIndex_def go_simps demo_append_def
      run_log_def run_entry_def)

lemma demo_follow: "AppendEntries demo_clock (demo_append 1 []) (run_store c) = Some (demo_stored, run_store2 c)"
  by (simp add: run_store2_def AppendEntries_def Let_def demo_append_def demo_stored_def observeTerm_def
      getLastLogIndex_def getLogTerm_def frame_simps go_simps run_log_def run_entry_def)

lemma run_store2_eq [simp]:
  "role (run_store2 c) = Follower" "currentTerm (run_store2 c) = 1" "rlog (run_store2 c) = run_log c"
  "lastIncludedIndex (run_store2 c) = 0" "lastIncludedTerm (run_store2 c) = 0" "commitIndex (run_store2 c) = 1"
  "lastApplied (run_store2 c) = 0" "dead (run_store2 c) = False" "pendingSnapshotValid (run_store2 c) = False"
  by (simp_all add: run_store2_def AppendEntries_def Let_def demo_append_def observeTerm_def go_simps
      getLastLogIndex_def getLogTerm_def frame_simps run_log_def run_entry_def resetElectionTimeout_def)

lemma demo_apply:
  assumes "rlog rf = run_log c" and "lastIncludedIndex rf = 0" and "commitIndex rf = 1" and "lastApplied rf = 0"
    and "\<not> dead rf" and "\<not> pendingSnapshotValid rf"
  shows "applier rf = Some ([CommandMsg (Some c) 1], rf\<lparr>lastApplied := 1\<rparr>)"
  using assms
  by (simp add: applier_def applier_ready_def applyLoop.simps getLogEntry_def run_log_def run_entry_def go_simps Let_def)

lemma run_committed:
  fixes S1 :: "'c cluster"
  assumes "nodes S1 0 = run_proposer c" and "nodes S1 1 = demo_voter"
  shows "\<exists>S. rtranclp (net_step 3) S1 S \<and> nodes S 0 = run_committer c \<and> nodes S 1 = run_store c"
proof -
  define S2 where "S2 = S1\<lparr>net := net S1 \<union> {AppendReq 0 1 (demo_append 0 [run_entry c])}\<rparr>"
  have "net_step 3 S1 S2"
    unfolding S2_def by (rule net_step.send_append) (use demo_send assms in simp_all)
  then have r2: "rtranclp (net_step 3) S1 S2" by (rule r_into_rtranclp)
  define S3 where "S3 = moveTo 1 (run_store c) {AppendRep 0 1 (demo_append 0 [run_entry c]) demo_stored} S2"
  have "net_step 3 S2 S3"
    unfolding S3_def
    by (rule net_step.append [where ck = demo_clock]) (use demo_accept assms in \<open>simp_all add: S2_def\<close>)
  with r2 have r3: "rtranclp (net_step 3) S1 S3" by (rule rtranclp.rtrancl_into_rtrancl)
  define S4 where "S4 = moveTo 0 (run_committer c) {} S3"
  have "net_step 3 S3 S4"
    unfolding S4_def
    by (rule net_step.append_reply [where ck = demo_clock and j = 1 and args = "demo_append 0 [run_entry c]"
          and r = demo_stored])
       (use demo_commit assms in \<open>simp_all add: S2_def S3_def demo_append_def\<close>)
  with r3 have "rtranclp (net_step 3) S1 S4" by (rule rtranclp.rtrancl_into_rtrancl)
  moreover have "nodes S4 0 = run_committer c" "nodes S4 1 = run_store c" by (simp_all add: S4_def S3_def)
  ultimately show ?thesis by blast
qed

lemma run_followed:
  fixes S4 :: "'c cluster"
  assumes "nodes S4 0 = run_committer c" and "nodes S4 1 = run_store c"
  shows "\<exists>S. rtranclp (net_step 3) S4 S \<and> nodes S 0 = run_committer c \<and> nodes S 1 = run_store2 c"
proof -
  define S5 where "S5 = S4\<lparr>net := net S4 \<union> {AppendReq 0 1 (demo_append 1 [])}\<rparr>"
  have "net_step 3 S4 S5"
    unfolding S5_def by (rule net_step.send_append) (use demo_heartbeat in \<open>simp_all add: assms\<close>)
  then have r5: "rtranclp (net_step 3) S4 S5" by (rule r_into_rtranclp)
  define S6 where "S6 = moveTo 1 (run_store2 c) {AppendRep 0 1 (demo_append 1 []) demo_stored} S5"
  have "net_step 3 S5 S6"
    unfolding S6_def
    by (rule net_step.append [where ck = demo_clock]) (use demo_follow assms(2) in \<open>simp_all add: S5_def\<close>)
  with r5 have "rtranclp (net_step 3) S4 S6" by (rule rtranclp.rtrancl_into_rtrancl)
  moreover have "nodes S6 0 = run_committer c" "nodes S6 1 = run_store2 c" by (simp_all add: S6_def S5_def assms)
  ultimately show ?thesis by blast
qed

text \<open>The run with the command \<open>''x''\<close>.\<close>

abbreviation demo_entry :: "string LogEntry" where "demo_entry \<equiv> run_entry ''x''"
abbreviation demo_log :: "string LogEntry list" where "demo_log \<equiv> run_log ''x''"
abbreviation demo_proposer :: "string raft" where "demo_proposer \<equiv> run_proposer ''x''"
abbreviation demo_store :: "string raft" where "demo_store \<equiv> run_store ''x''"
abbreviation demo_committer :: "string raft" where "demo_committer \<equiv> run_committer ''x''"
abbreviation demo_store2 :: "string raft" where "demo_store2 \<equiv> run_store2 ''x''"

lemma demo_reachable_leader:
  "\<exists>S :: string cluster. reachable 3 S \<and> nodes S 0 = demo_leader \<and> nodes S 1 = demo_voter \<and> nodes S 2 = demo_peer 2"
  using run_elected net_steps_reachable [OF _ demo_reachable_start] by metis

lemma demo_reachable_applied:
  "\<exists>S. reachable 3 S \<and> nodes S 0 = demo_committer\<lparr>lastApplied := 1\<rparr> \<and> nodes S 1 = demo_store2\<lparr>lastApplied := 1\<rparr> \<and>
     (0, 1, Some ''x'') \<in> delivered S \<and> (1, 1, Some ''x'') \<in> delivered S"
proof -
  obtain S0 :: "string cluster" where r0: "reachable 3 S0" and n0: "nodes S0 0 = demo_leader" "nodes S0 1 = demo_voter"
    using demo_reachable_leader by blast
  define S1 where "S1 = moveTo 0 demo_proposer {} S0"
  have "cluster_step 3 S0 S1"
    unfolding S1_def by (rule cluster_step.propose) (use demo_propose n0 in simp_all)
  with r0 have r1: "reachable 3 S1" by (rule reachable.step)
  obtain S4 where s4: "rtranclp (net_step 3) S1 S4" "nodes S4 0 = demo_committer" "nodes S4 1 = demo_store"
    using run_committed [of S1 "''x''"] n0 by (auto simp: S1_def)
  obtain S6 where s6: "rtranclp (net_step 3) S4 S6" and n6: "nodes S6 0 = demo_committer" "nodes S6 1 = demo_store2"
    using run_followed [OF s4(2,3)] by blast
  have r6: "reachable 3 S6" by (rule net_steps_reachable [OF s6 net_steps_reachable [OF s4(1) r1]])
  define S7 where "S7 = deliver 0 [CommandMsg (Some ''x'') 1] (moveTo 0 (demo_committer\<lparr>lastApplied := 1\<rparr>) {} S6)"
  have "cluster_step 3 S6 S7"
    unfolding S7_def by (rule cluster_step.deliver_msgs) (simp_all add: n6 demo_apply)
  with r6 have r7: "reachable 3 S7" by (rule reachable.step)
  define S8 where "S8 = deliver 1 [CommandMsg (Some ''x'') 1] (moveTo 1 (demo_store2\<lparr>lastApplied := 1\<rparr>) {} S7)"
  have "cluster_step 3 S7 S8"
    unfolding S8_def by (rule cluster_step.deliver_msgs) (use n6(2) in \<open>simp_all add: S7_def demo_apply\<close>)
  with r7 have "reachable 3 S8" by (rule reachable.step)
  moreover have "nodes S8 0 = demo_committer\<lparr>lastApplied := 1\<rparr>" "nodes S8 1 = demo_store2\<lparr>lastApplied := 1\<rparr>"
    "(0, 1, Some ''x'') \<in> delivered S8" "(1, 1, Some ''x'') \<in> delivered S8"
    by (simp_all add: S8_def S7_def)
  ultimately show ?thesis by blast
qed

lemmas demo_entry_def = run_entry_def
lemmas demo_log_def = run_log_def

end
