(* ===== verification/RaftProperties.thy ===== *)
theory RaftProperties
  imports ElectionSafety RaftDemo
begin

section \<open>Properties of the Raft peers\<close>

text \<open>
  The claims about elections, votes, the log of one peer and its restart. The claims about the
  group's logs are in \<open>LogSafety\<close>.
\<close>

subsection \<open>Elections and votes\<close>

text \<open>C3: Election safety: in every state a group of \<open>n\<close> peers can reach, over a network that loses,
  delays, reorders and repeats messages, and with crashes and restarts at any time, two peers that
  both lead in the same term are the same peer.\<close>

theorem election_safety:
  assumes "reachable n S" and "i < n" and "j < n"
    and "role (nodes S i) = Leader" and "role (nodes S j) = Leader"
    and "currentTerm (nodes S i) = currentTerm (nodes S j)"
  shows "i = j"
proof -
  note inv = election_inv_reachable [OF assms(1)]
  have "(currentTerm (nodes S i), i) \<in> elected S" "(currentTerm (nodes S i), j) \<in> elected S"
    using leader_elected [OF inv assms(2,4)] leader_elected [OF inv assms(3,5)] assms(6) by simp_all
  then show ?thesis by (rule elected_unique [OF inv])
qed

lemma election_safety_witness:
  "\<exists>S :: string cluster. reachable 3 S \<and> role (nodes S 0) = Leader \<and>
     (\<forall>j<3. role (nodes S j) = Leader \<and> currentTerm (nodes S j) = 1 \<longrightarrow> 0 = j)"
proof -
  obtain S :: "string cluster" where S: "reachable 3 S" "nodes S 0 = demo_leader"
    using demo_reachable_leader by blast
  have "0 = j" if "j < 3" "role (nodes S j) = Leader" "currentTerm (nodes S j) = 1" for j
    by (rule election_safety [OF S(1)]) (use that S(2) in simp_all)
  with S show ?thesis by (intro exI [where x = S]) simp
qed

lemma cluster_vote_step:
  assumes "cluster_step n S S'" and inv: "election_inv n S" and "i < n"
  shows "vote_step (nodes S i) (nodes S' i)"
proof -
  note wf = election_inv_wfD(1) [OF inv] and wm = election_inv_wfD(2) [OF inv]
  have q: "vote_step (nodes S i) (((nodes S)(j := rf)) i)" if "quiet n j (nodes S j) rf" for j rf
    using that by (auto simp: quiet_def)
  show ?thesis
    using assms(1)
  proof (cases rule: cluster_step_cases)
    case (elect j ck el args rf)
    with q startElection_quiet [OF elect(3) wf [OF elect(2)]] show ?thesis by simp
  next
    case (vote k j args ck r rf)
    have "j < n" using wm [OF vote(2)] by simp
    with q vote RequestVote_quiet [OF vote(3) wf] show ?thesis by simp
  next
    case (vote_reply j k args r el W ck el' rf)
    have j: "j < n" using election_inv_tallyD [OF inv vote_reply(3)] by simp
    then have lens: "length (nextIndex (nodes S j)) = length (peers (nodes S j))"
      "length (matchIndex (nodes S j)) = length (peers (nodes S j))"
      using wf [OF j] by (simp_all add: wf_raft_def)
    have "vote_step (nodes S j) rf"
      using vote_reply(5) lens by (cases rule: handleVoteReply_cases) (auto simp: vote_step_def)
    with vote_reply show ?thesis by simp
  next
    case (append k j args ck r rf)
    have "j < n" using wm [OF append(2)] by simp
    with q append AppendEntries_quiet [OF append(3) wf] show ?thesis by simp
  next
    case (append_reply j k args r ck rf)
    have "j < n" using wm [OF append_reply(2)] by simp
    with q append_reply handleAppendReply_quiet [OF append_reply(3) wf] show ?thesis by simp
  next
    case (install k j args ck r rf)
    have "j < n" using wm [OF install(2)] by simp
    with q install InstallSnapshot_quiet [OF install(3) wf] show ?thesis by simp
  next
    case (snapshot_reply j k args r ck rf)
    have "j < n" "k < n" using wm [OF snapshot_reply(2)] by simp_all
    with q snapshot_reply handleSnapshotReply_quiet [OF snapshot_reply(3) wf] show ?thesis by simp
  next
    case (propose j c res rf)
    with q Start_quiet [OF propose(3) wf [OF propose(2)]] show ?thesis by simp
  next
    case (compact j index d rf)
    with q Raft_Snapshot_quiet [OF compact(4) wf [OF compact(2)]] show ?thesis by simp
  next
    case (deliver_msgs j msgs rf)
    with q applier_quiet [OF deliver_msgs(3) wf [OF deliver_msgs(2)]] show ?thesis by simp
  next
    case (kill j)
    with q Kill_quiet [OF wf [OF kill(2)]] show ?thesis by simp
  next
    case (crash j ck rf)
    with q Make_quiet [OF crash(3) wf [OF crash(2)]] show ?thesis by simp
  qed simp_all
qed

text \<open>C17: No step of the group, a crash and restart included, lowers a peer's term, or changes a vote the
  peer has cast in its term.\<close>

theorem terms_grow_votes_stay:
  assumes "reachable n S" and "cluster_step n S S'" and "i < n"
  shows "currentTerm (nodes S i) \<le> currentTerm (nodes S' i) \<and>
    (currentTerm (nodes S' i) = currentTerm (nodes S i) \<and> votedFor (nodes S i) \<noteq> -1 \<longrightarrow>
       votedFor (nodes S' i) = votedFor (nodes S i))"
  using cluster_vote_step [OF assms(2) election_inv_reachable [OF assms(1)] assms(3)]
  by (simp add: vote_step_def)

lemma demo_crash: "\<exists>rf. Make demo_clock demo_addrs (int 0) (persister (demo_leader :: string raft)) = Some rf"
proof -
  obtain S :: "string cluster" where S: "reachable 3 S" "nodes S 0 = demo_leader"
    using demo_reachable_leader by blast
  have "persisted (demo_leader :: string raft)"
    using election_inv_wfD(1) [OF election_inv_reachable [OF S(1)], of 0] S(2) by (simp add: wf_raft_def)
  then show ?thesis using Make_persisted by blast
qed

lemma terms_grow_witness:
  "\<exists>(S :: string cluster) S'. reachable 3 S \<and> cluster_step 3 S S' \<and> role (nodes S 0) = Leader \<and>
     role (nodes S' 0) = Follower \<and> 1 \<le> currentTerm (nodes S' 0)"
proof -
  obtain S :: "string cluster" where S: "reachable 3 S" "nodes S 0 = demo_leader"
    using demo_reachable_leader by blast
  obtain rf where rf: "Make demo_clock (peers (nodes S 0)) (int 0) (persister (nodes S 0)) = Some rf"
    using demo_crash S(2) by auto
  let ?S = "(moveTo 0 rf {} S)\<lparr>elections := (elections S)(0 := (\<lambda>_. None))\<rparr>"
  have st: "cluster_step 3 S ?S" by (rule cluster_step.crash [OF _ rf]) simp
  have "persisted (demo_leader :: string raft)"
    using election_inv_wfD(1) [OF election_inv_reachable [OF S(1)], of 0] S(2) by (simp add: wf_raft_def)
  then have "role rf = Follower"
    using Make_persisted [of "demo_leader :: string raft" demo_clock demo_addrs "int 0"] rf S(2) by auto
  with terms_grow_votes_stay [OF S(1) st, of 0] S st show ?thesis
    by (intro exI [where x = S] exI [where x = ?S]) simp
qed

text \<open>C16: The vote handler answers every request, and grants one exactly when the term is not old, the
  peer has not voted for another candidate in that term, and the candidate's log is at least as
  up to date (by last term, then by last index); a granted vote is on the persister before the
  reply exists, and the peer's term becomes the larger of the two.\<close>

theorem vote_granted_exactly:
  assumes "rlog rf \<noteq> []"
  shows "\<exists>r rf'. RequestVote ck args rf = Some (r, rf') \<and>
    (rvr_VoteGranted r \<longleftrightarrow> currentTerm rf \<le> rv_Term args \<and>
       (currentTerm rf < rv_Term args \<or> votedFor rf = -1 \<or> votedFor rf = rv_CandidateID args) \<and>
       (last_term rf < rv_LastLogTerm args \<or>
        last_term rf = rv_LastLogTerm args \<and> getLastLogIndex rf \<le> rv_LastLogIndex args)) \<and>
    (rvr_VoteGranted r \<longrightarrow> votedFor rf' = rv_CandidateID args \<and>
       Mem_ReadRaftState (persister rf') = serializeState rf') \<and>
    currentTerm rf' = max (currentTerm rf) (rv_Term args)"
proof -
  have t: "getLastLogTerm (raised (rv_Term args) rf) = Some (last_term rf)"
    using assms getLastLogTerm_eq [of "raised (rv_Term args) rf"] by simp
  have v: "votedFor (raised (rv_Term args) rf) =
      (if currentTerm rf < rv_Term args then -1 else votedFor rf)"
    by (simp add: raised_def frame_simps)
  have s: "Mem_ReadRaftState (persister (resetElectionTimeout ck (persist x))) =
      serializeState (resetElectionTimeout ck (persist x))" for x :: "'a raft"
    by (simp add: persist_def serializeState_def resetElectionTimeout_def Mem_defs)
  show ?thesis
    using t v s by (auto simp: RequestVote_def Let_def raised_def [symmetric] frame_simps)
qed

lemma vote_granted_witness:
  "\<exists>r rf'. RequestVote demo_clock demo_vote_args demo_candidate = Some (r, rf') \<and> rvr_VoteGranted r \<and>
     votedFor rf' = 0"
  using vote_granted_exactly [of demo_candidate demo_clock demo_vote_args]
  by (auto simp: demo_vote_args_def last_term_def term_at_def getLastLogIndex_def)

subsection \<open>The log of a peer\<close>

text \<open>C18: The loop of \<open>AppendEntries\<close> computes the merge of the log after \<open>PrevLogIndex\<close> with the new
  entries: it keeps every entry whose term agrees and all that follows the new entries when they
  all agree, replaces everything from the first conflict on, saves the log whenever it changed, and
  never panics.\<close>

theorem append_loop_merges:
  assumes "lastIncludedIndex rf < idx" and "idx \<le> getLastLogIndex rf + 1"
  shows "appendEntriesLoop idx es (getLastLogIndex rf) rf =
    (let k = nat (idx - lastIncludedIndex rf);
         l = take k (rlog rf) @ merge_entries (drop k (rlog rf)) es
     in Some (lastIncludedIndex rf + int (length l) - 1, saveLog l rf))"
  using appendEntriesLoop_eq [OF assms, of es] by (simp add: Let_def)

lemma append_loop_witness:
  "appendEntriesLoop 1 [\<lparr>le_Term = 1, le_Index = 1, le_Command = Some ''x''\<rparr>] (getLastLogIndex demo_leader) demo_leader =
     Some (1, saveLog [dummyEntry 0 0, \<lparr>le_Term = 1, le_Index = 1, le_Command = Some ''x''\<rparr>] demo_leader)"
  using append_loop_merges [of demo_leader 1 "[\<lparr>le_Term = 1, le_Index = 1, le_Command = Some ''x''\<rparr>]"]
  by (simp add: getLastLogIndex_def)

text \<open>C20: A peer that crashes in any reachable state restarts with the term, the vote and the log it had,
  as a follower, with its commit and apply indexes at its snapshot.\<close>

theorem restart_keeps_log:
  assumes "reachable n S" and "i < n"
  shows "\<exists>rf'. Make ck (peers (nodes S i)) (int i) (persister (nodes S i)) = Some rf' \<and>
    currentTerm rf' = currentTerm (nodes S i) \<and> votedFor rf' = votedFor (nodes S i) \<and>
    rlog rf' = rlog (nodes S i) \<and> lastIncludedIndex rf' = lastIncludedIndex (nodes S i) \<and>
    lastIncludedTerm rf' = lastIncludedTerm (nodes S i) \<and> role rf' = Follower \<and>
    commitIndex rf' = lastIncludedIndex rf' \<and> lastApplied rf' = lastIncludedIndex rf'"
proof -
  have "persisted (nodes S i)"
    using election_inv_wfD(1) [OF election_inv_reachable [OF assms(1)] assms(2)] by (simp add: wf_raft_def)
  then show ?thesis
    using Make_persisted [of "nodes S i" ck "peers (nodes S i)" "int i"] by auto
qed

lemma restart_witness:
  "\<exists>rf'. Make demo_clock demo_addrs 0 (persister (demo_leader :: string raft)) = Some rf' \<and> currentTerm rf' = 1 \<and>
     votedFor rf' = 0 \<and> role rf' = Follower"
proof -
  obtain S :: "string cluster" where S: "reachable 3 S" "nodes S 0 = demo_leader"
    using demo_reachable_leader by blast
  from restart_keeps_log [OF S(1), of 0 demo_clock] S(2) show ?thesis by auto
qed

text \<open>C19: The commit loop returns for a leader whose log and indexes are in order, and moves the commit
  index, if at all, to an index of the log whose entry has the leader's current term and that a
  majority of the peers, the leader counted, holds according to \<open>matchIndex\<close>.\<close>

theorem commit_needs_majority:
  assumes "length (matchIndex rf) = length (peers rf)" and "lastIncludedIndex rf \<le> commitIndex rf"
  shows "\<exists>rf'. advanceCommit (getLastLogIndex rf) rf = Some rf' \<and>
    (rf' = rf \<or> (\<exists>c. rf' = rf\<lparr>commitIndex := c\<rparr> \<and> commitIndex rf < c \<and> c \<le> getLastLogIndex rf \<and>
       term_at c rf = currentTerm rf \<and>
       length (peers rf) div 2 < Suc (card {p. p < length (peers rf) \<and> int p \<noteq> me rf \<and> c \<le> matchIndex rf ! p})))"
proof -
  obtain rf' where rf': "advanceCommit (getLastLogIndex rf) rf = Some rf'"
    using advanceCommit_total [OF assms, of "getLastLogIndex rf"] by auto
  from advanceCommit_spec [OF rf' assms order_refl] rf' show ?thesis
    by (auto simp: matchers_def)
qed

lemma commit_needs_majority_witness:
  "\<exists>rf'. advanceCommit 0 demo_leader = Some rf' \<and> commitIndex demo_leader \<le> commitIndex rf'"
  using commit_needs_majority [of demo_leader]
  by (auto simp: getLastLogIndex_def demo_addrs_def)

text \<open>C21: The applier delivers exactly the committed commands not delivered yet, each once, in index
  order and without a gap, and then stands at the commit index.\<close>

theorem applier_in_order:
  assumes "lastIncludedIndex rf \<le> lastApplied rf" and "lastApplied rf \<le> commitIndex rf"
    and "commitIndex rf \<le> getLastLogIndex rf"
  shows "applyLoop rf =
    Some (map (\<lambda>i. CommandMsg (le_Command (rlog rf ! nat (i - lastIncludedIndex rf))) i)
            [lastApplied rf + 1..commitIndex rf],
          rf\<lparr>lastApplied := commitIndex rf\<rparr>)"
  using applyLoop_eq [OF assms] by (simp add: deliveries_def)

lemma applier_witness:
  "applyLoop (demo_leader\<lparr>rlog := [dummyEntry 0 0, \<lparr>le_Term = 1, le_Index = 1, le_Command = Some ''x''\<rparr>], commitIndex := 1\<rparr>) =
     Some ([CommandMsg (Some ''x'') 1], demo_leader
       \<lparr>rlog := [dummyEntry 0 0, \<lparr>le_Term = 1, le_Index = 1, le_Command = Some ''x''\<rparr>], commitIndex := 1, lastApplied := 1\<rparr>)"
  using applier_in_order [of "demo_leader\<lparr>rlog := [dummyEntry 0 0, \<lparr>le_Term = 1, le_Index = 1, le_Command = Some ''x''\<rparr>], commitIndex := 1\<rparr>"]
  by (simp add: getLastLogIndex_def)

end
