(* ===== verification/LogMatching.thy ===== *)
theory LogMatching
  imports Core "HOL-Library.Sublist"
begin

section \<open>Logs as lists of entries\<close>

text \<open>
  Facts about logs alone: the term at an index (counted from 1, as the code counts), agreement of
  two logs up to an index, and logs all of whose prefixes were written by the leader of their last
  entry's term (\<open>good\<close>), on which agreement at one index is agreement up to it.
\<close>

type_synonym 'c log = "'c LogEntry list"

definition lterm :: "'c log \<Rightarrow> nat \<Rightarrow> int" where
  "lterm xs k = (if k = 0 then 0 else le_Term (xs ! (k - 1)))"

definition agree :: "nat \<Rightarrow> 'a list \<Rightarrow> 'a list \<Rightarrow> bool" where
  "agree k xs ys \<longleftrightarrow> k \<le> length xs \<and> k \<le> length ys \<and> take k xs = take k ys"

definition lpos :: "'c log \<Rightarrow> log_position" where
  "lpos xs = Pos (lterm xs (length xs)) (int (length xs))"

lemma lterm_0 [simp]: "lterm xs 0 = 0"
  by (simp add: lterm_def)

lemma agree_0 [simp]: "agree 0 xs ys"
  by (simp add: agree_def)

lemma agree_refl: "k \<le> length xs \<Longrightarrow> agree k xs xs"
  by (simp add: agree_def)

lemma agree_sym: "agree k xs ys \<Longrightarrow> agree k ys xs"
  by (simp add: agree_def)

lemma agree_trans: "agree k xs ys \<Longrightarrow> agree k ys zs \<Longrightarrow> agree k xs zs"
  by (simp add: agree_def)

lemma agree_le: "agree k xs ys \<Longrightarrow> j \<le> k \<Longrightarrow> agree j xs ys"
  by (auto simp: agree_def) (metis min.absorb1 take_take)

lemma agree_prefix: "agree k xs ys \<Longrightarrow> prefix ys zs \<Longrightarrow> agree k xs zs"
  by (auto simp: agree_def prefix_def)

lemma agree_prefix_left: "agree k xs ys \<Longrightarrow> prefix xs zs \<Longrightarrow> agree k zs ys"
  by (auto simp: agree_def prefix_def)

lemma prefix_agree: "prefix xs ys \<Longrightarrow> k \<le> length xs \<Longrightarrow> agree k xs ys"
  by (auto simp: agree_def prefix_def)

lemma agree_take: "m \<le> length ys \<Longrightarrow> k \<le> m \<Longrightarrow> agree k (take m ys) ys"
  by (simp add: agree_def min_def)

lemma agree_nth: "agree k xs ys \<Longrightarrow> j < k \<Longrightarrow> xs ! j = ys ! j"
  by (auto simp: agree_def) (metis nth_take)

lemma agree_lterm: "agree k xs ys \<Longrightarrow> j \<le> k \<Longrightarrow> lterm xs j = lterm ys j"
  by (auto simp: lterm_def intro!: arg_cong [where f = le_Term] agree_nth)

lemma agree_length: "agree k xs ys \<Longrightarrow> k \<le> length xs" "agree k xs ys \<Longrightarrow> k \<le> length ys"
  by (simp_all add: agree_def)

lemma agree_takeD: "agree k xs ys \<Longrightarrow> take k xs = take k ys"
  by (simp add: agree_def)

lemma lterm_append: "k \<le> length xs \<Longrightarrow> lterm (xs @ ys) k = lterm xs k"
  by (auto simp: lterm_def nth_append)

lemma lterm_snoc [simp]: "lterm (xs @ [e]) (Suc (length xs)) = le_Term e"
  by (simp add: lterm_def)

lemma lterm_mem: "0 < k \<Longrightarrow> k \<le> length xs \<Longrightarrow> \<exists>e\<in>set xs. lterm xs k = le_Term e"
  by (auto simp: lterm_def)

lemma lterm_take: "k \<le> m \<Longrightarrow> m \<le> length xs \<Longrightarrow> lterm (take m xs) k = lterm xs k"
  by (rule agree_lterm [OF agree_take [of m xs m]]) simp_all

subsection \<open>Logs made of leaders' prefixes\<close>

definition sorted_terms :: "'c log \<Rightarrow> bool" where
  "sorted_terms xs \<longleftrightarrow> sorted (map le_Term xs)"

definition matches :: "(int \<Rightarrow> 'c log) \<Rightarrow> 'c log \<Rightarrow> bool" where
  "matches L xs \<longleftrightarrow> (\<forall>k. 0 < k \<and> k \<le> length xs \<longrightarrow> agree k xs (L (lterm xs k)))"

definition good :: "(int \<Rightarrow> 'c log) \<Rightarrow> int \<Rightarrow> 'c log \<Rightarrow> bool" where
  "good L T xs \<longleftrightarrow> matches L xs \<and> sorted_terms xs \<and> (\<forall>e\<in>set xs. 0 < le_Term e \<and> le_Term e \<le> T)"

lemma goodD:
  "good L T xs \<Longrightarrow> 0 < k \<Longrightarrow> k \<le> length xs \<Longrightarrow> agree k xs (L (lterm xs k))"
  "good L T xs \<Longrightarrow> 0 < k \<Longrightarrow> k \<le> length xs \<Longrightarrow> 0 < lterm xs k"
  "good L T xs \<Longrightarrow> 0 < k \<Longrightarrow> k \<le> length xs \<Longrightarrow> lterm xs k \<le> T"
  using lterm_mem [of k xs] by (auto simp: good_def matches_def)

lemma good_Nil [simp]: "good L T []"
  by (simp add: good_def matches_def sorted_terms_def)

lemma good_mono: "good L T xs \<Longrightarrow> T \<le> T' \<Longrightarrow> good L T' xs"
  by (auto simp: good_def)

lemma lterm_sorted:
  assumes "sorted_terms xs" and "j \<le> k" and "k \<le> length xs" and "0 < j"
  shows "lterm xs j \<le> lterm xs k"
  using assms sorted_nth_mono [of "map le_Term xs" "j - 1" "k - 1"]
  by (auto simp: lterm_def sorted_terms_def)

lemma good_lterm_le:
  assumes "good L T xs" and "j \<le> k" and "k \<le> length xs"
  shows "lterm xs j \<le> lterm xs k"
proof (cases "j = 0")
  case True
  then show ?thesis using goodD(2) [OF assms(1) _ assms(3)] by (cases "k = 0") simp_all
next
  case False
  with assms lterm_sorted [of xs j k] show ?thesis by (simp add: good_def)
qed

lemma good_take: "good L T xs \<Longrightarrow> good L T (take m xs)"
proof -
  assume g: "good L T xs"
  have "agree k (take m xs) (L (lterm (take m xs) k))" if "0 < k" "k \<le> length (take m xs)" for k
  proof -
    have k: "k \<le> length xs" "k \<le> min m (length xs)" using that by auto
    have "take m xs = take (min m (length xs)) xs" by (simp add: min_def)
    then have "agree k (take m xs) xs" using agree_take [of "min m (length xs)" xs k] k by simp
    then show ?thesis using goodD(1) [OF g that(1) k(1)] agree_lterm agree_trans by (metis order_refl)
  qed
  with g show ?thesis
    by (auto simp: good_def matches_def sorted_terms_def take_map [symmetric] sorted_wrt_take dest: in_set_takeD)
qed

lemma good_grow:
  assumes "good L T xs" and "\<And>t. prefix (L t) (L' t)"
  shows "good L' T xs"
  using assms agree_prefix unfolding good_def matches_def by blast

text \<open>The log matching property.\<close>

lemma same_term_agree:
  assumes "good L T xs" and "good L T' ys" and "k \<le> length xs" and "k \<le> length ys"
    and "lterm xs k = lterm ys k"
  shows "agree k xs ys"
proof (cases "k = 0")
  case False
  with goodD(1) [OF assms(1) _ assms(3)] goodD(1) [OF assms(2) _ assms(4)] assms(5) show ?thesis
    by (metis agree_sym agree_trans neq0_conv)
qed simp

lemma good_snoc:
  assumes "good L T (L t)" and "le_Term e = t" and "T \<le> t" and "0 < t"
  shows "good (L(t := L t @ [e])) t (L t @ [e])"
proof -
  let ?L = "L(t := L t @ [e])"
  have g: "good ?L t (L t)"
    by (rule good_grow [OF good_mono [OF assms(1,3)]]) (simp add: prefix_def)
  have "agree k (L t @ [e]) (?L (lterm (L t @ [e]) k))" if "0 < k" "k \<le> Suc (length (L t))" for k
  proof (cases "k = Suc (length (L t))")
    case True
    then show ?thesis using assms(2) by (simp add: agree_def)
  next
    case False
    with that have k: "k \<le> length (L t)" by simp
    then have "lterm (L t @ [e]) k = lterm (L t) k" by (rule lterm_append)
    with goodD(1) [OF g that(1) k] show ?thesis by (auto intro: agree_prefix_left)
  qed
  moreover have "\<forall>x\<in>set (L t). le_Term x \<le> le_Term e" using assms(1-3) by (auto simp: good_def)
  ultimately show ?thesis
    using g assms(2,4) by (auto simp: good_def matches_def sorted_terms_def sorted_append)
qed

subsection \<open>Merging the entries of a leader into a log\<close>

text \<open>
  Where a log that agrees with the leader's up to \<open>p\<close> receives the leader's entries up to \<open>m\<close>: it stays
  as it is when it already agrees up to \<open>m\<close>, and becomes the leader's prefix otherwise.
\<close>

definition follow :: "nat \<Rightarrow> 'c log \<Rightarrow> 'c log \<Rightarrow> 'c log" where
  "follow m ys xs = (if agree m xs ys then xs else take m ys)"

lemma follow_agree: "m \<le> length ys \<Longrightarrow> agree m (follow m ys xs) ys"
  by (simp add: follow_def agree_take)

lemma follow_keeps:
  assumes "agree k xs ys" and "m \<le> length ys"
  shows "agree k (follow m ys xs) ys"
proof (cases "k \<le> m")
  case True
  with follow_agree [OF assms(2)] show ?thesis by (rule agree_le)
next
  case False
  then have "agree m xs ys" using agree_le [OF assms(1), of m] by simp
  with assms(1) show ?thesis by (simp add: follow_def)
qed

lemma follow_good: "good L T xs \<Longrightarrow> good L T' ys \<Longrightarrow> T \<le> T'' \<Longrightarrow> T' \<le> T'' \<Longrightarrow> good L T'' (follow m ys xs)"
  by (simp add: follow_def good_take good_mono)

end
