(* ===== verification/AbstractRaft.thy ===== *)
theory AbstractRaft
  imports LogMatching
begin

section \<open>An abstract model of replicated logs\<close>

text \<open>
  What a group of Raft peers does to its logs, without messages, persistence or snapshots: whole
  logs, the leaders' logs, votes, acknowledgements and known commit points as sets. The theorems
  about committed prefixes are proved here once; \<open>LogRefinement\<close> shows that every step of the
  group of the code is one of these steps or none.

  An index may still be chosen in a term (\<open>choosable\<close>) while a majority has acknowledged it or can
  still do so; this only ever becomes false, which makes the invariants below inductive although
  acknowledgements, votes and commits arrive in any order.
\<close>

record 'c araft =
  a_term :: "nat \<Rightarrow> int"
  a_cand :: "nat \<Rightarrow> bool"
  a_lead :: "nat \<Rightarrow> bool"
  a_log :: "nat \<Rightarrow> 'c log"
  a_commit :: "nat \<Rightarrow> nat"
  a_leader :: "int \<Rightarrow> 'c log"              \<comment> \<open>the log of the leader of a term\<close>
  a_elected :: "(int \<times> nat) set"           \<comment> \<open>(term, leader)\<close>
  a_votes :: "(nat \<times> int \<times> nat) set"      \<comment> \<open>(voter, term, candidate)\<close>
  a_acks :: "(nat \<times> int \<times> nat) set"       \<comment> \<open>(peer, term, index): the peer held the leader's log so far\<close>
  a_known :: "(int \<times> nat) set"             \<comment> \<open>(term, index): the leader published it as committed\<close>

text \<open>Peer \<open>i\<close> moves to term \<open>t\<close> and keeps a role only within its term.\<close>

definition demote :: "nat \<Rightarrow> int \<Rightarrow> bool \<Rightarrow> bool \<Rightarrow> 'c araft \<Rightarrow> 'c araft" where
  "demote i t c l a = a\<lparr>a_term := (a_term a)(i := t), a_cand := (a_cand a)(i := c), a_lead := (a_lead a)(i := l)\<rparr>"

definition may_demote :: "nat \<Rightarrow> int \<Rightarrow> bool \<Rightarrow> bool \<Rightarrow> 'c araft \<Rightarrow> bool" where
  "may_demote i t c l a \<longleftrightarrow> a_term a i \<le> t \<and>
     (c \<longrightarrow> a_cand a i \<and> t = a_term a i) \<and> (l \<longrightarrow> a_lead a i \<and> t = a_term a i)"

definition acked :: "'c araft \<Rightarrow> nat \<Rightarrow> int \<Rightarrow> nat \<Rightarrow> bool" where
  "acked a j t m \<longleftrightarrow> (j, t, m) \<in> a_acks a \<or> (t, j) \<in> a_elected a \<and> m \<le> length (a_leader a t)"

inductive astep :: "nat \<Rightarrow> 'c araft \<Rightarrow> 'c araft \<Rightarrow> bool" for n :: nat where
  quiet: "\<lbrakk>i < n; may_demote i t c l a; k \<le> a_commit a i\<rbrakk> \<Longrightarrow>
    astep n a ((demote i t c l a)\<lparr>a_commit := (a_commit a)(i := k)\<rparr>)"
| stand: "i < n \<Longrightarrow>
    astep n a ((demote i (a_term a i + 1) True False a)\<lparr>a_votes := insert (i, a_term a i + 1, i) (a_votes a)\<rparr>)"
| grant: "\<lbrakk>j < n; k < n; j \<noteq> k; may_demote j t c l a; t \<le> a_term a k;
     a_cand a k \<and> a_term a k = t \<Longrightarrow> lpos (a_log a j) \<le> lpos (a_log a k)\<rbrakk> \<Longrightarrow>
    astep n a ((demote j t c l a)\<lparr>a_votes := insert (j, t, k) (a_votes a)\<rparr>)"
| win: "\<lbrakk>i < n; a_cand a i; majority n Q; \<forall>j\<in>Q. (j, a_term a i, i) \<in> a_votes a;
     \<forall>k. (a_term a i, k) \<notin> a_elected a\<rbrakk> \<Longrightarrow>
    astep n a ((demote i (a_term a i) False True a)
      \<lparr>a_elected := insert (a_term a i, i) (a_elected a),
       a_leader := (a_leader a)(a_term a i := a_log a i)\<rparr>)"
| propose: "\<lbrakk>i < n; a_lead a i; le_Term e = a_term a i;
     le_Index e = int (length (a_log a i)) + 1; le_Command e \<noteq> None\<rbrakk> \<Longrightarrow>
    astep n a (a\<lparr>a_log := (a_log a)(i := a_log a i @ [e]),
       a_leader := (a_leader a)(a_term a i := a_leader a (a_term a i) @ [e])\<rparr>)"
| follow: "\<lbrakk>j < n; (t, k) \<in> a_elected a; (t, j) \<notin> a_elected a; may_demote j t False False a;
     m \<le> length (a_leader a t); c = a_commit a j \<or> c \<le> m \<and> (t, c) \<in> a_known a\<rbrakk> \<Longrightarrow>
    astep n a ((demote j t False False a)
      \<lparr>a_log := (a_log a)(j := follow m (a_leader a t) (a_log a j)),
       a_commit := (a_commit a)(j := c), a_acks := a_acks a \<union> {(j, t, k) | k. k \<le> m}\<rparr>)"
| catch: "\<lbrakk>j < n; (t, k) \<in> a_elected a; (t, j) \<notin> a_elected a; may_demote j t False False a;
     m \<le> a_commit a j; (t, m) \<in> a_known a\<rbrakk> \<Longrightarrow>
    astep n a ((demote j t False False a)\<lparr>a_acks := a_acks a \<union> {(j, t, k) | k. k \<le> m}\<rparr>)"
| commit: "\<lbrakk>i < n; a_lead a i; a_commit a i < c; c \<le> length (a_log a i); lterm (a_log a i) c = a_term a i;
     majority n Q; \<forall>j\<in>Q. acked a j (a_term a i) c\<rbrakk> \<Longrightarrow>
    astep n a (a\<lparr>a_commit := (a_commit a)(i := c)\<rparr>)"
| publish: "\<lbrakk>i < n; a_lead a i; m \<le> a_commit a i\<rbrakk> \<Longrightarrow>
    astep n a (a\<lparr>a_known := insert (a_term a i, m) (a_known a)\<rparr>)"

lemma demote_simps [simp]:
  "a_term (demote i t c l a) = (a_term a)(i := t)" "a_cand (demote i t c l a) = (a_cand a)(i := c)"
  "a_lead (demote i t c l a) = (a_lead a)(i := l)" "a_log (demote i t c l a) = a_log a"
  "a_commit (demote i t c l a) = a_commit a" "a_leader (demote i t c l a) = a_leader a"
  "a_elected (demote i t c l a) = a_elected a" "a_votes (demote i t c l a) = a_votes a"
  "a_acks (demote i t c l a) = a_acks a" "a_known (demote i t c l a) = a_known a"
  by (simp_all add: demote_def)

subsection \<open>Chosen indexes\<close>

text \<open>The entry at \<open>m\<close> of the leader of \<open>t\<close> was created in \<open>t\<close>.\<close>

definition created :: "'c araft \<Rightarrow> int \<Rightarrow> nat \<Rightarrow> bool" where
  "created a t m \<longleftrightarrow> 0 < m \<and> m \<le> length (a_leader a t) \<and> lterm (a_leader a t) m = t"

definition choosable :: "nat \<Rightarrow> 'c araft \<Rightarrow> int \<Rightarrow> nat \<Rightarrow> bool" where
  "choosable n a t m \<longleftrightarrow> (\<exists>Q. majority n Q \<and> (\<forall>j\<in>Q. acked a j t m \<or> a_term a j \<le> t))"

definition chosen :: "nat \<Rightarrow> 'c araft \<Rightarrow> int \<Rightarrow> nat \<Rightarrow> bool" where
  "chosen n a t m \<longleftrightarrow> created a t m \<and> (\<exists>Q. majority n Q \<and> (\<forall>j\<in>Q. acked a j t m))"

text \<open>A prefix that some term up to \<open>T\<close> has chosen.\<close>

definition committed :: "nat \<Rightarrow> 'c araft \<Rightarrow> int \<Rightarrow> 'c log \<Rightarrow> bool" where
  "committed n a T xs \<longleftrightarrow> xs = [] \<or>
     (\<exists>t m. t \<le> T \<and> chosen n a t m \<and> length xs \<le> m \<and> agree (length xs) xs (a_leader a t))"

lemma chosen_choosable: "chosen n a t m \<Longrightarrow> choosable n a t m"
  unfolding chosen_def choosable_def by blast

lemma committed_mono: "committed n a T xs \<Longrightarrow> T \<le> T' \<Longrightarrow> committed n a T' xs"
  unfolding committed_def by (meson order_trans)

lemma committed_take: "committed n a T xs \<Longrightarrow> committed n a T (take k xs)"
proof (cases "k < length xs")
  case True
  assume "committed n a T xs"
  then consider "xs = []" | t m where "t \<le> T" "chosen n a t m" "length xs \<le> m" "agree (length xs) xs (a_leader a t)"
    unfolding committed_def by blast
  then show ?thesis
  proof cases
    case 2
    have "agree k xs (a_leader a t)" using agree_le [OF 2(4)] True by simp
    then have "agree k (take k xs) (a_leader a t)"
      using agree_trans [OF agree_take [of k xs k]] True by simp
    with 2 True show ?thesis unfolding committed_def by (intro disjI2 exI [where x = t] exI [where x = m]) simp
  qed (simp add: committed_def)
qed simp

subsection \<open>The invariant\<close>

definition logs_inv :: "nat \<Rightarrow> 'c araft \<Rightarrow> bool" where
  "logs_inv n a \<longleftrightarrow> (\<forall>t. good (a_leader a) t (a_leader a t)) \<and>
     (\<forall>i<n. good (a_leader a) (a_term a i) (a_log a i))"

definition roles_inv :: "nat \<Rightarrow> 'c araft \<Rightarrow> bool" where
  "roles_inv n a \<longleftrightarrow>
     (\<forall>i. 0 \<le> a_term a i) \<and>
     (\<forall>t i. (t, i) \<in> a_elected a \<longrightarrow> i < n \<and> 0 < t \<and> t \<le> a_term a i \<and> \<not> (t = a_term a i \<and> a_cand a i)) \<and>
     (\<forall>t i j. (t, i) \<in> a_elected a \<and> (t, j) \<in> a_elected a \<longrightarrow> i = j) \<and>
     (\<forall>t i. (t, i) \<in> a_elected a \<longrightarrow> (\<exists>Q. majority n Q \<and> (\<forall>j\<in>Q. t \<le> a_term a j))) \<and>
     (\<forall>t. a_leader a t \<noteq> [] \<longrightarrow> (\<exists>i. (t, i) \<in> a_elected a)) \<and>
     (\<forall>i<n. a_lead a i \<longrightarrow> (a_term a i, i) \<in> a_elected a \<and> a_log a i = a_leader a (a_term a i)) \<and>
     (\<forall>i<n. a_cand a i \<longrightarrow> 0 < a_term a i)"

definition acks_inv :: "nat \<Rightarrow> 'c araft \<Rightarrow> bool" where
  "acks_inv n a \<longleftrightarrow>
     (\<forall>j t m. (j, t, m) \<in> a_acks a \<longrightarrow> j < n \<and> t \<le> a_term a j \<and> m \<le> length (a_leader a t)) \<and>
     (\<forall>j t c. (j, t, c) \<in> a_votes a \<longrightarrow> j < n \<and> t \<le> a_term a j \<and> t \<le> a_term a c)"

text \<open>Leader completeness, for indexes that may still be chosen.\<close>

definition complete_inv :: "nat \<Rightarrow> 'c araft \<Rightarrow> bool" where
  "complete_inv n a \<longleftrightarrow> (\<forall>t u k m. t < u \<and> (u, k) \<in> a_elected a \<and> created a t m \<and> choosable n a t m \<longrightarrow>
     agree m (a_leader a u) (a_leader a t))"

text \<open>Who acknowledged an index that may still be chosen holds it.\<close>

definition retain_inv :: "nat \<Rightarrow> 'c araft \<Rightarrow> bool" where
  "retain_inv n a \<longleftrightarrow> (\<forall>j<n. \<forall>t m. acked a j t m \<and> created a t m \<and> choosable n a t m \<longrightarrow>
     agree m (a_log a j) (a_leader a t))"

text \<open>A candidate's log is as up to date as anything its voters acknowledged that may be chosen.\<close>

definition promise_inv :: "nat \<Rightarrow> 'c araft \<Rightarrow> bool" where
  "promise_inv n a \<longleftrightarrow> (\<forall>j c t m. c < n \<and> a_cand a c \<and> (j, a_term a c, c) \<in> a_votes a \<and> t < a_term a c \<and>
     acked a j t m \<and> created a t m \<and> choosable n a t m \<longrightarrow> Pos t (int m) \<le> lpos (a_log a c))"

definition commit_inv :: "nat \<Rightarrow> 'c araft \<Rightarrow> bool" where
  "commit_inv n a \<longleftrightarrow>
     (\<forall>i<n. a_commit a i \<le> length (a_log a i) \<and> committed n a (a_term a i) (take (a_commit a i) (a_log a i))) \<and>
     (\<forall>t c. (t, c) \<in> a_known a \<longrightarrow> (\<exists>k. (t, k) \<in> a_elected a) \<and> c \<le> length (a_leader a t) \<and>
        committed n a t (take c (a_leader a t)))"

definition safe :: "nat \<Rightarrow> 'c araft \<Rightarrow> bool" where
  "safe n a \<longleftrightarrow> logs_inv n a \<and> roles_inv n a \<and> acks_inv n a \<and> complete_inv n a \<and> retain_inv n a \<and>
     promise_inv n a \<and> commit_inv n a"

end
