(* ===== verification/AbstractSafety.thy ===== *)
theory AbstractSafety
  imports AbstractRaft
begin

section \<open>The invariant of the abstract model and what it gives\<close>

subsection \<open>Reading the invariant\<close>

lemma safeD:
  assumes "safe n a"
  shows "good (a_leader a) t (a_leader a t)" "i < n \<Longrightarrow> good (a_leader a) (a_term a i) (a_log a i)"
    "0 \<le> a_term a i"
    "(t, i) \<in> a_elected a \<Longrightarrow> i < n" "(t, i) \<in> a_elected a \<Longrightarrow> 0 < t" "(t, i) \<in> a_elected a \<Longrightarrow> t \<le> a_term a i"
    "(a_term a i, i) \<in> a_elected a \<Longrightarrow> \<not> a_cand a i"
    "(t, i) \<in> a_elected a \<Longrightarrow> (t, j) \<in> a_elected a \<Longrightarrow> i = j"
    "(t, i) \<in> a_elected a \<Longrightarrow> \<exists>Q. majority n Q \<and> (\<forall>j\<in>Q. t \<le> a_term a j)"
    "a_leader a t \<noteq> [] \<Longrightarrow> \<exists>i. (t, i) \<in> a_elected a"
    "i < n \<Longrightarrow> a_lead a i \<Longrightarrow> (a_term a i, i) \<in> a_elected a"
    "i < n \<Longrightarrow> a_lead a i \<Longrightarrow> a_log a i = a_leader a (a_term a i)"
    "i < n \<Longrightarrow> a_cand a i \<Longrightarrow> 0 < a_term a i"
  using assms unfolding safe_def logs_inv_def roles_inv_def by blast+

lemma safe_acksD:
  assumes "safe n a"
  shows "(j, t, m) \<in> a_acks a \<Longrightarrow> j < n" "(j, t, m) \<in> a_acks a \<Longrightarrow> t \<le> a_term a j"
    "(j, t, m) \<in> a_acks a \<Longrightarrow> m \<le> length (a_leader a t)"
    "(j, t, c) \<in> a_votes a \<Longrightarrow> j < n" "(j, t, c) \<in> a_votes a \<Longrightarrow> t \<le> a_term a j"
    "(j, t, c) \<in> a_votes a \<Longrightarrow> t \<le> a_term a c"
  using assms unfolding safe_def acks_inv_def by blast+

lemma completeD:
  assumes "safe n a" and "t < u" and "(u, k) \<in> a_elected a" and "created a t m" and "choosable n a t m"
  shows "agree m (a_leader a u) (a_leader a t)"
  using assms unfolding safe_def complete_inv_def by blast

lemma retainD:
  assumes "safe n a" and "j < n" and "acked a j t m" and "created a t m" and "choosable n a t m"
  shows "agree m (a_log a j) (a_leader a t)"
  using assms unfolding safe_def retain_inv_def by blast

lemma promiseD:
  assumes "safe n a" and "c < n" and "a_cand a c" and "(j, a_term a c, c) \<in> a_votes a" and "t < a_term a c"
    and "acked a j t m" and "created a t m" and "choosable n a t m"
  shows "Pos t (int m) \<le> lpos (a_log a c)"
  using assms unfolding safe_def promise_inv_def by blast

lemma commitD:
  assumes "safe n a"
  shows "i < n \<Longrightarrow> a_commit a i \<le> length (a_log a i)"
    "i < n \<Longrightarrow> committed n a (a_term a i) (take (a_commit a i) (a_log a i))"
    "(t, c) \<in> a_known a \<Longrightarrow> \<exists>k. (t, k) \<in> a_elected a" "(t, c) \<in> a_known a \<Longrightarrow> c \<le> length (a_leader a t)"
    "(t, c) \<in> a_known a \<Longrightarrow> committed n a t (take c (a_leader a t))"
  using assms unfolding safe_def commit_inv_def by blast+

text \<open>A term without a leader has no log, and nothing was created in it.\<close>

lemma not_elected:
  assumes "safe n a" and "\<forall>k. (t, k) \<notin> a_elected a"
  shows "a_leader a t = []" and "\<not> created a t m"
proof -
  show "a_leader a t = []" using safeD(10) [OF assms(1), of t] assms(2) by blast
  then show "\<not> created a t m" by (auto simp: created_def)
qed

lemma created_elected: "safe n a \<Longrightarrow> created a t m \<Longrightarrow> \<exists>k. (t, k) \<in> a_elected a"
  using not_elected(2) by blast

lemma acked_mem: "safe n a \<Longrightarrow> acked a j t m \<Longrightarrow> j < n \<and> t \<le> a_term a j \<and> m \<le> length (a_leader a t)"
  using safe_acksD(1-3) [of n a j t m] safeD(4,6) [of n a t j] unfolding acked_def by blast

subsection \<open>Everything grows, and the choosable indexes shrink\<close>

lemma astep_grows:
  assumes "astep n a a'" and "safe n a"
  shows "prefix (a_leader a t) (a_leader a' t)" and "a_elected a \<subseteq> a_elected a'" and "a_acks a \<subseteq> a_acks a'"
    and "a_votes a \<subseteq> a_votes a'" and "a_term a i \<le> a_term a' i" and "a_known a \<subseteq> a_known a'"
proof -
  have "prefix (a_leader a t) (a_leader a' t) \<and> a_elected a \<subseteq> a_elected a' \<and> a_acks a \<subseteq> a_acks a' \<and>
    a_votes a \<subseteq> a_votes a' \<and> a_term a i \<le> a_term a' i \<and> a_known a \<subseteq> a_known a'"
    using assms(1)
  proof cases
    case (win i Q)
    with not_elected(1) [OF assms(2)] show ?thesis by auto
  qed (auto simp: may_demote_def)
  then show "prefix (a_leader a t) (a_leader a' t)" and "a_elected a \<subseteq> a_elected a'" and "a_acks a \<subseteq> a_acks a'"
    and "a_votes a \<subseteq> a_votes a'" and "a_term a i \<le> a_term a' i" and "a_known a \<subseteq> a_known a'"
    by blast+
qed

lemma acked_grows: "astep n a a' \<Longrightarrow> safe n a \<Longrightarrow> acked a j t m \<Longrightarrow> acked a' j t m"
  using astep_grows(1-3) [of n a a'] prefix_length_le order_trans unfolding acked_def by (meson subsetD)

lemma created_grows: "astep n a a' \<Longrightarrow> safe n a \<Longrightarrow> created a t m \<Longrightarrow> created a' t m"
  using astep_grows(1) [of n a a' t] lterm_append unfolding created_def prefix_def by fastforce

lemma committed_grows:
  assumes "astep n a a'" and "safe n a" and "committed n a T xs"
  shows "committed n a' T xs"
proof -
  from assms(3) consider "xs = []" | t m where "t \<le> T" "chosen n a t m" "length xs \<le> m"
    "agree (length xs) xs (a_leader a t)"
    unfolding committed_def by blast
  then show ?thesis
  proof cases
    case 2
    have "chosen n a' t m"
      using 2(2) created_grows [OF assms(1,2)] acked_grows [OF assms(1,2)] unfolding chosen_def by blast
    moreover have "agree (length xs) xs (a_leader a' t)"
      using agree_prefix [OF 2(4) astep_grows(1) [OF assms(1,2)]] .
    ultimately show ?thesis using 2(1,3) unfolding committed_def by blast
  qed (simp add: committed_def)
qed

lemma acked_back:
  assumes "astep n a a'" and "safe n a" and "acked a' j t m"
  shows "acked a j t m \<or> a_term a j \<le> t"
  using assms(1)
proof cases
  case (propose i e)
  with assms(3) safeD(8) [OF assms(2) _ safeD(11) [OF assms(2) propose(2,3)]] show ?thesis
    by (auto simp: acked_def split: if_splits)
qed (use assms(3) in \<open>auto simp: acked_def may_demote_def split: if_splits\<close>)

lemma choosable_back:
  assumes "astep n a a'" and "safe n a" and "choosable n a' t m"
  shows "choosable n a t m"
proof -
  from assms(3) obtain Q where Q: "majority n Q" "\<forall>j\<in>Q. acked a' j t m \<or> a_term a' j \<le> t"
    unfolding choosable_def by blast
  have "acked a j t m \<or> a_term a j \<le> t" if "j \<in> Q" for j
    using Q(2) that acked_back [OF assms(1,2)] astep_grows(5) [OF assms(1,2), of j] by fastforce
  with Q(1) show ?thesis unfolding choosable_def by blast
qed

text \<open>A majority beyond term \<open>t\<close> blocks every index that none of them acknowledged.\<close>

lemma choosable_meets:
  assumes "choosable n a t m" and "majority n R" and "\<forall>j\<in>R. t < a_term a j"
  shows "\<exists>j\<in>R. acked a j t m"
proof -
  from assms(1) obtain Q where "majority n Q" "\<forall>j\<in>Q. acked a j t m \<or> a_term a j \<le> t"
    unfolding choosable_def by blast
  with maj.meet [of n Q R] assms(2,3) show ?thesis by fastforce
qed

subsection \<open>Committed prefixes\<close>

lemma committed_in_leader:
  assumes "safe n a" and "committed n a T xs" and "T \<le> u" and "(u, k) \<in> a_elected a"
  shows "agree (length xs) xs (a_leader a u)"
proof -
  from assms(2) consider "xs = []" | t m where "t \<le> T" "chosen n a t m" "length xs \<le> m"
    "agree (length xs) xs (a_leader a t)"
    unfolding committed_def by blast
  then show ?thesis
  proof cases
    case 2
    show ?thesis
    proof (cases "t = u")
      case False
      with 2(1) assms(3) have "t < u" by simp
      then have "agree m (a_leader a u) (a_leader a t)"
        using completeD [OF assms(1) _ assms(4)] 2(2) chosen_choosable chosen_def by blast
      then show ?thesis using 2(3,4) agree_le agree_sym agree_trans by metis
    qed (use 2(4) in simp)
  qed simp
qed

text \<open>Any two committed prefixes agree, whichever terms committed them.\<close>

lemma committed_agree:
  assumes "safe n a" and "committed n a T xs" and "committed n a U ys" and "length xs \<le> length ys"
  shows "agree (length xs) xs ys"
proof -
  from assms(2) consider "xs = []" | t m where "chosen n a t m" "length xs \<le> m"
    "agree (length xs) xs (a_leader a t)"
    unfolding committed_def by blast
  then show ?thesis
  proof cases
    case 2
    then obtain k where k: "(t, k) \<in> a_elected a"
      using created_elected [OF assms(1)] chosen_def by blast
    have xs: "committed n a t xs" using 2 unfolding committed_def by blast
    from assms(3) consider "ys = []" | u where "committed n a u ys" "agree (length ys) ys (a_leader a u)"
      "\<exists>k. (u, k) \<in> a_elected a"
      unfolding committed_def using created_elected [OF assms(1)] chosen_def by blast
    then show ?thesis
    proof cases
      case 1
      with assms(4) show ?thesis by simp
    next
      case u: 2
      obtain l where l: "(u, l) \<in> a_elected a" using u(3) by blast
      show ?thesis
      proof (cases "t \<le> u")
        case True
        from committed_in_leader [OF assms(1) xs True l] agree_le [OF u(2) assms(4)]
        show ?thesis by (rule agree_trans [OF _ agree_sym])
      next
        case False
        then have "agree (length ys) ys (a_leader a t)"
          by (intro committed_in_leader [OF assms(1) u(1) _ k]) simp
        from agree_le [OF this assms(4)] 2(3) show ?thesis using agree_sym agree_trans by blast
      qed
    qed
  qed simp
qed

lemma commit_agree_leader:
  assumes "safe n a" and "i < n" and "a_term a i \<le> u" and "(u, k) \<in> a_elected a"
  shows "agree (a_commit a i) (a_log a i) (a_leader a u)"
proof -
  have "agree (a_commit a i) (take (a_commit a i) (a_log a i)) (a_leader a u)"
    using committed_in_leader [OF assms(1) commitD(2) [OF assms(1,2)] assms(3,4)] commitD(1) [OF assms(1,2)]
    by (simp add: min.absorb2)
  moreover have "agree (a_commit a i) (take (a_commit a i) (a_log a i)) (a_log a i)"
    using agree_take [OF commitD(1) [OF assms(1,2)]] by simp
  ultimately show ?thesis using agree_sym agree_trans by blast
qed

subsection \<open>Each part of the invariant is kept\<close>

lemma logs_step:
  assumes "astep n a a'" and s: "safe n a"
  shows "logs_inv n a'"
proof -
  note gr = astep_grows(1) [OF assms]
  have L: "good (a_leader a') t (a_leader a t)" for t
    by (rule good_grow [OF safeD(1) [OF s] gr])
  have G: "good (a_leader a') (a_term a' i) (a_log a i)" if "i < n" for i
    by (rule good_mono [OF good_grow [OF safeD(2) [OF s that] gr] astep_grows(5) [OF assms]])
  have "(\<forall>t. good (a_leader a') t (a_leader a' t)) \<and> (\<forall>i<n. good (a_leader a') (a_term a' i) (a_log a' i))"
    using assms(1)
  proof cases
    case (win i Q)
    have "good (a_leader a') (a_term a i) (a_log a i)"
      using good_grow [OF safeD(2) [OF s win(2)] gr] .
    with win L G show ?thesis by auto
  next
    case (propose i e)
    note el = safeD(11) [OF s propose(2,3)] and lg = safeD(12) [OF s propose(2,3)]
    have "good (a_leader a') (a_term a i) (a_leader a (a_term a i) @ [e])"
      using good_snoc [OF safeD(1) [OF s] propose(4) order_refl safeD(5) [OF s el]] propose(1) by simp
    with propose L G lg show ?thesis by auto
  next
    case (follow j t k m c)
    have "good (a_leader a) t (follow m (a_leader a t) (a_log a j))"
      using follow(5) by (intro follow_good [OF safeD(2) [OF s follow(2)] safeD(1) [OF s]]) (auto simp: may_demote_def)
    with follow L safeD(2) [OF s] show ?thesis by auto
  qed (use L G in \<open>auto simp: may_demote_def\<close>)
  then show ?thesis by (simp add: logs_inv_def)
qed

lemma acks_step:
  assumes "astep n a a'" and s: "safe n a"
  shows "acks_inv n a'"
proof -
  note gr = astep_grows(1) [OF assms, THEN prefix_length_le] and tm = astep_grows(5) [OF assms]
  note A = safe_acksD [OF s]
  have old: "j < n" "t \<le> a_term a' j" "m \<le> length (a_leader a' t)" if "(j, t, m) \<in> a_acks a" for j t m
    using A(1-3) [OF that] tm [of j] gr [of t] by auto
  have vold: "j < n" "t \<le> a_term a' j" "t \<le> a_term a' c" if "(j, t, c) \<in> a_votes a" for j t c
    using A(4-6) [OF that] tm [of j] tm [of c] by auto
  have "(j, t, m) \<in> a_acks a' \<Longrightarrow> j < n \<and> t \<le> a_term a' j \<and> m \<le> length (a_leader a' t)" for j t m
    using assms(1)
  proof cases
    case (catch j t k m)
    show "(j', t', m') \<in> a_acks a' \<Longrightarrow> j' < n \<and> t' \<le> a_term a' j' \<and> m' \<le> length (a_leader a' t')" for j' t' m'
      using catch old [of j' t' m'] commitD(4) [OF s catch(7)] by auto
  qed (use old [of j t m] in auto)
  moreover have "(j, t, c) \<in> a_votes a' \<Longrightarrow> j < n \<and> t \<le> a_term a' j \<and> t \<le> a_term a' c" for j t c
    using assms(1) by cases (use vold [of j t c] in \<open>auto simp: may_demote_def\<close>)
  ultimately show ?thesis unfolding acks_inv_def by blast
qed

lemma elected_step:
  assumes "astep n a a'" and s: "safe n a"
  obtains (same) "a_elected a' = a_elected a"
  | (new) i Q where "i < n" "a_cand a i" "a_elected a' = insert (a_term a i, i) (a_elected a)"
      "a_term a' i = a_term a i" "\<not> a_cand a' i" "\<forall>k. (a_term a i, k) \<notin> a_elected a"
      "majority n Q" "\<forall>j\<in>Q. a_term a i \<le> a_term a j" "\<forall>j\<in>Q. (j, a_term a i, i) \<in> a_votes a"
      "a_leader a' = (a_leader a)(a_term a i := a_log a i)" "a_lead a' = (a_lead a)(i := True)"
      "a_log a' = a_log a" "a_term a' = a_term a" "a_acks a' = a_acks a"
  using assms(1)
proof cases
  case (win i Q)
  show ?thesis
  proof (rule new [of i Q])
    show "\<forall>j\<in>Q. a_term a i \<le> a_term a j" using win(5) safe_acksD(5) [OF s] by blast
  qed (use win in simp_all)
qed (auto intro: same)

text \<open>Whoever was elected for its current term never stands in it again.\<close>

lemma elected_no_cand:
  assumes "astep n a a'" and s: "safe n a" and "(a_term a' i, i) \<in> a_elected a"
  shows "\<not> a_cand a' i"
proof -
  have le: "a_term a' i \<le> a_term a i" and no: "a_term a' i = a_term a i \<Longrightarrow> \<not> a_cand a i"
    using safeD(6,7) [OF s] assms(3) by auto
  have eq: "a_term a' i = a_term a i" using le astep_grows(5) [OF assms(1,2), of i] by simp
  have "\<not> a_cand a i" by (rule no [OF eq])
  with assms(1) eq show ?thesis
    by cases (auto simp: may_demote_def split: if_splits)
qed

lemma roles_step:
  assumes "astep n a a'" and s: "safe n a"
  shows "roles_inv n a'"
proof -
  note tm = astep_grows(5) [OF assms]
  note R = safeD(3-13) [OF s]
  have "0 \<le> a_term a' i" for i using R(1) tm order_trans by blast
  moreover have "i < n \<and> 0 < t \<and> t \<le> a_term a' i \<and> \<not> (t = a_term a' i \<and> a_cand a' i)"
    if el: "(t, i) \<in> a_elected a'" for t i
  proof (cases "(t, i) \<in> a_elected a")
    case True
    with R(2-4) [OF True] tm [of i] elected_no_cand [OF assms, of i] show ?thesis by auto
  next
    case False
    from assms show ?thesis
    proof (cases rule: elected_step)
      case (new k Q)
      with False el have "k = i" "t = a_term a i" by auto
      with new R(11) [of i] show ?thesis by auto
    qed (use el False in simp)
  qed
  moreover have "i = j" if el: "(t, i) \<in> a_elected a'" "(t, j) \<in> a_elected a'" for t i j
    using assms
  proof (cases rule: elected_step)
    case same
    with el R(6) show ?thesis by blast
  next
    case (new k Q)
    show ?thesis
    proof (cases "t = a_term a k")
      case True
      with el new(3,6) show ?thesis by simp
    next
      case False
      then have "(t, i) \<in> a_elected a" "(t, j) \<in> a_elected a" using el new(3) by auto
      then show ?thesis by (rule R(6))
    qed
  qed
  moreover have "\<exists>Q. majority n Q \<and> (\<forall>j\<in>Q. t \<le> a_term a' j)" if el: "(t, i) \<in> a_elected a'" for t i
  proof -
    have "\<exists>Q. majority n Q \<and> (\<forall>j\<in>Q. t \<le> a_term a j)"
      using assms
    proof (cases rule: elected_step)
      case same
      with el R(7) show ?thesis by blast
    next
      case (new k Q)
      then show ?thesis using el R(7) by auto
    qed
    then show ?thesis using tm order_trans by meson
  qed
  moreover have "\<exists>i. (t, i) \<in> a_elected a'" if "a_leader a' t \<noteq> []" for t
    using assms(1)
  proof cases
    case (propose i e)
    with that R(8) [of t] R(9) [OF propose(2,3)] show ?thesis by (auto split: if_splits)
  qed (use that R(8) [of t] in \<open>auto split: if_splits\<close>)
  moreover have "(a_term a' i, i) \<in> a_elected a' \<and> a_log a' i = a_leader a' (a_term a' i)"
    if ld: "i < n" "a_lead a' i" for i
    using assms(1)
  proof cases
    case (win k Q)
    show ?thesis
    proof (cases "i = k")
      case False
      with win ld have "a_lead a i" by simp
      with R(9,10) [OF ld(1)] win(1,6) False show ?thesis by auto
    qed (use win in simp)
  next
    case (propose k e)
    show ?thesis
    proof (cases "i = k")
      case False
      with propose ld have l: "a_lead a i" by simp
      have "a_term a i \<noteq> a_term a k"
        using R(6) [OF R(9) [OF ld(1) l]] R(9) [OF propose(2,3)] False by auto
      with R(9,10) [OF ld(1) l] propose(1) False show ?thesis by simp
    qed (use propose R(9,10) [OF propose(2,3)] in simp)
  next
    case (follow j t k m c)
    with ld have "a_lead a i" "i \<noteq> j" by (auto split: if_splits)
    with R(9,10) [OF ld(1)] follow(1) show ?thesis by simp
  next
    case (quiet j t c l k)
    with ld have "a_lead a i" "a_term a' i = a_term a i" by (auto simp: may_demote_def split: if_splits)
    with R(9,10) [OF ld(1)] quiet(1) show ?thesis by simp
  next
    case (grant j k t c l)
    with ld have "a_lead a i" "a_term a' i = a_term a i" by (auto simp: may_demote_def split: if_splits)
    with R(9,10) [OF ld(1)] grant(1) show ?thesis by simp
  next
    case (stand j)
    with ld have "a_lead a i" "i \<noteq> j" by (auto split: if_splits)
    with R(9,10) [OF ld(1)] stand(1) show ?thesis by simp
  next
    case (catch j t k m)
    with ld have "a_lead a i" "i \<noteq> j" by (auto split: if_splits)
    with R(9,10) [OF ld(1)] catch(1) show ?thesis by simp
  qed (use ld R(9,10) [of i] in simp_all)
  moreover have "0 < a_term a' i" if "i < n" "a_cand a' i" for i
    using assms(1)
  proof cases
    case (stand k)
    with that R(11) [of i] R(1) [of k] show ?thesis by (cases "i = k") auto
  qed (use that R(11) [of i] in \<open>auto simp: may_demote_def split: if_splits\<close>)
  ultimately show ?thesis unfolding roles_inv_def by blast
qed

lemma created_step:
  assumes "astep n a a'" and s: "safe n a" and c: "created a' t m"
  obtains (old) "created a t m"
  | (new) i where "i < n" "a_lead a i" "t = a_term a i" "m = Suc (length (a_leader a t))"
      "a_log a' i = a_leader a' t" "a_term a' = a_term a" "a_elected a' = a_elected a" "a_acks a' = a_acks a"
      "a_cand a' = a_cand a" "a_votes a' = a_votes a"
  using assms(1)
proof cases
  case (win i Q)
  have "\<not> created a' (a_term a i) m"
  proof
    assume c: "created a' (a_term a i) m"
    with win(1) have m: "0 < m" "m \<le> length (a_log a i)" "lterm (a_log a i) m = a_term a i"
      by (auto simp: created_def)
    from goodD(1) [OF safeD(2) [OF s win(2)] m(1,2)] m(1,3) not_elected(1) [OF s win(6)]
    show False by (auto simp: agree_def)
  qed
  with c have "t \<noteq> a_term a i" by blast
  with c win(1) have "created a t m" by (simp add: created_def)
  then show ?thesis by (rule old)
next
  case (propose i e)
  note lg = safeD(12) [OF s propose(2,3)]
  show ?thesis
  proof (cases "t = a_term a i \<and> m = Suc (length (a_leader a t))")
    case True
    show ?thesis by (rule new [of i]) (use True propose lg in simp_all)
  next
    case False
    with c propose(1) have "created a t m"
      by (cases "t = a_term a i") (auto simp: created_def lterm_append)
    then show ?thesis by (rule old)
  qed
qed (use c in \<open>auto intro!: old simp: created_def\<close>)

lemma created_pos: "safe n a \<Longrightarrow> created a t m \<Longrightarrow> 0 < t"
  using created_elected safeD(5) by blast

text \<open>A log as up to date as an index that may be chosen holds it.\<close>

lemma up_to_date_holds:
  assumes s: "safe n a" and i: "i < n" and c: "created a t m" "choosable n a t m"
    and le: "Pos t (int m) \<le> lpos (a_log a i)"
  shows "agree m (a_log a i) (a_leader a t)"
proof -
  let ?xs = "a_log a i" and ?L = "a_leader a"
  define v where "v = lterm ?xs (length ?xs)"
  note g = safeD(2) [OF s i]
  have t: "0 < t" by (rule created_pos [OF s c(1)])
  have cases: "t < v \<or> t = v \<and> m \<le> length ?xs" using le by (auto simp: lpos_def v_def less_eq_log_position_def)
  have len: "0 < length ?xs" using cases t by (cases ?xs) (auto simp: v_def)
  have own: "agree (length ?xs) ?xs (?L v)" using goodD(1) [OF g len] by (simp add: v_def)
  show ?thesis
  proof (cases "t = v")
    case True
    with cases have "m \<le> length ?xs" by simp
    from agree_le [OF own this] True show ?thesis by simp
  next
    case False
    with cases have lt: "t < v" by simp
    have "?L v \<noteq> []" using own len by (auto simp: agree_def)
    then obtain k where k: "(v, k) \<in> a_elected a" using safeD(10) [OF s] by blast
    from completeD [OF s lt k c] have vt: "agree m (?L v) (?L t)" .
    have "m \<le> length ?xs"
    proof (rule ccontr)
      assume "\<not> m \<le> length ?xs"
      then have "lterm (?L v) (length ?xs) \<le> lterm (?L v) m"
        by (intro good_lterm_le [OF safeD(1) [OF s]]) (use agree_length(1) [OF vt] in auto)
      also have "\<dots> = t" using agree_lterm [OF vt] c(1) by (simp add: created_def)
      finally have "lterm (?L v) (length ?xs) \<le> t" .
      moreover have "v = lterm (?L v) (length ?xs)" using agree_lterm [OF own order_refl] by (simp add: v_def)
      ultimately show False using lt by linarith
    qed
    from agree_le [OF own this] vt show ?thesis by (rule agree_trans)
  qed
qed

lemma holds_up_to_date:
  assumes s: "safe n a" and i: "i < n" and c: "created a t m" and h: "agree m (a_log a i) (a_leader a t)"
  shows "Pos t (int m) \<le> lpos (a_log a i)"
proof -
  have m: "m \<le> length (a_log a i)" by (rule agree_length(1) [OF h])
  have "t = lterm (a_log a i) m" using agree_lterm [OF h] c by (simp add: created_def)
  with good_lterm_le [OF safeD(2) [OF s i] m order_refl] m show ?thesis
    by (auto simp: lpos_def less_eq_log_position_def)
qed

lemma complete_step:
  assumes "astep n a a'" and s: "safe n a"
  shows "complete_inv n a'"
proof -
  note gr = astep_grows(1) [OF assms]
  have "agree m (a_leader a' u) (a_leader a' t)"
    if lt: "t < u" and el: "(u, k) \<in> a_elected a'" and cr: "created a' t m" and ch: "choosable n a' t m" for t u k m
  proof -
    note chs = choosable_back [OF assms ch]
    from assms cr show ?thesis
    proof (cases rule: created_step)
      case (new i)
      have "(u, k) \<in> a_elected a" using el new(7) by simp
      from safeD(9) [OF s this] obtain R where R: "majority n R" "\<forall>j\<in>R. u \<le> a_term a j" by blast
      with lt obtain j where "acked a j t m" using choosable_meets [OF chs R(1)] by fastforce
      with acked_mem [OF s] new(4) show ?thesis by fastforce
    next
      case old
      have "agree m (a_leader a' u) (a_leader a t)"
        using assms
      proof (cases rule: elected_step)
        case same
        with completeD [OF s lt _ old chs] el gr agree_prefix_left show ?thesis by blast
      next
        case (new i Q)
        show ?thesis
        proof (cases "u = a_term a i")
          case True
          with choosable_meets [OF chs new(7)] new(8) lt obtain j where j: "j \<in> Q" "acked a j t m" by fastforce
          have "Pos t (int m) \<le> lpos (a_log a i)"
            by (rule promiseD [OF s new(1,2) _ _ j(2) old chs]) (use new(9) j(1) lt True in auto)
          from up_to_date_holds [OF s new(1) old chs this] show ?thesis by (simp add: new(10) True)
        next
          case False
          with el new(3) have "(u, k) \<in> a_elected a" by simp
          with completeD [OF s lt _ old chs] gr agree_prefix_left show ?thesis by blast
        qed
      qed
      then show ?thesis using gr agree_prefix by blast
    qed
  qed
  then show ?thesis unfolding complete_inv_def by blast
qed

text \<open>Acknowledgements that a step adds are of the leader's log.\<close>

lemma retain_step:
  assumes "astep n a a'" and s: "safe n a"
  shows "retain_inv n a'"
proof -
  note gr = astep_grows(1) [OF assms]
  have "agree m (a_log a' j) (a_leader a' t)"
    if j: "j < n" and ac: "acked a' j t m" and cr: "created a' t m" and ch: "choosable n a' t m" for j t m
    using assms cr
  proof (cases rule: created_step)
    case (new i)
    have "(j, t, m) \<notin> a_acks a" using safe_acksD(3) [OF s, of j t m] new(4) by auto
    with ac new(7,8) have "(t, j) \<in> a_elected a" by (simp add: acked_def)
    moreover have "(t, i) \<in> a_elected a" using safeD(11) [OF s new(1,2)] new(3) by simp
    ultimately have "j = i" by (rule safeD(8) [OF s])
    with new(5) cr show ?thesis by (simp add: agree_refl created_def)
  next
    case old
    note chs = choosable_back [OF assms ch]
    have R: "agree m (a_log a j) (a_leader a t)" if "acked a j t m" by (rule retainD [OF s j that old chs])
    have "agree m (a_log a' j) (a_leader a t)"
      using assms(1)
    proof cases
      case (win i Q)
      have "t \<noteq> a_term a i" using not_elected(2) [OF s win(6)] old by blast
      with ac win(1) have "acked a j t m" by (auto simp: acked_def)
      from R [OF this] win(1) show ?thesis by simp
    next
      case (propose i e)
      have "m \<le> length (a_leader a t)" using old by (simp add: created_def)
      with ac propose(1) have "acked a j t m" by (auto simp: acked_def)
      from agree_prefix_left [OF R [OF this], of "a_log a' j"] propose(1) show ?thesis by simp
    next
      case (follow j' u k M c)
      show ?thesis
      proof (cases "j = j'")
        case False
        with ac follow(1) have "acked a j t m" by (auto simp: acked_def)
        from R [OF this] follow(1) False show ?thesis by simp
      next
        case True
        have "acked a j t m \<or> t = u \<and> m \<le> M" using ac follow(1) by (auto simp: acked_def)
        then have "agree m (follow M (a_leader a u) (a_log a j)) (a_leader a t)"
        proof
          assume "t = u \<and> m \<le> M"
          with agree_le [OF follow_agree [OF follow(6)]] show ?thesis by blast
        next
          assume a: "acked a j t m"
          with acked_mem [OF s] follow(5) True have "t \<le> u" by (fastforce simp: may_demote_def)
          then have tu: "agree m (a_leader a u) (a_leader a t)"
            using completeD [OF s _ follow(3) old chs] agree_length(2) [OF R [OF a]]
            by (cases "t = u") (simp_all add: agree_refl)
          from follow_keeps [OF agree_trans [OF R [OF a] agree_sym [OF tu]] follow(6)] tu
          show ?thesis by (rule agree_trans)
        qed
        with follow(1) True show ?thesis by simp
      qed
    next
      case (catch j' u k M)
      have "acked a j t m \<or> j = j' \<and> t = u \<and> m \<le> M" using ac catch(1) by (auto simp: acked_def)
      then have "agree m (a_log a j) (a_leader a t)"
      proof
        assume n: "j = j' \<and> t = u \<and> m \<le> M"
        with catch(5) have le: "a_term a j \<le> u" and m: "m \<le> a_commit a j" using catch(6) by (auto simp: may_demote_def)
        from agree_le [OF commit_agree_leader [OF s j le catch(3)] m] n show ?thesis by simp
      qed (rule R)
      with catch(1) show ?thesis by simp
    qed (use ac R in \<open>simp_all add: acked_def\<close>)
    then show ?thesis using gr agree_prefix by blast
  qed
  then show ?thesis unfolding retain_inv_def by blast
qed

lemma promise_step:
  assumes "astep n a a'" and s: "safe n a"
  shows "promise_inv n a'"
proof -
  have "Pos t (int m) \<le> lpos (a_log a' c)"
    if c: "c < n" "a_cand a' c" and v: "(j, a_term a' c, c) \<in> a_votes a'" and lt: "t < a_term a' c"
      and ac: "acked a' j t m" and cr: "created a' t m" and ch: "choosable n a' t m" for j c t m
    using assms cr
  proof (cases rule: created_step)
    case (new i)
    have "(j, t, m) \<notin> a_acks a" using safe_acksD(3) [OF s, of j t m] new(4) by auto
    with ac new(7,8) have "(t, j) \<in> a_elected a" by (simp add: acked_def)
    moreover have "(t, i) \<in> a_elected a" using safeD(11) [OF s new(1,2)] new(3) by simp
    ultimately have "j = i" by (rule safeD(8) [OF s])
    with safe_acksD(5) [OF s, of j "a_term a c" c] v lt new(3,6,10) show ?thesis by simp
  next
    case old
    note chs = choosable_back [OF assms ch]
    have P: "Pos t (int m) \<le> lpos (a_log a c)"
      if "a_cand a c" "a_term a' c = a_term a c" "(j, a_term a c, c) \<in> a_votes a" "acked a j t m"
      by (rule promiseD [OF s c(1) that(1,3) _ that(4) old chs]) (use lt that(2) in simp)
    show ?thesis
      using assms(1)
    proof cases
      case (stand i)
      have A: "acked a j t m" using ac stand(1) by (simp add: acked_def)
      show ?thesis
      proof (cases "c = i")
        case False
        with P [OF _ _ _ A] c v stand(1) show ?thesis by simp
      next
        case True
        with v stand(1) safe_acksD(6) [OF s, of j "a_term a i + 1" i] have "j = i" by auto
        with A True retainD [OF s c(1) _ old chs] have "agree m (a_log a c) (a_leader a t)" by simp
        from holds_up_to_date [OF s c(1) old this] stand(1) show ?thesis by simp
      qed
    next
      case (grant j' k u cc l)
      have A: "acked a j t m" using ac grant(1) by (simp add: acked_def)
      have cc: "a_cand a c" "a_term a' c = a_term a c" using c(2) grant(1,5) by (auto simp: may_demote_def split: if_splits)
      show ?thesis
      proof (cases "(j, a_term a c, c) \<in> a_votes a")
        case True
        with P [OF cc _ A] grant(1) show ?thesis by simp
      next
        case False
        with v cc(2) grant(1) have n: "j = j'" "c = k" "u = a_term a c" by auto
        have "agree m (a_log a j) (a_leader a t)" using retainD [OF s _ A old chs] grant(2) n(1) by simp
        from holds_up_to_date [OF s _ old this] grant(2,7) n cc(1) have "Pos t (int m) \<le> lpos (a_log a c)"
          by (auto intro: order_trans)
        with grant(1) show ?thesis by simp
      qed
    next
      case (win i Q)
      have "t \<noteq> a_term a i" using not_elected(2) [OF s win(6)] old by blast
      with ac win(1) have A: "acked a j t m" by (auto simp: acked_def)
      from P [OF _ _ _ A] c v win(1) show ?thesis by (auto split: if_splits)
    next
      case (propose i e)
      have "c \<noteq> i" using safeD(7) [OF s safeD(11) [OF s propose(2,3)]] c(2) propose(1) by auto
      moreover have "m \<le> length (a_leader a t)" using old by (simp add: created_def)
      with ac propose(1) have A: "acked a j t m" by (auto simp: acked_def)
      ultimately show ?thesis using P [OF _ _ _ A] c v propose(1) by simp
    next
      case (follow j' u k M d)
      have cj: "c \<noteq> j'" using c(2) follow(1) by auto
      with v follow(1) have V: "(j, a_term a c, c) \<in> a_votes a" by simp
      have "\<not> (j = j' \<and> t = u)" using safe_acksD(5) [OF s V] lt cj follow(1,5) by (auto simp: may_demote_def)
      with ac follow(1) have A: "acked a j t m" by (auto simp: acked_def)
      from P [OF _ _ V A] c cj follow(1) show ?thesis by simp
    next
      case (catch j' u k M)
      have cj: "c \<noteq> j'" using c(2) catch(1) by auto
      with v catch(1) have V: "(j, a_term a c, c) \<in> a_votes a" by simp
      have "\<not> (j = j' \<and> t = u)" using safe_acksD(5) [OF s V] lt cj catch(1,5) by (auto simp: may_demote_def)
      with ac catch(1) have A: "acked a j t m" by (auto simp: acked_def)
      from P [OF _ _ V A] c cj catch(1) show ?thesis by simp
    next
      case (quiet i u cc l k)
      have "a_cand a c" "a_term a' c = a_term a c" using c(2) quiet(1,3) by (auto simp: may_demote_def split: if_splits)
      with P ac v quiet(1) show ?thesis by (simp add: acked_def)
    qed (use P ac v c in \<open>simp_all add: acked_def\<close>)
  qed
  then show ?thesis unfolding promise_inv_def by blast
qed

lemma committed_by:
  "committed n a T xs \<Longrightarrow> T \<le> T' \<Longrightarrow> take k ys = take k xs \<Longrightarrow> committed n a T' (take k ys)"
  using committed_take [of n a T xs k] committed_mono by metis

lemma commit_step:
  assumes "astep n a a'" and s: "safe n a"
  shows "commit_inv n a'"
proof -
  note gr = astep_grows(1) [OF assms] and tm = astep_grows(5) [OF assms]
  note C = committed_grows [OF assms]
  have old: "committed n a' (a_term a' i) (take k (a_log a i))" if "i < n" "k \<le> a_commit a i" for i k
    by (rule committed_by [OF C [OF commitD(2) [OF s that(1)]] tm]) (simp add: that(2) min.absorb1)
  have len: "k \<le> length (a_log a i)" if "i < n" "k \<le> a_commit a i" for i k
    using commitD(1) [OF s that(1)] that(2) by simp
  have known: "(\<exists>k. (t, k) \<in> a_elected a') \<and> c \<le> length (a_leader a' t) \<and> committed n a' t (take c (a_leader a' t))"
    if "(t, c) \<in> a_known a" for t c
  proof -
    note le = commitD(4) [OF s that]
    have "take c (a_leader a' t) = take c (a_leader a t)" using gr [of t] le by (auto simp: prefix_def)
    then show ?thesis
      using C [OF commitD(5) [OF s that]] commitD(3) [OF s that] astep_grows(2) [OF assms]
        le prefix_length_le [OF gr, of t] by auto
  qed
  have own: "a_commit a' i \<le> length (a_log a' i) \<and> committed n a' (a_term a' i) (take (a_commit a' i) (a_log a' i))"
    if i: "i < n" for i
    using assms(1)
  proof cases
    case (propose j e)
    with old [OF i order_refl] len [OF i order_refl] show ?thesis by (cases "i = j") simp_all
  next
    case (follow j t k m c)
    show ?thesis
    proof (cases "i = j")
      case True
      let ?xs = "follow m (a_leader a t) (a_log a j)"
      have le: "a_term a j \<le> t" using follow(5) by (simp add: may_demote_def)
      have "agree c ?xs (a_leader a t) \<and> committed n a' t (take c (a_leader a t))"
        using follow(7)
      proof
        assume c: "c = a_commit a j"
        note ag = commit_agree_leader [OF s follow(2) le follow(3)]
        have "take c (a_leader a t) = take c (a_log a j)" using agree_takeD [OF ag] c by simp
        with follow_keeps [OF ag follow(6)] old [OF i, of c] c True follow(1) show ?thesis by simp
      next
        assume c: "c \<le> m \<and> (t, c) \<in> a_known a"
        with agree_le [OF follow_agree [OF follow(6)]] C [OF commitD(5) [OF s, of t c]] show ?thesis by blast
      qed
      then have "c \<le> length ?xs" "take c ?xs = take c (a_leader a t)" "committed n a' t (take c (a_leader a t))"
        by (simp_all add: agree_def)
      with follow(1) True show ?thesis by simp
    qed (use follow(1) old [OF i order_refl] len [OF i order_refl] in simp)
  next
    case (commit j c Q)
    show ?thesis
    proof (cases "i = j")
      case True
      note lg = safeD(12) [OF s commit(2,3)]
      have "chosen n a (a_term a j) c" using commit lg by (auto simp: chosen_def created_def)
      then have "committed n a (a_term a j) (take c (a_log a j))"
        using commit(5) lg unfolding committed_def
        by (intro disjI2 exI [where x = "a_term a j"] exI [where x = c]) (simp add: agree_take min.absorb2)
      from C [OF this] commit(1,5) True show ?thesis by simp
    qed (use commit(1) old [OF i order_refl] len [OF i order_refl] in simp)
  next
    case (quiet j t c l k)
    show ?thesis
      by (cases "i = j") (use quiet(1,4) old [OF i, of k] old [OF i order_refl] len [OF i, of k] len [OF i order_refl] in simp_all)
  qed (use old [OF i order_refl] len [OF i order_refl] in simp_all)
  have "(\<exists>k. (t, k) \<in> a_elected a') \<and> c \<le> length (a_leader a' t) \<and> committed n a' t (take c (a_leader a' t))"
    if kn: "(t, c) \<in> a_known a'" for t c
  proof (cases "(t, c) \<in> a_known a")
    case False
    with assms(1) kn obtain i where i: "i < n" "a_lead a i" "c \<le> a_commit a i" "t = a_term a i"
      and eq: "a_leader a' = a_leader a" "a_term a' = a_term a" "a_elected a' = a_elected a"
      by cases auto
    note lg = safeD(12) [OF s i(1,2)]
    have "c \<le> length (a_leader a t)" using len [OF i(1,3)] lg i(4) by simp
    moreover have "committed n a' t (take c (a_leader a t))"
      using old [OF i(1,3)] lg i(4) eq(2) by (simp only:)
    moreover have "(t, i) \<in> a_elected a" using safeD(11) [OF s i(1,2)] i(4) by simp
    ultimately show ?thesis unfolding eq by blast
  qed (rule known)
  with own show ?thesis unfolding commit_inv_def by blast
qed

theorem safe_step:
  assumes "astep n a a'" and "safe n a"
  shows "safe n a'"
  unfolding safe_def [of n a']
  by (intro conjI logs_step roles_step acks_step complete_step retain_step promise_step commit_step) (rule assms)+

text \<open>A group that has not started: no log entries, no leaders, no votes.\<close>

lemma safe_start:
  assumes "\<And>i. 0 \<le> a_term a i" and "\<And>i. a_log a i = []" and "\<And>i. a_commit a i = 0" and "\<And>i. \<not> a_cand a i"
    and "\<And>i. \<not> a_lead a i" and "\<And>t. a_leader a t = []" and "a_elected a = {}" and "a_votes a = {}"
    and "a_acks a = {}" and "a_known a = {}"
  shows "safe n a"
  using assms
  by (simp add: safe_def logs_inv_def roles_inv_def acks_inv_def complete_inv_def retain_inv_def promise_inv_def
      commit_inv_def committed_def acked_def)

subsection \<open>Entries are numbered\<close>

text \<open>Every entry of a log carries its index and a command.\<close>

definition numbered :: "'c log \<Rightarrow> bool" where
  "numbered xs \<longleftrightarrow> (\<forall>k < length xs. le_Index (xs ! k) = int k + 1 \<and> le_Command (xs ! k) \<noteq> None)"

lemma numbered_log:
  assumes "good L T xs" and "\<And>t. numbered (L t)"
  shows "numbered xs"
  unfolding numbered_def
proof (intro allI impI)
  fix k assume k: "k < length xs"
  have a: "agree (Suc k) xs (L (lterm xs (Suc k)))" using goodD(1) [OF assms(1), of "Suc k"] k by simp
  from agree_nth [OF this, of k] assms(2) [of "lterm xs (Suc k)"] agree_length(2) [OF a]
  show "le_Index (xs ! k) = int k + 1 \<and> le_Command (xs ! k) \<noteq> None" by (simp add: numbered_def)
qed

lemma numbered_step:
  assumes "astep n a a'" and s: "safe n a" and nu: "\<And>t. numbered (a_leader a t)"
  shows "numbered (a_leader a' t)"
  using assms(1)
proof cases
  case (win i Q)
  with numbered_log [OF safeD(2) [OF s win(2)] nu] nu show ?thesis by simp
next
  case (propose i e)
  have "numbered (a_leader a (a_term a i) @ [e])"
    using nu [of "a_term a i"] propose(5,6) safeD(12) [OF s propose(2,3)]
    by (auto simp: numbered_def nth_append less_Suc_eq)
  with propose(1) nu show ?thesis by simp
qed (use nu in simp_all)

subsection \<open>What the invariant gives\<close>

text \<open>Any two peers agree on what both consider committed.\<close>

theorem commits_agree:
  assumes "safe n a" and "i < n" and "j < n" and "k \<le> a_commit a i" and "k \<le> a_commit a j"
  shows "agree k (a_log a i) (a_log a j)"
proof -
  have sub: "committed n a (a_term a x) (take k (a_log a x))" "length (take k (a_log a x)) = k"
    if "x < n" "k \<le> a_commit a x" for x
    using committed_take [OF commitD(2) [OF assms(1) that(1)], of k] commitD(1) [OF assms(1) that(1)] that(2)
    by (simp_all add: min.absorb1 min.absorb2)
  from committed_agree [OF assms(1) sub(1) [OF assms(2,4)] sub(1) [OF assms(3,5)]]
  have "agree k (take k (a_log a i)) (take k (a_log a j))"
    unfolding sub(2) [OF assms(2,4)] sub(2) [OF assms(3,5)] by simp
  then show ?thesis using commitD(1) [OF assms(1,2)] commitD(1) [OF assms(1,3)] assms(4,5)
    by (simp add: agree_def)
qed

text \<open>What a peer considers committed is in the log of every later leader.\<close>

theorem leaders_complete:
  assumes "safe n a" and "i < n" and "j < n" and "a_lead a j" and "a_term a i \<le> a_term a j"
  shows "agree (a_commit a i) (a_log a i) (a_log a j)"
  using commit_agree_leader [OF assms(1,2,5) safeD(11) [OF assms(1,3,4)]] safeD(12) [OF assms(1,3,4)] by simp

text \<open>Entries of the same index and term end equal prefixes.\<close>

theorem logs_match:
  assumes "safe n a" and "i < n" and "j < n" and "k \<le> length (a_log a i)" and "k \<le> length (a_log a j)"
    and "lterm (a_log a i) k = lterm (a_log a j) k"
  shows "agree k (a_log a i) (a_log a j)"
  using same_term_agree [OF safeD(2) [OF assms(1,2)] safeD(2) [OF assms(1,3)] assms(4-6)] .

end
