(* ===== verification/WholeLog.thy ===== *)
theory WholeLog
  imports ElectionSafety AbstractSafety
begin

section \<open>Whole logs and what the handlers do to them\<close>

text \<open>
  The log of a peer with its compacted part put back (\<open>wholeLog\<close>), given that its snapshot is a
  prefix of the log of the leader of the snapshot's term (\<open>based\<close>): the indexes of the code are
  positions in it, compaction leaves it alone, and merging entries or installing a snapshot is
  \<open>follow\<close>.
\<close>

definition based :: "(int \<Rightarrow> 'c log) \<Rightarrow> 'c raft \<Rightarrow> bool" where
  "based L rf \<longleftrightarrow> rlog rf \<noteq> [] \<and> 0 \<le> lastIncludedIndex rf \<and>
     nat (lastIncludedIndex rf) \<le> length (L (lastIncludedTerm rf)) \<and>
     lastIncludedTerm rf = lterm (L (lastIncludedTerm rf)) (nat (lastIncludedIndex rf))"

lemma wholeLog_length:
  "based L rf \<Longrightarrow> length (wholeLog L rf) = nat (lastIncludedIndex rf) + (length (rlog rf) - 1)"
  by (simp add: wholeLog_def based_def)

lemma wholeLog_last: "based L rf \<Longrightarrow> getLastLogIndex rf = int (length (wholeLog L rf))"
  by (cases "rlog rf") (simp_all add: wholeLog_length getLastLogIndex_def based_def)

lemma lastIncluded_le_whole: "based L rf \<Longrightarrow> nat (lastIncludedIndex rf) \<le> length (wholeLog L rf)"
  by (simp add: wholeLog_length)

lemma take_whole:
  "based L rf \<Longrightarrow> take (nat (lastIncludedIndex rf)) (wholeLog L rf) =
     take (nat (lastIncludedIndex rf)) (L (lastIncludedTerm rf))"
  by (simp add: wholeLog_def based_def)

lemma drop_whole:
  assumes "based L rf" and "lastIncludedIndex rf \<le> k"
  shows "drop (nat k) (wholeLog L rf) = drop (nat (k + 1 - lastIncludedIndex rf)) (rlog rf)"
proof -
  have "nat k - nat (lastIncludedIndex rf) = nat (k - lastIncludedIndex rf)"
    "nat (lastIncludedIndex rf) \<le> nat k" "nat (k + 1 - lastIncludedIndex rf) = Suc (nat (k - lastIncludedIndex rf))"
    using assms by (auto simp: based_def)
  with assms(1) show ?thesis by (simp add: wholeLog_def based_def min.absorb2 drop_Suc)
qed

lemma nth_whole:
  assumes "based L rf" and "lastIncludedIndex rf < k" and "k \<le> getLastLogIndex rf"
  shows "wholeLog L rf ! nat (k - 1) = rlog rf ! nat (k - lastIncludedIndex rf)"
proof -
  let ?d = "nat (k - 1 - lastIncludedIndex rf)"
  have b: "0 \<le> lastIncludedIndex rf" "nat (lastIncludedIndex rf) \<le> length (L (lastIncludedTerm rf))"
    "rlog rf \<noteq> []" using assms(1) by (simp_all add: based_def)
  have k: "nat (k - 1) = nat (lastIncludedIndex rf) + ?d" "nat (k - lastIncludedIndex rf) = Suc ?d"
    "?d < length (rlog rf) - 1"
    using b assms(2,3) by (auto simp: getLastLogIndex_def)
  have "wholeLog L rf ! nat (k - 1) = tl (rlog rf) ! ?d"
    unfolding wholeLog_def k(1) using b(2) by (simp add: nth_append)
  also have "\<dots> = rlog rf ! nat (k - lastIncludedIndex rf)"
    unfolding k(2) using k(3) by (simp add: nth_tl)
  finally show ?thesis .
qed

lemma term_at_whole:
  assumes "based L rf" and "lastIncludedIndex rf \<le> k" and "k \<le> getLastLogIndex rf"
  shows "term_at k rf = lterm (wholeLog L rf) (nat k)"
proof (cases "k = lastIncludedIndex rf")
  case True
  have "agree (nat k) (wholeLog L rf) (L (lastIncludedTerm rf))"
    using take_whole [OF assms(1)] lastIncluded_le_whole [OF assms(1)] assms(1) True
    by (simp add: agree_def based_def)
  from agree_lterm [OF this order_refl] True assms(1) show ?thesis by (simp add: term_at_def based_def)
next
  case False
  with assms(2) have lt: "lastIncludedIndex rf < k" by simp
  with assms(1) have "nat k \<noteq> 0" "nat k - 1 = nat (k - 1)" by (auto simp: based_def)
  then show ?thesis using nth_whole [OF assms(1) lt assms(3)] False by (simp add: term_at_def lterm_def)
qed

lemma lpos_whole:
  assumes "based L rf"
  shows "Pos (last_term rf) (getLastLogIndex rf) = lpos (wholeLog L rf)"
proof -
  have "rlog rf \<noteq> []" using assms by (simp add: based_def)
  from lastIncluded_le_last [OF this] term_at_whole [OF assms _ order_refl] wholeLog_last [OF assms]
  show ?thesis by (simp add: lpos_def last_term_def)
qed

text \<open>Growing the leaders' logs changes no whole log.\<close>

lemma based_grow:
  assumes "based L rf" and "\<And>t. prefix (L t) (L' t)"
  shows "based L' rf" and "wholeLog L' rf = wholeLog L rf"
proof -
  obtain zs where z: "L' (lastIncludedTerm rf) = L (lastIncludedTerm rf) @ zs"
    using assms(2) [of "lastIncludedTerm rf"] by (auto simp: prefix_def)
  show "based L' rf" "wholeLog L' rf = wholeLog L rf"
    using assms(1) z by (auto simp: based_def wholeLog_def lterm_append)
qed

lemma whole_cong:
  "keeps_log rf rf' \<Longrightarrow> wholeLog L rf' = wholeLog L rf" "keeps_log rf rf' \<Longrightarrow> based L rf' = based L rf"
  by (simp_all add: keeps_log_def wholeLog_def based_def)

subsection \<open>Proposing and compacting\<close>

lemma whole_propose:
  "rlog rf \<noteq> [] \<Longrightarrow> wholeLog L (persist (rf\<lparr>rlog := rlog rf @ [e]\<rparr>)) = wholeLog L rf @ [e]"
  by (simp add: wholeLog_def frame_simps)

text \<open>A good log is recovered from any prefix of it and the rest, the prefix being its leader's.\<close>

lemma rebase:
  assumes "good L T (wholeLog L rf)" and "k \<le> length (wholeLog L rf)" and "0 < k"
  shows "take k (L (lterm (wholeLog L rf) k)) = take k (wholeLog L rf)"
    and "k \<le> length (L (lterm (wholeLog L rf) k))"
    and "lterm (L (lterm (wholeLog L rf) k)) k = lterm (wholeLog L rf) k"
  using goodD(1) [OF assms(1,3,2)] agree_lterm [OF goodD(1) [OF assms(1,3,2)] order_refl]
  by (simp_all add: agree_def)

lemma whole_compact:
  assumes b: "based L rf" and g: "good L T (wholeLog L rf)" and sn: "Raft_Snapshot i d rf = Some rf'"
  shows "wholeLog L rf' = wholeLog L rf" and "based L rf'"
proof -
  have "wholeLog L rf' = wholeLog L rf \<and> based L rf'"
  proof (cases "lastIncludedIndex rf < i")
    case False
    with sn b show ?thesis by (simp add: Raft_Snapshot_def)
  next
    case True
    note s = Raft_Snapshot_spec [OF sn True]
    let ?w = "wholeLog L rf"
    have k: "0 < nat i" "nat i \<le> length ?w" "0 \<le> i"
      using b True s(1) wholeLog_last [OF b] by (auto simp: based_def)
    have t: "term_at i rf = lterm ?w (nat i)" by (rule term_at_whole [OF b]) (use True s(1) in simp_all)
    note r = rebase [OF g k(2,1)]
    have "tl (rlog rf') = drop (nat i) ?w"
      using s(2) drop_whole [OF b, of i] True by (simp add: algebra_simps)
    then have "wholeLog L rf' = ?w"
      using s(3,4) t r(1) by (simp add: wholeLog_def [of L rf'] append_take_drop_id)
    moreover have "based L rf'" using s(2-4) t r(2,3) k(3) by (simp add: based_def)
    ultimately show ?thesis by blast
  qed
  then show "wholeLog L rf' = wholeLog L rf" and "based L rf'" by simp_all
qed

subsection \<open>Merging the entries of a leader\<close>

lemma merge_follow:
  assumes xs: "good L T xs" and ys: "good L U ys" and "agree p xs ys" and "p + len \<le> length ys"
  shows "take p xs @ merge_entries (drop p xs) (take len (drop p ys)) = follow (p + len) ys xs"
  using assms(3,4)
proof (induction len arbitrary: p)
  case 0
  then show ?case by (simp add: follow_def)
next
  case (Suc len)
  have p: "p < length ys" using Suc.prems(2) by simp
  have es: "take (Suc len) (drop p ys) = ys ! p # take len (drop (Suc p) ys)"
    using Cons_nth_drop_Suc [OF p] by (metis take_Suc_Cons)
  have pre: "take p xs = take p ys" using Suc.prems(1) by (rule agree_takeD)
  have all: "take p ys @ take (Suc len) (drop p ys) = take (p + Suc len) ys" by (rule take_add [symmetric])
  show ?case
  proof (cases "p < length xs")
    case False
    then have "\<not> agree (p + Suc len) xs ys" by (simp add: agree_def)
    with False pre all show ?thesis by (simp add: follow_def)
  next
    case True
    note d = Cons_nth_drop_Suc [OF True, symmetric]
    show ?thesis
    proof (cases "le_Term (xs ! p) = le_Term (ys ! p)")
      case eq: True
      have ag: "agree (Suc p) xs ys"
        by (rule same_term_agree [OF xs ys]) (use True p eq in \<open>simp_all add: lterm_def\<close>)
      have "take (Suc p) xs @ merge_entries (drop (Suc p) xs) (take len (drop (Suc p) ys)) =
          follow (Suc p + len) ys xs"
        by (rule Suc.IH [OF ag]) (use Suc.prems(2) in simp)
      then show ?thesis unfolding d es using eq by (simp add: take_Suc_conv_app_nth [OF True])
    next
      case ne: False
      have "\<not> agree (p + Suc len) xs ys"
      proof
        assume "agree (p + Suc len) xs ys"
        from agree_nth [OF this, of p] ne show False by simp
      qed
      then show ?thesis using ne all pre unfolding d es by (simp add: follow_def)
    qed
  qed
qed

lemma whole_merged:
  assumes b: "based L rf" and p: "lastIncludedIndex rf \<le> ae_PrevLogIndex args"
    "ae_PrevLogIndex args \<le> getLastLogIndex rf" and rf': "rlog rf' = mergedLog args rf"
    "lastIncludedIndex rf' = lastIncludedIndex rf" "lastIncludedTerm rf' = lastIncludedTerm rf"
  shows "wholeLog L rf' = take (nat (ae_PrevLogIndex args)) (wholeLog L rf) @
      merge_entries (drop (nat (ae_PrevLogIndex args)) (wholeLog L rf)) (ae_Entries args)"
    and "based L rf'"
proof -
  let ?p = "ae_PrevLogIndex args" and ?i = "lastIncludedIndex rf"
  let ?k = "nat (?p - ?i)"
  have k: "nat (?p + 1 - ?i) = Suc ?k" "nat ?p = nat ?i + ?k" using p b by (auto simp: based_def)
  obtain x l where l: "rlog rf = x # l" using b by (cases "rlog rf") (auto simp: based_def)
  have "tl (mergedLog args rf) = take ?k l @ merge_entries (drop ?k l) (ae_Entries args)"
    "mergedLog args rf \<noteq> []"
    by (simp_all add: mergedLog_def Let_def k(1) l)
  with rf' b show "wholeLog L rf' = take (nat ?p) (wholeLog L rf) @
      merge_entries (drop (nat ?p) (wholeLog L rf)) (ae_Entries args)" "based L rf'"
    by (simp_all add: wholeLog_def based_def l k(2) min.absorb2)
qed

subsection \<open>Installing a snapshot\<close>

lemma whole_install:
  assumes b: "based L rf" and g: "good L T (wholeLog L rf)" and ys: "good L U (L U)"
    and s: "lastIncludedIndex rf < s" "s = is_LastIncludedIndex args" "nat s \<le> length (L U)"
      "lterm (L U) (nat s) = is_LastIncludedTerm args"
    and rf': "rlog rf' = snapshotLog args rf" "lastIncludedIndex rf' = s"
      "lastIncludedTerm rf' = is_LastIncludedTerm args"
  shows "wholeLog L rf' = follow (nat s) (L U) (wholeLog L rf)" and "based L rf'"
proof -
  let ?w = "wholeLog L rf" and ?t = "is_LastIncludedTerm args"
  have s0: "0 < nat s" "0 \<le> s" using b s(1) by (auto simp: based_def)
  have lt: "agree (nat s) (L U) (L ?t)" using goodD(1) [OF ys s0(1) s(3)] s(4) by simp
  show "based L rf'"
    using rf' s0(2) agree_length(2) [OF lt] agree_lterm [OF lt order_refl] s(4)
    by (simp add: based_def snapshotLog_def)
  have ag: "agreesWithSnapshot args rf \<longleftrightarrow> agree (nat s) ?w (L U)"
  proof
    assume a: "agreesWithSnapshot args rf"
    then have "s \<le> getLastLogIndex rf" "term_at s rf = ?t" by (simp_all add: agreesWithSnapshot_def s(2))
    with term_at_whole [OF b, of s] wholeLog_last [OF b] s(1) show "agree (nat s) ?w (L U)"
      by (intro same_term_agree [OF g ys]) (use s(3,4) in auto)
  next
    assume a: "agree (nat s) ?w (L U)"
    then have "s \<le> getLastLogIndex rf" using wholeLog_last [OF b] s0 by (auto simp: agree_def)
    with agree_lterm [OF a order_refl] term_at_whole [OF b, of s] s
    show "agreesWithSnapshot args rf" by (simp add: agreesWithSnapshot_def)
  qed
  have w: "wholeLog L rf' = take (nat s) (L U) @ tl (snapshotLog args rf)"
    using rf' agree_takeD [OF lt] by (simp add: wholeLog_def)
  show "wholeLog L rf' = follow (nat s) (L U) ?w"
  proof (cases "agree (nat s) ?w (L U)")
    case True
    have "tl (snapshotLog args rf) = drop (nat s) ?w"
      using True ag drop_whole [OF b, of s] s(1,2) by (simp add: snapshotLog_def algebra_simps)
    with w True agree_takeD [OF True] show ?thesis by (simp add: follow_def) (metis append_take_drop_id)
  next
    case False
    with ag w show ?thesis by (simp add: follow_def snapshotLog_def)
  qed
qed

end
