(* ===== verification/LogRefinement.thy ===== *)
theory LogRefinement
  imports WholeLog
begin

section \<open>The group of the code refines the abstract model\<close>

subsection \<open>The abstract state of a cluster\<close>

text \<open>
  A successful reply to \<open>AppendEntries\<close> acknowledges every index up to the last one sent; a reply to
  \<open>InstallSnapshot\<close> that is not from a later term acknowledges the snapshot's index.
\<close>

fun ack_of :: "'c msg \<Rightarrow> (nat \<times> int \<times> nat) set" where
  "ack_of (AppendRep i j args r) = (if aer_Success r
     then {(j, ae_Term args, m) | m. int m \<le> ae_PrevLogIndex args + int (length (ae_Entries args))} else {})"
| "ack_of (SnapRep i j args r) = (if isr_Term r \<le> is_Term args
     then {(j, is_Term args, m) | m. int m \<le> is_LastIncludedIndex args} else {})"
| "ack_of m = {}"

text \<open>A leader publishes its commit index with its entries, and what it compacted with its snapshot.\<close>

fun known_of :: "'c msg \<Rightarrow> (int \<times> nat) set" where
  "known_of (AppendReq i j args) = {(ae_Term args, nat (ae_LeaderCommit args))}"
| "known_of (SnapReq i j args) = {(is_Term args, nat (is_LastIncludedIndex args))}"
| "known_of m = {}"

definition view :: "'c cluster \<Rightarrow> 'c araft" where
  "view S = \<lparr>
     a_term = \<lambda>i. currentTerm (nodes S i),
     a_cand = \<lambda>i. role (nodes S i) = Candidate,
     a_lead = \<lambda>i. role (nodes S i) = Leader,
     a_log = \<lambda>i. wholeLog (leaderLog S) (nodes S i),
     a_commit = \<lambda>i. nat (commitIndex (nodes S i)),
     a_leader = leaderLog S,
     a_elected = elected S,
     a_votes = {(j, t, c). (j, t, int c) \<in> cast S},
     a_acks = \<Union>(ack_of ` net S),
     a_known = \<Union>(known_of ` net S)\<rparr>"

lemma view_simps [simp]:
  "a_term (view S) i = currentTerm (nodes S i)" "a_cand (view S) i \<longleftrightarrow> role (nodes S i) = Candidate"
  "a_lead (view S) i \<longleftrightarrow> role (nodes S i) = Leader"
  "a_log (view S) i = wholeLog (leaderLog S) (nodes S i)" "a_commit (view S) i = nat (commitIndex (nodes S i))"
  "a_leader (view S) = leaderLog S" "a_elected (view S) = elected S"
  "(j, t, c) \<in> a_votes (view S) \<longleftrightarrow> (j, t, int c) \<in> cast S"
  "a_acks (view S) = \<Union>(ack_of ` net S)" "a_known (view S) = \<Union>(known_of ` net S)"
  by (simp_all add: view_def)

lemma view_frame [simp]:
  "view (S\<lparr>elections := E\<rparr>) = view S" "view (deliver i msgs S) = view S"
  by (simp_all add: view_def)

subsection \<open>The invariant that links the two\<close>

definition node_ok :: "nat \<Rightarrow> 'c cluster \<Rightarrow> nat \<Rightarrow> bool" where
  "node_ok n S i \<longleftrightarrow> (let rf = nodes S i in
     based (leaderLog S) rf \<and> lastIncludedIndex rf \<le> lastApplied rf \<and> lastApplied rf \<le> commitIndex rf \<and>
     (votedFor rf \<noteq> -1 \<longrightarrow> (i, currentTerm rf, votedFor rf) \<in> cast S) \<and>
     (role rf = Leader \<longrightarrow> (\<forall>p<n. p \<noteq> i \<longrightarrow> matchIndex rf ! p \<le> 0 \<or>
        (p, currentTerm rf, nat (matchIndex rf ! p)) \<in> \<Union>(ack_of ` net S))))"

text \<open>What a message says is true of the log of the leader that sent it.\<close>

fun msg_ok :: "'c cluster \<Rightarrow> 'c msg \<Rightarrow> bool" where
  "msg_ok S (VoteReq c j args) \<longleftrightarrow> rv_Term args \<le> currentTerm (nodes S c) \<and>
     (role (nodes S c) = Candidate \<and> currentTerm (nodes S c) = rv_Term args \<longrightarrow>
        Pos (rv_LastLogTerm args) (rv_LastLogIndex args) = lpos (wholeLog (leaderLog S) (nodes S c)))"
| "msg_ok S (AppendReq i j args) \<longleftrightarrow> (let L = leaderLog S (ae_Term args);
       p = nat (ae_PrevLogIndex args); len = length (ae_Entries args) in
     (ae_Term args, i) \<in> elected S \<and> 0 \<le> ae_PrevLogIndex args \<and> p + len \<le> length L \<and>
     ae_Entries args = take len (drop p L) \<and> ae_PrevLogTerm args = lterm L p \<and>
     ae_LeaderCommit args \<le> int (p + len))"
| "msg_ok S (SnapReq i j args) \<longleftrightarrow> (let L = leaderLog S (is_Term args); s = nat (is_LastIncludedIndex args) in
     (is_Term args, i) \<in> elected S \<and> 0 \<le> is_LastIncludedIndex args \<and> s \<le> length L \<and>
     lterm L s = is_LastIncludedTerm args)"
| "msg_ok S m \<longleftrightarrow> True"

definition refine_inv :: "nat \<Rightarrow> 'c cluster \<Rightarrow> bool" where
  "refine_inv n S \<longleftrightarrow> (\<forall>i. node_ok n S i) \<and> (\<forall>m\<in>net S. msg_ok S m)"

definition log_inv :: "nat \<Rightarrow> 'c cluster \<Rightarrow> bool" where
  "log_inv n S \<longleftrightarrow> election_inv n S \<and> refine_inv n S \<and> safe n (view S)"

lemma node_okD:
  assumes "log_inv n S"
  shows "based (leaderLog S) (nodes S i)" "lastIncludedIndex (nodes S i) \<le> lastApplied (nodes S i)"
    "lastApplied (nodes S i) \<le> commitIndex (nodes S i)"
    "votedFor (nodes S i) \<noteq> -1 \<Longrightarrow> (i, currentTerm (nodes S i), votedFor (nodes S i)) \<in> cast S"
    "role (nodes S i) = Leader \<Longrightarrow> p < n \<Longrightarrow> p \<noteq> i \<Longrightarrow> matchIndex (nodes S i) ! p \<le> 0 \<or>
        (p, currentTerm (nodes S i), nat (matchIndex (nodes S i) ! p)) \<in> \<Union>(ack_of ` net S)"
  using assms by (auto simp: log_inv_def refine_inv_def node_ok_def Let_def)

lemma msg_okD: "log_inv n S \<Longrightarrow> m \<in> net S \<Longrightarrow> msg_ok S m"
  by (simp add: log_inv_def refine_inv_def)

lemma log_invD: "log_inv n S \<Longrightarrow> election_inv n S" "log_inv n S \<Longrightarrow> safe n (view S)"
  by (simp_all add: log_inv_def)

lemma commit_in_log:
  assumes "log_inv n S" and "i < n"
  shows "commitIndex (nodes S i) \<le> getLastLogIndex (nodes S i)"
  using commitD(1) [OF log_invD(2) [OF assms(1)] assms(2)] wholeLog_last [OF node_okD(1) [OF assms(1)], of i]
  by simp

subsection \<open>One peer moves\<close>

text \<open>
  \<open>keeps_vote\<close>: no vote that was not cast before. \<open>leads_on\<close>: whoever leads afterwards led before, in
  the same term and with the same log.
\<close>

definition keeps_vote :: "'c raft \<Rightarrow> 'c raft \<Rightarrow> bool" where
  "keeps_vote rf rf' \<longleftrightarrow> votedFor rf' = -1 \<or> votedFor rf' = votedFor rf \<and> currentTerm rf' = currentTerm rf"

lemma moved_leader_log:
  assumes "log_inv n S" and "i < n" and "no_new_leader (nodes S i) rf"
    and "role rf = Leader \<Longrightarrow> wholeLog (leaderLog S) rf = wholeLog (leaderLog S) (nodes S i)"
  shows "leaderLog (moveTo i rf ms S) = leaderLog S" and "elected (moveTo i rf ms S) = elected S"
proof -
  have "leaderLog (moveTo i rf ms S) = leaderLog S \<and> elected (moveTo i rf ms S) = elected S"
  proof (cases "role rf = Leader")
    case True
    then have r: "role (nodes S i) = Leader" "currentTerm rf = currentTerm (nodes S i)"
      using assms(3) by (simp_all add: no_new_leader_def)
    note s = log_invD(2) [OF assms(1)]
    from safeD(11,12) [OF s assms(2)] r assms(4) [OF True] show ?thesis
      by (simp add: insert_absorb)
  qed simp
  then show "leaderLog (moveTo i rf ms S) = leaderLog S" and "elected (moveTo i rf ms S) = elected S"
    by simp_all
qed

lemma moved_cast:
  assumes "log_inv n S" and "keeps_vote (nodes S i) rf"
  shows "cast (moveTo i rf ms S) = cast S"
  using assms(2) node_okD(4) [OF assms(1), of i] by (auto simp: keeps_vote_def)

lemma view_moved:
  assumes "leaderLog (moveTo i rf ms S) = leaderLog S" and "elected (moveTo i rf ms S) = elected S"
  shows "view (moveTo i rf ms S) = (demote i (currentTerm rf) (role rf = Candidate) (role rf = Leader) (view S))
     \<lparr>a_log := (a_log (view S))(i := wholeLog (leaderLog S) rf),
      a_commit := (a_commit (view S))(i := nat (commitIndex rf)),
      a_votes := {(j, t, c). (j, t, int c) \<in> cast (moveTo i rf ms S)},
      a_acks := a_acks (view S) \<union> \<Union>(ack_of ` ms), a_known := a_known (view S) \<union> \<Union>(known_of ` ms)\<rparr>"
  unfolding view_def assms
  by (auto simp: demote_def fun_eq_iff)

lemma node_ok_mono:
  assumes "node_ok n S k" and "nodes S' k = nodes S k" and "based (leaderLog S') (nodes S k)"
    and "cast S \<subseteq> cast S'" and "\<Union>(ack_of ` net S) \<subseteq> \<Union>(ack_of ` net S')"
  shows "node_ok n S' k"
  unfolding node_ok_def Let_def assms(2)
  using assms(1,3) subsetD [OF assms(4)] subsetD [OF assms(5)] unfolding node_ok_def Let_def by blast

text \<open>
  The rest of the invariant after a move that lets the leaders' logs grow at most: for the other
  peers and the messages in flight.
\<close>

lemma refine_inv_moved:
  assumes inv: "refine_inv n S"
    and L: "\<And>t. prefix (leaderLog S t) (leaderLog (moveTo i rf ms S) t)"
    and own: "node_ok n (moveTo i rf ms S) i" and ms: "\<And>m. m \<in> ms \<Longrightarrow> msg_ok (moveTo i rf ms S) m"
    and up: "currentTerm (nodes S i) \<le> currentTerm rf"
    and cand: "role rf = Candidate \<Longrightarrow> currentTerm rf = currentTerm (nodes S i) \<Longrightarrow> role (nodes S i) = Candidate \<and>
      wholeLog (leaderLog S) rf = wholeLog (leaderLog S) (nodes S i)"
  shows "refine_inv n (moveTo i rf ms S)"
proof -
  let ?S = "moveTo i rf ms S"
  have based: "based (leaderLog S) (nodes S k)" for k
    using inv by (simp add: refine_inv_def node_ok_def Let_def)
  note grow = based_grow [OF _ L]
  have "node_ok n ?S k" for k
  proof (cases "k = i")
    case False
    have old: "node_ok n S k" using inv by (simp add: refine_inv_def)
    have "nodes ?S k = nodes S k" "cast S \<subseteq> cast ?S" "\<Union>(ack_of ` net S) \<subseteq> \<Union>(ack_of ` net ?S)"
      using False by auto
    then show ?thesis by (rule node_ok_mono [OF old _ grow(1) [OF based]])
  qed (use own in simp)
  moreover have "msg_ok ?S m" if "m \<in> net S" for m
  proof -
    have old: "msg_ok S m" using inv that by (simp add: refine_inv_def)
    have el: "elected S \<subseteq> elected ?S" by simp
    show ?thesis
    proof (cases m)
      case (VoteReq c j args)
      show ?thesis
      proof (cases "c = i")
        case True
        with old VoteReq have o: "rv_Term args \<le> currentTerm (nodes S i)"
          "role (nodes S i) = Candidate \<and> currentTerm (nodes S i) = rv_Term args \<Longrightarrow>
            Pos (rv_LastLogTerm args) (rv_LastLogIndex args) = lpos (wholeLog (leaderLog S) (nodes S i))"
          by simp_all
        have b: "based (leaderLog ?S) rf" using own by (simp add: node_ok_def Let_def)
        have "Pos (rv_LastLogTerm args) (rv_LastLogIndex args) = lpos (wholeLog (leaderLog ?S) rf)"
          if c: "role rf = Candidate" "currentTerm rf = rv_Term args"
        proof -
          have "currentTerm rf = currentTerm (nodes S i)" using c(2) o(1) up by simp
          from cand [OF c(1) this] o(2) c this
          have "Pos (rv_LastLogTerm args) (rv_LastLogIndex args) = lpos (wholeLog (leaderLog S) rf)" by simp
          with c(1) show ?thesis by simp
        qed
        with o(1) up VoteReq True show ?thesis by simp
      next
        case False
        with old VoteReq grow(2) [OF based [of c]] show ?thesis by (simp del: moveTo_simps(7))
      qed
    next
      case (AppendReq a b args)
      obtain zs where "leaderLog ?S (ae_Term args) = leaderLog S (ae_Term args) @ zs"
        using L [of "ae_Term args"] by (auto simp: prefix_def)
      with old AppendReq el show ?thesis
        by (auto simp: Let_def lterm_append simp del: moveTo_simps(7))
    next
      case (SnapReq a b args)
      obtain zs where "leaderLog ?S (is_Term args) = leaderLog S (is_Term args) @ zs"
        using L [of "is_Term args"] by (auto simp: prefix_def)
      with old SnapReq el show ?thesis
        by (auto simp: Let_def lterm_append simp del: moveTo_simps(7))
    qed simp_all
  qed
  ultimately show ?thesis using ms unfolding refine_inv_def by auto
qed

text \<open>A move is a step of the abstract model and keeps the link.\<close>

definition refines :: "nat \<Rightarrow> 'c cluster \<Rightarrow> 'c cluster \<Rightarrow> bool" where
  "refines n S S' \<longleftrightarrow> refine_inv n S' \<and> astep n (view S) (view S')"

lemma node_ok_moved:
  assumes "based (leaderLog (moveTo i rf ms S)) rf" and "lastIncludedIndex rf \<le> lastApplied rf"
    and "lastApplied rf \<le> commitIndex rf"
    and "\<And>p. role rf = Leader \<Longrightarrow> p < n \<Longrightarrow> p \<noteq> i \<Longrightarrow> matchIndex rf ! p \<le> 0 \<or>
      (p, currentTerm rf, nat (matchIndex rf ! p)) \<in> \<Union>(ack_of ` net S)"
  shows "node_ok n (moveTo i rf ms S) i"
  using assms by (auto simp: node_ok_def Let_def simp del: moveTo_simps(7))

lemma refines_moved:
  assumes inv: "log_inv n S" and i: "i < n"
    and steps: "currentTerm (nodes S i) \<le> currentTerm rf" "no_new_leader (nodes S i) rf"
      "no_new_candidate (nodes S i) rf" "keeps_vote (nodes S i) rf"
    and base: "based (leaderLog S) rf"
    and whole: "role rf \<noteq> Follower \<Longrightarrow> wholeLog (leaderLog S) rf = wholeLog (leaderLog S) (nodes S i)"
    and idx: "lastIncludedIndex rf \<le> lastApplied rf" "lastApplied rf \<le> commitIndex rf"
    and match: "\<And>p. role rf = Leader \<Longrightarrow> p < n \<Longrightarrow> p \<noteq> i \<Longrightarrow> matchIndex rf ! p \<le> 0 \<or>
      (p, currentTerm rf, nat (matchIndex rf ! p)) \<in> \<Union>(ack_of ` net S)"
    and ms: "\<And>m. m \<in> ms \<Longrightarrow> msg_ok (moveTo i rf ms S) m"
  shows "refine_inv n (moveTo i rf ms S)"
    and "view (moveTo i rf ms S) = (demote i (currentTerm rf) (role rf = Candidate) (role rf = Leader) (view S))
     \<lparr>a_log := (a_log (view S))(i := wholeLog (leaderLog S) rf),
      a_commit := (a_commit (view S))(i := nat (commitIndex rf)),
      a_acks := a_acks (view S) \<union> \<Union>(ack_of ` ms), a_known := a_known (view S) \<union> \<Union>(known_of ` ms)\<rparr>"
proof -
  have L: "leaderLog (moveTo i rf ms S) = leaderLog S"
    by (rule moved_leader_log(1) [OF inv i steps(2)]) (rule whole, simp)
  have el: "elected (moveTo i rf ms S) = elected S"
    by (rule moved_leader_log(2) [OF inv i steps(2)]) (rule whole, simp)
  have "node_ok n (moveTo i rf ms S) i" by (rule node_ok_moved) (use base idx match L in simp_all)
  then show "refine_inv n (moveTo i rf ms S)"
  proof (rule refine_inv_moved [rotated 2])
    show "refine_inv n S" using inv by (simp add: log_inv_def)
    show "prefix (leaderLog S t) (leaderLog (moveTo i rf ms S) t)" for t unfolding L by simp
    show "role (nodes S i) = Candidate \<and> wholeLog (leaderLog S) rf = wholeLog (leaderLog S) (nodes S i)"
      if "role rf = Candidate"
    proof
      show "role (nodes S i) = Candidate" using that steps(3) by (simp add: no_new_candidate_def)
      show "wholeLog (leaderLog S) rf = wholeLog (leaderLog S) (nodes S i)" by (rule whole) (simp add: that)
    qed
  qed (use steps(1) ms in auto)
  have "{(j, t, c). (j, t, int c) \<in> cast (moveTo i rf ms S)} = a_votes (view S)"
    unfolding moved_cast [OF inv steps(4)] by (simp add: view_def)
  then show "view (moveTo i rf ms S) =
    (demote i (currentTerm rf) (role rf = Candidate) (role rf = Leader) (view S))
     \<lparr>a_log := (a_log (view S))(i := wholeLog (leaderLog S) rf),
      a_commit := (a_commit (view S))(i := nat (commitIndex rf)),
      a_acks := a_acks (view S) \<union> \<Union>(ack_of ` ms), a_known := a_known (view S) \<union> \<Union>(known_of ` ms)\<rparr>"
    unfolding view_moved [OF L el] by (intro araft.equality) simp_all
qed

lemma may_demote_view:
  assumes "currentTerm (nodes S i) \<le> currentTerm rf" and "no_new_leader (nodes S i) rf"
    and "no_new_candidate (nodes S i) rf"
  shows "may_demote i (currentTerm rf) (role rf = Candidate) (role rf = Leader) (view S)"
  using assms by (simp add: may_demote_def no_new_leader_def no_new_candidate_def)

lemma refines_quiet:
  assumes inv: "log_inv n S" and i: "i < n"
    and steps: "currentTerm (nodes S i) \<le> currentTerm rf" "no_new_leader (nodes S i) rf"
      "no_new_candidate (nodes S i) rf" "keeps_vote (nodes S i) rf"
    and base: "based (leaderLog S) rf"
    and whole: "wholeLog (leaderLog S) rf = wholeLog (leaderLog S) (nodes S i)"
    and idx: "lastIncludedIndex rf \<le> lastApplied rf" "lastApplied rf \<le> commitIndex rf"
      "commitIndex rf \<le> commitIndex (nodes S i)"
    and match: "\<And>p. role rf = Leader \<Longrightarrow> p < n \<Longrightarrow> p \<noteq> i \<Longrightarrow> matchIndex rf ! p \<le> 0 \<or>
      (p, currentTerm rf, nat (matchIndex rf ! p)) \<in> \<Union>(ack_of ` net S)"
    and ms: "\<And>m. m \<in> ms \<Longrightarrow> ack_of m = {} \<and> known_of m = {} \<and> msg_ok (moveTo i rf ms S) m"
  shows "refines n S (moveTo i rf ms S)"
proof -
  have R: "refine_inv n (moveTo i rf ms S)"
    by (rule refines_moved(1) [OF inv i steps base whole idx(1,2) match]) (use ms in auto)
  have V: "view (moveTo i rf ms S) = (demote i (currentTerm rf) (role rf = Candidate) (role rf = Leader) (view S))
     \<lparr>a_log := (a_log (view S))(i := wholeLog (leaderLog S) rf),
      a_commit := (a_commit (view S))(i := nat (commitIndex rf)),
      a_acks := a_acks (view S) \<union> \<Union>(ack_of ` ms), a_known := a_known (view S) \<union> \<Union>(known_of ` ms)\<rparr>"
    by (rule refines_moved(2) [OF inv i steps base whole idx(1,2) match]) (use ms in auto)
  have "(a_log (view S))(i := wholeLog (leaderLog S) rf) = a_log (view S)"
    by (rule fun_upd_idem) (simp add: whole)
  moreover have "\<Union>(ack_of ` ms) = {}" "\<Union>(known_of ` ms) = {}" using ms by auto
  ultimately have "view (moveTo i rf ms S) =
      (demote i (currentTerm rf) (role rf = Candidate) (role rf = Leader) (view S))
        \<lparr>a_commit := (a_commit (view S))(i := nat (commitIndex rf))\<rparr>"
    unfolding V by (intro araft.equality) simp_all
  moreover have "nat (commitIndex rf) \<le> a_commit (view S) i" using idx(3) by simp
  ultimately have "astep n (view S) (view (moveTo i rf ms S))"
    using astep.quiet [OF i may_demote_view [OF steps(1-3)]] by simp
  with R show ?thesis by (simp add: refines_def)
qed

text \<open>The common case: the log and the indexes stay.\<close>

lemma refines_kept:
  assumes inv: "log_inv n S" and i: "i < n"
    and steps: "currentTerm (nodes S i) \<le> currentTerm rf" "no_new_leader (nodes S i) rf"
      "no_new_candidate (nodes S i) rf" "keeps_vote (nodes S i) rf" "keeps_log (nodes S i) rf"
    and same: "lastApplied rf = lastApplied (nodes S i)" "commitIndex rf = commitIndex (nodes S i)"
      "role rf = Leader \<Longrightarrow> matchIndex rf = matchIndex (nodes S i)"
    and ms: "\<And>m. m \<in> ms \<Longrightarrow> ack_of m = {} \<and> known_of m = {} \<and> msg_ok (moveTo i rf ms S) m"
  shows "refines n S (moveTo i rf ms S)"
proof (rule refines_quiet [OF inv i steps(1-4)])
  have lii: "lastIncludedIndex rf = lastIncludedIndex (nodes S i)" using steps(5) by (simp add: keeps_log_def)
  show "based (leaderLog S) rf" "wholeLog (leaderLog S) rf = wholeLog (leaderLog S) (nodes S i)"
    using whole_cong [OF steps(5)] node_okD(1) [OF inv, of i] by simp_all
  show "lastIncludedIndex rf \<le> lastApplied rf" "lastApplied rf \<le> commitIndex rf"
    "commitIndex rf \<le> commitIndex (nodes S i)"
    using node_okD(2,3) [OF inv, of i] same(1,2) lii by simp_all
  show "matchIndex rf ! p \<le> 0 \<or> (p, currentTerm rf, nat (matchIndex rf ! p)) \<in> \<Union>(ack_of ` net S)"
    if "role rf = Leader" "p < n" "p \<noteq> i" for p
    using node_okD(5) [OF inv _ that(2,3)] same(3) [OF that(1)] steps(2) that(1) by (simp add: no_new_leader_def)
qed (rule ms)

lemma refine_inv_frame [simp]:
  "refine_inv n (S\<lparr>elections := E\<rparr>) = refine_inv n S" "refine_inv n (deliver i msgs S) = refine_inv n S"
proof -
  have "msg_ok (S\<lparr>elections := E\<rparr>) m = msg_ok S m" "msg_ok (deliver i msgs S) m = msg_ok S m" for m
    by (cases m; simp)+
  then show "refine_inv n (S\<lparr>elections := E\<rparr>) = refine_inv n S" "refine_inv n (deliver i msgs S) = refine_inv n S"
    by (simp_all add: refine_inv_def node_ok_def)
qed

lemma refines_frame [simp]:
  "refines n S (T\<lparr>elections := E\<rparr>) = refines n S T" "refines n S (deliver i msgs T) = refines n S T"
  by (simp_all add: refines_def)

subsection \<open>Elections\<close>

lemma elect_refines:
  assumes inv: "log_inv n S" and i: "i < n" and st: "startElection ck (nodes S i) = Some (el, args, rf)"
  shows "refines n S (moveTo i rf {VoteReq i j args | j. j < n \<and> j \<noteq> i} S)" (is "refines n S ?T")
proof -
  have b: "based (leaderLog S) (nodes S i)" by (rule node_okD(1) [OF inv])
  then have "rlog (nodes S i) \<noteq> []" by (simp add: based_def)
  note sp = startElection_spec [OF st this]
  have me: "me (nodes S i) = int i"
    using election_inv_wfD(1) [OF log_invD(1) [OF inv] i] by (simp add: wf_raft_def)
  have L: "leaderLog ?T = leaderLog S" and el: "elected ?T = elected S" using sp(6) by simp_all
  have lii: "lastIncludedIndex rf = lastIncludedIndex (nodes S i)" using sp(3) by (simp add: keeps_log_def)
  have w: "wholeLog (leaderLog S) rf = wholeLog (leaderLog S) (nodes S i)" by (rule whole_cong(1) [OF sp(3)])
  have "node_ok n ?T i"
    by (rule node_ok_moved) (use b sp whole_cong(2) [OF sp(3)] lii node_okD(2,3) [OF inv, of i] L in simp_all)
  then have "refine_inv n ?T"
  proof (rule refine_inv_moved [rotated 2])
    show "refine_inv n S" using inv by (simp add: log_inv_def)
    show "prefix (leaderLog S t) (leaderLog ?T t)" for t unfolding L by simp
    show "msg_ok ?T m" if mem: "m \<in> {VoteReq i j args | j. j < n \<and> j \<noteq> i}" for m
    proof -
      obtain j where "m = VoteReq i j args" using mem by blast
      then show ?thesis using sp(2,7) lpos_whole [OF b] w L by simp
    qed
  qed (use sp(7) in simp_all)
  moreover have "view ?T = (demote i (a_term (view S) i + 1) True False (view S))
      \<lparr>a_votes := insert (i, a_term (view S) i + 1, i) (a_votes (view S))\<rparr>"
  proof -
    have "(a_log (view S))(i := wholeLog (leaderLog S) rf) = a_log (view S)"
      "(a_commit (view S))(i := nat (commitIndex rf)) = a_commit (view S)"
      by (rule fun_upd_idem; simp add: w sp(9))+
    moreover have e: "\<Union>(ack_of ` {VoteReq i j args | j. j < n \<and> j \<noteq> i}) = {}"
      "\<Union>(known_of ` {VoteReq i j args | j. j < n \<and> j \<noteq> i}) = {}" by auto
    moreover have "{(j, t, c). (j, t, int c) \<in> cast ?T} =
        insert (i, a_term (view S) i + 1, i) (a_votes (view S))"
      using sp(7,8) me by auto
    ultimately show ?thesis unfolding view_moved [OF L el] e using sp(6,7) by (intro araft.equality) simp_all
  qed
  ultimately show ?thesis using astep.stand [OF i, of "view S"] by (simp only: refines_def)
qed

lemma observe_vote [simp]:
  "keeps_vote rf (observeTerm ck t rf)" "keeps_vote rf (raised t rf)" "keeps_vote rf rf"
  "keeps_vote rf (stepDown ck t rf)"
  by (auto simp: keeps_vote_def observeTerm_def raised_def frame_simps)

lemma vote_refines:
  assumes inv: "log_inv n S" and m: "VoteReq i j args \<in> net S"
    and rv: "RequestVote ck args (nodes S j) = Some (r, rf)"
  shows "refines n S (moveTo j rf {VoteRep i j args r} S)"
proof -
  let ?rf = "nodes S j" and ?T = "moveTo j rf {VoteRep i j args r} S"
  have w: "i < n" "j < n" "i \<noteq> j" "rv_CandidateID args = int i"
    using election_inv_wfD(2) [OF log_invD(1) [OF inv] m] by auto
  have b: "based (leaderLog S) ?rf" by (rule node_okD(1) [OF inv])
  have wf: "rlog ?rf \<noteq> []" "persisted ?rf"
    using election_inv_wfD(1) [OF log_invD(1) [OF inv] w(2)] by (simp_all add: wf_raft_def)
  note s = RequestVote_steps [OF rv wf]
  have up: "currentTerm ?rf \<le> currentTerm rf" using s(2) by (simp add: vote_step_def)
  have lii: "lastIncludedIndex rf = lastIncludedIndex ?rf" using s(1) by (simp add: keeps_log_def)
  have whole: "wholeLog (leaderLog S) rf = wholeLog (leaderLog S) ?rf" "based (leaderLog S) rf"
    using whole_cong [OF s(1)] b by simp_all
  have idx: "lastIncludedIndex rf \<le> lastApplied rf" "lastApplied rf \<le> commitIndex rf"
    using s(6,7) lii node_okD(2,3) [OF inv, of j] by simp_all
  have match: "matchIndex rf ! p \<le> 0 \<or> (p, currentTerm rf, nat (matchIndex rf ! p)) \<in> \<Union>(ack_of ` net S)"
    if "role rf = Leader" "p < n" "p \<noteq> j" for p
    using node_okD(5) [OF inv _ that(2,3)] s(3,9) that(1) by (simp add: no_new_leader_def)
  show ?thesis
    using rv wf(1)
  proof (cases rule: RequestVote_cases)
    case granted
    have v: "votedFor rf = int i" "currentTerm rf = rv_Term args" using granted(1,2) w(4) by (simp_all add: frame_simps)
    have L: "leaderLog ?T = leaderLog S" and el: "elected ?T = elected S"
      by (rule moved_leader_log [OF inv w(2) s(3)]; rule whole(1))+
    have "node_ok n ?T j" by (rule node_ok_moved) (use whole(2) idx match L in simp_all)
    then have R: "refine_inv n ?T"
    proof (rule refine_inv_moved [rotated 2])
      show "refine_inv n S" using inv by (simp add: log_inv_def)
      show "prefix (leaderLog S t) (leaderLog ?T t)" for t unfolding L by simp
    qed (use up whole s(4) in \<open>simp_all add: no_new_candidate_def\<close>)
    have V: "view ?T = (demote j (rv_Term args) (role rf = Candidate) (role rf = Leader) (view S))
        \<lparr>a_votes := insert (j, rv_Term args, i) (a_votes (view S))\<rparr>"
    proof -
      have "(a_log (view S))(j := wholeLog (leaderLog S) rf) = a_log (view S)"
        "(a_commit (view S))(j := nat (commitIndex rf)) = a_commit (view S)"
        by (rule fun_upd_idem; simp add: whole s(6))+
      moreover have "{(k, t, c). (k, t, int c) \<in> cast ?T} = insert (j, rv_Term args, i) (a_votes (view S))"
        using v by auto
      ultimately show ?thesis unfolding view_moved [OF L el] using v(2) by (intro araft.equality) simp_all
    qed
    have md: "may_demote j (rv_Term args) (role rf = Candidate) (role rf = Leader) (view S)"
      using may_demote_view [OF up s(3,4)] v(2) by simp
    note mo = msg_okD [OF inv m]
    have "lpos (a_log (view S) j) \<le> lpos (a_log (view S) i)"
      if "a_cand (view S) i \<and> a_term (view S) i = rv_Term args"
      using granted(6) mo that lpos_whole [OF b] by simp
    with astep.grant [OF w(2,1) _ md] w(3) mo have "astep n (view S) (view ?T)" unfolding V by simp
    with R show ?thesis by (simp add: refines_def)
  qed (rule refines_quiet [OF inv w(2) up s(3,4) _ whole(2,1) idx _ match]; use s(6) in simp)+
qed

text \<open>Winning: the votes counted are a majority's, and nobody was elected for the term before.\<close>

lemma win_refines:
  assumes inv: "log_inv n S" and i: "i < n" and c: "role (nodes S i) = Candidate"
    and Q: "majority n Q" "\<forall>j\<in>Q. (j, currentTerm (nodes S i), int i) \<in> cast S"
    and rf: "rf = (nodes S i)\<lparr>role := Leader, nextIndex := ns, matchIndex := replicate n 0\<rparr>"
  shows "refines n S (moveTo i rf {} S)" (is "refines n S ?T")
proof -
  let ?t = "currentTerm (nodes S i)" and ?L = "leaderLog S"
  note s = log_invD(2) [OF inv] and e = log_invD(1) [OF inv]
  have b: "based ?L (nodes S k)" for k by (rule node_okD(1) [OF inv])
  have none: "(?t, k) \<notin> elected S" for k
  proof
    assume k: "(?t, k) \<in> elected S"
    then obtain R where "majority n R" "\<forall>j\<in>R. (j, ?t, int k) \<in> cast S"
      using e unfolding election_inv_def leader_inv_def by blast
    moreover have "c = c'" if "(j, t, c) \<in> cast S" "(j, t, c') \<in> cast S" for j t c c'
      using e that unfolding election_inv_def cast_inv_def by blast
    ultimately have "int k = int i" using maj.meet [of n R Q] Q by blast
    with k safeD(7) [OF s, of i] c show False by simp
  qed
  have empty: "?L ?t = []" using not_elected(1) [OF s, of ?t] none by simp
  have w: "wholeLog ?L rf = wholeLog ?L (nodes S i)" and br: "based ?L rf"
    using b [of i] by (simp_all add: rf wholeLog_def based_def)
  have L: "leaderLog ?T = ?L(?t := wholeLog ?L (nodes S i))" using w by (simp add: rf)
  have grow: "prefix (?L t) (leaderLog ?T t)" for t unfolding L using empty by simp
  note keep = based_grow [OF _ grow]
  have cast: "cast ?T = cast S" using moved_cast [OF inv, of i rf "{}"] by (simp add: rf keeps_vote_def)
  have "node_ok n ?T i"
    by (rule node_ok_moved [OF keep(1) [OF br]]) (use node_okD(2,3) [OF inv, of i] in \<open>simp_all add: rf\<close>)
  then have "refine_inv n ?T"
  proof (rule refine_inv_moved [rotated 2])
    show "refine_inv n S" using inv by (simp add: log_inv_def)
  qed (use grow in \<open>simp_all add: rf\<close>)
  moreover have "view ?T = (demote i (a_term (view S) i) False True (view S))
      \<lparr>a_elected := insert (a_term (view S) i, i) (a_elected (view S)),
       a_leader := (a_leader (view S))(a_term (view S) i := a_log (view S) i)\<rparr>"
  proof (rule araft.equality)
    have "wholeLog (leaderLog ?T) (nodes ?T k) = wholeLog ?L (nodes S k)" for k
      using keep(2) [OF b [of k]] keep(2) [OF br] w by (cases "k = i") (simp_all del: moveTo_simps(7))
    then show "a_log (view ?T) = a_log ((demote i (a_term (view S) i) False True (view S))
      \<lparr>a_elected := insert (a_term (view S) i, i) (a_elected (view S)),
       a_leader := (a_leader (view S))(a_term (view S) i := a_log (view S) i)\<rparr>)"
      by (simp add: view_def del: moveTo_simps(7))
    show "a_leader (view ?T) = a_leader ((demote i (a_term (view S) i) False True (view S))
      \<lparr>a_elected := insert (a_term (view S) i, i) (a_elected (view S)),
       a_leader := (a_leader (view S))(a_term (view S) i := a_log (view S) i)\<rparr>)"
      using L by (simp del: moveTo_simps(7))
    show "a_votes (view ?T) = a_votes ((demote i (a_term (view S) i) False True (view S))
      \<lparr>a_elected := insert (a_term (view S) i, i) (a_elected (view S)),
       a_leader := (a_leader (view S))(a_term (view S) i := a_log (view S) i)\<rparr>)"
      unfolding view_def cast by (simp add: demote_def)
  qed (auto simp: view_def demote_def rf fun_eq_iff)
  moreover have "astep n (view S) ((demote i (a_term (view S) i) False True (view S))
      \<lparr>a_elected := insert (a_term (view S) i, i) (a_elected (view S)),
       a_leader := (a_leader (view S))(a_term (view S) i := a_log (view S) i)\<rparr>)"
    by (rule astep.win [OF i _ Q(1)]) (use c Q(2) none in simp_all)
  ultimately show ?thesis by (simp only: refines_def)
qed

lemma vote_reply_refines:
  assumes inv: "log_inv n S" and m: "VoteRep i j args r \<in> net S"
    and el: "elections S i (rv_Term args) = Some (el, W)" and j: "j \<in> W"
    and hv: "handleVoteReply ck r el (nodes S i) = Some (el', rf)"
  shows "refines n S (moveTo i rf {} S)"
proof -
  let ?t = "rv_Term args"
  note e = log_invD(1) [OF inv]
  have i: "i < n" and cnt: "counted n (cast S) i ?t (el, W)" using election_inv_tallyD [OF e el] by auto
  have wf: "wf_raft n i (nodes S i)" using e i by (rule election_inv_wfD)
  then have lens: "length (nextIndex (nodes S i)) = length (peers (nodes S i))"
    "length (matchIndex (nodes S i)) = length (peers (nodes S i))" and n: "length (peers (nodes S i)) = n"
    by (auto simp: wf_raft_def)
  have Q: "refines n S (moveTo i rf {} S)" if "rf = nodes S i"
    by (rule refines_kept [OF inv i]) (simp_all add: that)
  from hv lens show ?thesis
  proof (cases rule: handleVoteReply_cases)
    case won
    have grant: "rvr_VoteGranted r \<Longrightarrow> (j, ?t, int i) \<in> cast S"
      using e m by (auto simp: election_inv_def grant_inv_def)
    have step: "el' = el \<or> el' = el\<lparr>el_votes := el_votes el + 1\<rparr> \<and> (j, ?t, int i) \<in> cast S"
      using won grant by simp
    have "int (n div 2) < el_votes el'" using won n by simp
    from counted_majority [OF counted_reply [OF cnt j step] i this]
    obtain Q where "majority n Q" "\<forall>v\<in>Q. (v, ?t, int i) \<in> cast S" by blast
    then have "\<forall>v\<in>Q. (v, currentTerm (nodes S i), int i) \<in> cast S" and Q: "majority n Q"
      using cnt won(2) by (simp_all add: counted_def)
    from win_refines [OF inv i won(1) Q this(1)] won(6) show ?thesis unfolding n by blast
  next
    case outdated
    show ?thesis by (rule refines_kept [OF inv i]) (use outdated in \<open>simp_all add: step_defs\<close>)
  qed (use Q in simp_all)
qed

subsection \<open>Replication\<close>

text \<open>Sending only makes a commit index known.\<close>

lemma send_refines:
  assumes inv: "log_inv n S" and i: "i < n" and ld: "role (nodes S i) = Leader"
    and m: "msg_ok S m" "ack_of m = {}" "known_of m = {(currentTerm (nodes S i), k)}"
      "k \<le> nat (commitIndex (nodes S i))"
  shows "refines n S (S\<lparr>net := net S \<union> {m}\<rparr>)" (is "refines n S ?T")
proof -
  have "msg_ok ?T x = msg_ok S x" for x by (cases x) simp_all
  moreover have "node_ok n ?T x" if "node_ok n S x" for x
    by (rule node_ok_mono [OF that]) (use node_okD(1) [OF inv] in auto)
  ultimately have "refine_inv n ?T" using inv m(1) by (auto simp: log_inv_def refine_inv_def)
  moreover have "view ?T = (view S)\<lparr>a_known := insert (a_term (view S) i, k) (a_known (view S))\<rparr>"
    using m(2,3) by (intro araft.equality) (auto simp: view_def)
  moreover have "astep n (view S) ((view S)\<lparr>a_known := insert (a_term (view S) i, k) (a_known (view S))\<rparr>)"
    by (rule astep.publish [OF i]) (use ld m(4) in simp_all)
  ultimately show ?thesis by (simp only: refines_def)
qed

lemma leader_facts:
  assumes "log_inv n S" and "i < n" and "role (nodes S i) = Leader"
  shows "(currentTerm (nodes S i), i) \<in> elected S"
    and "wholeLog (leaderLog S) (nodes S i) = leaderLog S (currentTerm (nodes S i))"
  using safeD(11,12) [OF log_invD(2) [OF assms(1)] assms(2)] assms(3) by simp_all

lemma send_append_refines:
  assumes inv: "log_inv n S" and i: "i < n"
    and sd: "sendAppendEntriesToPeer j term (nodes S i) = Some (Some args)"
  shows "refines n S (S\<lparr>net := net S \<union> {AppendReq i j args}\<rparr>)"
proof -
  let ?rf = "nodes S i" and ?p = "ae_PrevLogIndex args" and ?L = "leaderLog S (currentTerm (nodes S i))"
  have b: "based (leaderLog S) ?rf" by (rule node_okD(1) [OF inv])
  then have "rlog ?rf \<noteq> []" "0 \<le> lastIncludedIndex ?rf" by (simp_all add: based_def)
  note sp = sendAppend_spec [OF sd this(1)]
  note ld = leader_facts [OF inv i sp(1)]
  have p: "0 \<le> ?p" "nat ?p \<le> length ?L"
    using sp(6,7) wholeLog_last [OF b] ld(2) \<open>0 \<le> lastIncludedIndex ?rf\<close> by simp_all
  have es: "ae_Entries args = drop (nat ?p) ?L"
    using sp(9) drop_whole [OF b sp(6)] ld(2) by simp
  have "nat (commitIndex ?rf) \<le> length ?L" "0 \<le> commitIndex ?rf"
    using commitD(1) [OF log_invD(2) [OF inv] i] ld(2) node_okD(2,3) [OF inv, of i]
      \<open>0 \<le> lastIncludedIndex ?rf\<close> by simp_all
  then have "msg_ok S (AppendReq i j args)"
    using ld(1) p es sp(2-5,8) term_at_whole [OF b sp(6,7)] ld(2) by (simp add: Let_def)
  then show ?thesis
    by (rule send_refines [OF inv i sp(1), of _ "nat (commitIndex ?rf)"]) (use sp(2,3,5) in simp_all)
qed

lemma send_snapshot_refines:
  assumes inv: "log_inv n S" and i: "i < n" and sd: "sendSnapshotToPeer term (nodes S i) = Some args"
  shows "refines n S (S\<lparr>net := net S \<union> {SnapReq i j args}\<rparr>)"
proof -
  let ?rf = "nodes S i"
  note sp = sendSnapshot_spec [OF sd] and ld = leader_facts [OF inv i sendSnapshot_spec(1) [OF sd]]
  have b: "based (leaderLog S) ?rf" by (rule node_okD(1) [OF inv])
  have le: "nat (lastIncludedIndex ?rf) \<le> nat (commitIndex ?rf)"
    using node_okD(2,3) [OF inv, of i] by simp
  have "term_at (lastIncludedIndex ?rf) ?rf = lastIncludedTerm ?rf" by (simp add: term_at_def)
  moreover have "lastIncludedIndex ?rf \<le> getLastLogIndex ?rf"
    by (rule lastIncluded_le_last) (use b in \<open>simp add: based_def\<close>)
  ultimately have "msg_ok S (SnapReq i j args)"
    using ld sp(2-6) b lastIncluded_le_whole [OF b] term_at_whole [OF b order_refl]
    by (simp add: Let_def based_def)
  then show ?thesis
    by (rule send_refines [OF inv i sp(1), of _ "nat (lastIncludedIndex ?rf)"]) (use sp(2,3,5) le in simp_all)
qed

text \<open>A peer that hears the leader of a term it may join is a follower afterwards.\<close>

lemma hears_leader:
  assumes inv: "log_inv n S" and ij: "i < n" "j < n" "i \<noteq> j" and el: "(t, i) \<in> elected S"
    and le: "currentTerm (nodes S j) \<le> t"
  shows "role (observeTerm ck t (nodes S j)) = Follower" and "(t, j) \<notin> elected S"
    and "currentTerm (observeTerm ck t (nodes S j)) = t"
proof -
  show no: "(t, j) \<notin> elected S" using safeD(8) [OF log_invD(2) [OF inv]] el ij(3) by auto
  show "role (observeTerm ck t (nodes S j)) = Follower"
    using leader_facts(1) [OF inv ij(2)] no le
    by (cases "role (nodes S j)") (auto simp: observeTerm_role)
  show "currentTerm (observeTerm ck t (nodes S j)) = t" using le by simp
qed

lemma goods:
  assumes "log_inv n S"
  shows "i < n \<Longrightarrow> good (leaderLog S) (currentTerm (nodes S i)) (wholeLog (leaderLog S) (nodes S i))"
    "good (leaderLog S) t (leaderLog S t)"
  using safeD(1,2) [OF log_invD(2) [OF assms]] by simp_all

lemma append_refines:
  assumes inv: "log_inv n S" and m: "AppendReq i j args \<in> net S"
    and ae: "AppendEntries ck args (nodes S j) = Some (r, rf)"
  shows "refines n S (moveTo j rf {AppendRep i j args r} S)"
proof -
  let ?rf = "nodes S j" and ?t = "ae_Term args" and ?L = "leaderLog S (ae_Term args)"
  let ?p = "nat (ae_PrevLogIndex args)" and ?len = "length (ae_Entries args)"
  have ij: "i < n" "j < n" "i \<noteq> j" using election_inv_wfD(2) [OF log_invD(1) [OF inv] m] by auto
  have b: "based (leaderLog S) ?rf" by (rule node_okD(1) [OF inv])
  have mo: "(?t, i) \<in> elected S" "0 \<le> ae_PrevLogIndex args" "?p + ?len \<le> length ?L"
    "ae_Entries args = take ?len (drop ?p ?L)" "ae_PrevLogTerm args = lterm ?L ?p"
    "ae_LeaderCommit args \<le> int (?p + ?len)"
    using msg_okD [OF inv m] unfolding msg_ok.simps Let_def by blast+
  from ae show ?thesis
  proof (cases rule: AppendEntries_cases)
    case old
    show ?thesis by (rule refines_kept [OF inv ij(2)]) (use old in simp_all)
  next
    case rejected
    show ?thesis by (rule refines_kept [OF inv ij(2)]) (use rejected in simp_all)
  next
    case accepted
    note h = hears_leader(1) [OF inv ij mo(1) accepted(1), of ck] hears_leader(2) [OF inv ij mo(1) accepted(1)]
      hears_leader(3) [OF inv ij mo(1) accepted(1), of ck]
    have f: "rlog rf = mergedLog args ?rf" "lastIncludedIndex rf = lastIncludedIndex ?rf"
      "lastIncludedTerm rf = lastIncludedTerm ?rf" "currentTerm rf = ?t" "role rf = Follower"
      "lastApplied rf = lastApplied ?rf" "votedFor rf = votedFor (observeTerm ck ?t ?rf)"
      using accepted(7) h by simp_all
    have "lterm (wholeLog (leaderLog S) ?rf) ?p = lterm ?L ?p"
      using term_at_whole [OF b accepted(4,5)] accepted(6) mo(5) by simp
    moreover have "?p \<le> length (wholeLog (leaderLog S) ?rf)" using accepted(5) wholeLog_last [OF b] by simp
    ultimately have "agree ?p (wholeLog (leaderLog S) ?rf) ?L"
      using mo(3) by (intro same_term_agree [OF goods(1) [OF inv ij(2)] goods(2) [OF inv]]) simp_all
    note mf = merge_follow [OF goods(1) [OF inv ij(2)] goods(2) [OF inv] this mo(3)]
    note wm = whole_merged [OF b accepted(4,5) f(1-3)]
    have w: "wholeLog (leaderLog S) rf = follow (?p + ?len) ?L (wholeLog (leaderLog S) ?rf)"
      using wm(1) mf mo(4) by simp
    have "?p + ?len \<le> length (wholeLog (leaderLog S) rf)"
      using agree_length(1) [OF follow_agree [OF mo(3), of "wholeLog (leaderLog S) ?rf"]] w by simp
    then have "ae_LeaderCommit args \<le> getLastLogIndex rf" using mo(2,6) wholeLog_last [OF wm(2)] by linarith
    then have c: "commitIndex rf = max (commitIndex ?rf) (ae_LeaderCommit args)"
      using accepted(7) by (simp add: getLastLogIndex_def f(1,2))
    have nl: "no_new_leader ?rf rf" and nc: "no_new_candidate ?rf rf"
      by (simp_all add: no_new_leader_def no_new_candidate_def f(5))
    have kv: "keeps_vote ?rf rf" using observe_vote(1) [of ?rf ck ?t] h(3) f(4,7) by (simp add: keeps_vote_def)
    have R: "refine_inv n (moveTo j rf {AppendRep i j args r} S)"
      by (rule refines_moved(1) [OF inv ij(2) _ nl nc kv wm(2)])
         (use f accepted(1) node_okD(2,3) [OF inv, of j] c in simp_all)
    have V: "view (moveTo j rf {AppendRep i j args r} S) = (demote j ?t False False (view S))
        \<lparr>a_log := (a_log (view S))(j := follow (?p + ?len) ?L (a_log (view S) j)),
         a_commit := (a_commit (view S))(j := nat (commitIndex rf)),
         a_acks := a_acks (view S) \<union> {(j, ?t, k) | k. k \<le> ?p + ?len}\<rparr>"
    proof -
      have "\<Union>(ack_of ` {AppendRep i j args r}) = {(j, ?t, k) | k. k \<le> ?p + ?len}"
        using accepted(2) mo(2) by auto
      moreover have "view (moveTo j rf {AppendRep i j args r} S) =
          (demote j (currentTerm rf) (role rf = Candidate) (role rf = Leader) (view S))
         \<lparr>a_log := (a_log (view S))(j := wholeLog (leaderLog S) rf),
          a_commit := (a_commit (view S))(j := nat (commitIndex rf)),
          a_acks := a_acks (view S) \<union> \<Union>(ack_of ` {AppendRep i j args r}),
          a_known := a_known (view S) \<union> \<Union>(known_of ` {AppendRep i j args r})\<rparr>"
        by (rule refines_moved(2) [OF inv ij(2) _ nl nc kv wm(2)])
           (use f accepted(1) node_okD(2,3) [OF inv, of j] c in simp_all)
      ultimately show ?thesis using f(4,5) w by (intro araft.equality) (simp_all del: ack_of.simps)
    qed
    have "(?t, nat (ae_LeaderCommit args)) \<in> a_known (view S)" using m by force
    then have "nat (commitIndex rf) = a_commit (view S) j \<or>
        nat (commitIndex rf) \<le> ?p + ?len \<and> (?t, nat (commitIndex rf)) \<in> a_known (view S)"
      using c mo(2,6) by (cases "commitIndex ?rf < ae_LeaderCommit args") (simp_all add: max_def nat_le_iff)
    then have "astep n (view S) (view (moveTo j rf {AppendRep i j args r} S))"
      unfolding V using astep.follow [OF ij(2), of ?t i "view S" "?p + ?len" "nat (commitIndex rf)"]
        mo(1,3) h(2) accepted(1) by (simp add: may_demote_def)
    with R show ?thesis by (simp add: refines_def)
  qed
qed

text \<open>What the two kinds of reply record was acknowledged.\<close>

lemma acks_down:
  "(j, t, m) \<in> \<Union>(ack_of ` N) \<Longrightarrow> k \<le> m \<Longrightarrow> (j, t, k) \<in> \<Union>(ack_of ` N)"
proof -
  have "(j, t, m) \<in> ack_of x \<Longrightarrow> k \<le> m \<Longrightarrow> (j, t, k) \<in> ack_of x" for x by (cases x) (auto split: if_splits)
  then show "(j, t, m) \<in> \<Union>(ack_of ` N) \<Longrightarrow> k \<le> m \<Longrightarrow> (j, t, k) \<in> \<Union>(ack_of ` N)" by blast
qed

lemma match_recorded:
  assumes inv: "log_inv n S" and i: "i < n" and j: "j < n" and ld: "role (nodes S i) = Leader"
    and new: "m \<le> 0 \<or> (j, currentTerm (nodes S i), nat m) \<in> \<Union>(ack_of ` net S)"
    and p: "p < n" "p \<noteq> i"
  shows "matchIndex (recordMatch j m (nodes S i)) ! p \<le> 0 \<or>
    (p, currentTerm (nodes S i), nat (matchIndex (recordMatch j m (nodes S i)) ! p)) \<in> \<Union>(ack_of ` net S)"
proof -
  have "length (matchIndex (nodes S i)) = n"
    using election_inv_wfD(1) [OF log_invD(1) [OF inv] i] by (simp add: wf_raft_def)
  then have "matchIndex (recordMatch j m (nodes S i)) ! p =
      (if p = j then max m (matchIndex (nodes S i) ! p) else matchIndex (nodes S i) ! p)"
    using j by (simp add: recordMatch_def nth_list_update)
  with new node_okD(5) [OF inv ld p] show ?thesis by (auto simp: max_def)
qed

lemma recorded_refines:
  assumes inv: "log_inv n S" and i: "i < n" and j: "j < n" and ld: "role (nodes S i) = Leader"
    and new: "m \<le> 0 \<or> (j, currentTerm (nodes S i), nat m) \<in> \<Union>(ack_of ` net S)"
  shows "refines n S (moveTo i (recordMatch j m (nodes S i)) {} S)"
proof (rule refines_quiet [OF inv i])
  have k: "keeps_log (nodes S i) (recordMatch j m (nodes S i))" by (simp add: keeps_log_def)
  from whole_cong [OF k] node_okD(1) [OF inv, of i] show "based (leaderLog S) (recordMatch j m (nodes S i))"
    "wholeLog (leaderLog S) (recordMatch j m (nodes S i)) = wholeLog (leaderLog S) (nodes S i)" by simp_all
  show "matchIndex (recordMatch j m (nodes S i)) ! p \<le> 0 \<or> (p, currentTerm (recordMatch j m (nodes S i)),
      nat (matchIndex (recordMatch j m (nodes S i)) ! p)) \<in> \<Union>(ack_of ` net S)"
    if "p < n" "p \<noteq> i" for p
    using match_recorded [OF inv i j ld new that] by simp
qed (use node_okD(2,3) [OF inv, of i] in \<open>simp_all add: step_defs keeps_vote_def\<close>)

lemma append_reply_refines:
  assumes inv: "log_inv n (S :: 'c cluster)" and m: "AppendRep i j args r \<in> net S"
    and hr: "handleAppendReply ck j (ae_Term args) args r (nodes S i) = Some rf"
  shows "refines n S (moveTo i rf {} S)"
proof -
  let ?rf = "nodes S i"
  note e = log_invD(1) [OF inv]
  have ij: "i < n" "j < n" "i \<noteq> j" using election_inv_wfD(2) [OF e m] by auto
  have wf: "wf_raft n i ?rf" using e ij(1) by (rule election_inv_wfD)
  then have lens: "j < length (peers ?rf)" "length (nextIndex ?rf) = length (peers ?rf)"
    "length (matchIndex ?rf) = length (peers ?rf)" and n: "length (peers ?rf) = n" and me: "me ?rf = int i"
    using ij by (auto simp: wf_raft_def)
  have b: "based (leaderLog S) ?rf" by (rule node_okD(1) [OF inv])
  have lc: "lastIncludedIndex ?rf \<le> commitIndex ?rf" using node_okD(2,3) [OF inv, of i] by simp
  have new: "k \<le> 0 \<or> (j, currentTerm ?rf, nat k) \<in> \<Union>(ack_of ` net S)"
    if "currentTerm ?rf = ae_Term args" "aer_Success r" "k = ae_PrevLogIndex args + int (length (ae_Entries args))" for k
  proof -
    have "k \<le> 0 \<or> (j, currentTerm ?rf, nat k) \<in> ack_of (AppendRep i j args r)" using that by simp
    with m show ?thesis by blast
  qed
  from hr lens lc show ?thesis
  proof (cases rule: handleAppendReply_cases)
    case ignored
    show ?thesis by (rule refines_kept [OF inv ij(1)]) (use ignored in simp_all)
  next
    case outdated
    show ?thesis by (rule refines_kept [OF inv ij(1)]) (use outdated in \<open>simp_all add: step_defs\<close>)
  next
    case (backed ni)
    show ?thesis by (rule refines_kept [OF inv ij(1)]) (use backed in \<open>simp_all add: step_defs keeps_vote_def\<close>)
  next
    case (accepted k)
    from recorded_refines [OF inv ij(1,2) accepted(1) new [OF accepted(2-4)]] accepted(5) show ?thesis by simp
  next
    case (committed k c)
    let ?rf1 = "recordMatch j k ?rf" and ?t = "currentTerm ?rf"
    note rec = match_recorded [OF inv ij(1,2) committed(1) new [OF committed(2-4)]]
    note ld = leader_facts [OF inv ij(1) committed(1)]
    have c0: "0 < c" using committed(6) lc wf by (simp add: wf_raft_def)
    have kl: "keeps_log ?rf rf" and w: "wholeLog (leaderLog S) rf = wholeLog (leaderLog S) ?rf"
      using committed(5) whole_cong(1) [of ?rf rf] by (simp_all add: keeps_log_def)
    have br: "based (leaderLog S) rf" using whole_cong(2) [OF kl] b by simp
    have steps: "no_new_leader ?rf rf" "no_new_candidate ?rf rf" "keeps_vote ?rf rf" "currentTerm rf = ?t"
      "role rf = Leader"
      using committed(1,5) by (simp_all add: step_defs keeps_vote_def)
    have R: "refine_inv n (moveTo i rf {} S)"
      by (rule refines_moved(1) [OF inv ij(1) _ steps(1-3) br])
         (use steps w committed(5,6) node_okD(2,3) [OF inv, of i] rec in simp_all)
    have V0: "view (moveTo i rf {} S) = (demote i (currentTerm rf) (role rf = Candidate) (role rf = Leader) (view S))
       \<lparr>a_log := (a_log (view S))(i := wholeLog (leaderLog S) rf),
        a_commit := (a_commit (view S))(i := nat (commitIndex rf)),
        a_acks := a_acks (view S) \<union> \<Union>(ack_of ` ({} :: 'c msg set)),
        a_known := a_known (view S) \<union> \<Union>(known_of ` ({} :: 'c msg set))\<rparr>"
      by (rule refines_moved(2) [OF inv ij(1) _ steps(1-3) br])
         (use steps w committed(5,6) node_okD(2,3) [OF inv, of i] rec in simp_all)
    have V: "view (moveTo i rf {} S) = (view S)\<lparr>a_commit := (a_commit (view S))(i := nat c)\<rparr>"
      unfolding V0 using steps(4,5) w committed(1,5)
      by (intro araft.equality) (auto simp: fun_eq_iff)
    let ?M = "matchers c ?rf1"
    have M: "?M \<subseteq> {..<n}" "i \<notin> ?M" using n me by (auto simp: matchers_def)
    then have "card (insert i ?M) = Suc (card ?M)" by (simp add: finite_subset)
    with committed(9) M ij(1) n have Q: "majority n (insert i ?M)" by (simp add: majority_def)
    have "acked (view S) p ?t (nat c)" if "p \<in> insert i ?M" for p
    proof (cases "p = i")
      case True
      with ld committed(7) wholeLog_last [OF b] show ?thesis by (simp add: acked_def nat_le_iff)
    next
      case False
      with that have p: "p < n" "c \<le> matchIndex ?rf1 ! p" using M(1) by (auto simp: matchers_def)
      with rec [OF p(1) False] c0 have "(p, ?t, nat (matchIndex ?rf1 ! p)) \<in> \<Union>(ack_of ` net S)" by auto
      from acks_down [OF this nat_mono [OF p(2)]] show ?thesis by (simp add: acked_def)
    qed
    then have "astep n (view S) (view (moveTo i rf {} S))"
      unfolding V using committed(1,6-8) c0 wholeLog_last [OF b] term_at_whole [OF b, of c] lc
      by (intro astep.commit [OF ij(1) _ _ _ _ Q]) simp_all
    with R show ?thesis by (simp add: refines_def)
  qed
qed

lemma snapshot_reply_refines:
  assumes inv: "log_inv n S" and m: "SnapRep i j args r \<in> net S"
    and hr: "handleSnapshotReply ck j (is_Term args) args r (nodes S i) = Some rf"
  shows "refines n S (moveTo i rf {} S)"
proof -
  let ?rf = "nodes S i"
  note e = log_invD(1) [OF inv]
  have ij: "i < n" "j < n" "i \<noteq> j" using election_inv_wfD(2) [OF e m] by auto
  have "wf_raft n i ?rf" using e ij(1) by (rule election_inv_wfD)
  then have lens: "j < length (peers ?rf)" "length (nextIndex ?rf) = length (peers ?rf)"
    "length (matchIndex ?rf) = length (peers ?rf)"
    using ij by (auto simp: wf_raft_def)
  from hr lens show ?thesis
  proof (cases rule: handleSnapshotReply_cases)
    case ignored
    show ?thesis by (rule refines_kept [OF inv ij(1)]) (use ignored in simp_all)
  next
    case outdated
    show ?thesis by (rule refines_kept [OF inv ij(1)]) (use outdated in \<open>simp_all add: step_defs\<close>)
  next
    case accepted
    have "is_LastIncludedIndex args \<le> 0 \<or>
        (j, currentTerm ?rf, nat (is_LastIncludedIndex args)) \<in> \<Union>(ack_of ` net S)"
    proof -
      have "is_LastIncludedIndex args \<le> 0 \<or>
          (j, currentTerm ?rf, nat (is_LastIncludedIndex args)) \<in> ack_of (SnapRep i j args r)"
        using accepted(2,3) by simp
      with m show ?thesis by blast
    qed
    from recorded_refines [OF inv ij(1,2) accepted(1) this] accepted(4) show ?thesis by simp
  qed
qed

lemma install_refines:
  assumes inv: "log_inv n S" and m: "SnapReq i j args \<in> net S"
    and ins: "InstallSnapshot ck args (nodes S j) = Some (r, rf)"
  shows "refines n S (moveTo j rf {SnapRep i j args r} S)"
proof -
  let ?rf = "nodes S j" and ?t = "is_Term args" and ?L = "leaderLog S (is_Term args)"
  let ?s = "nat (is_LastIncludedIndex args)"
  have ij: "i < n" "j < n" "i \<noteq> j" using election_inv_wfD(2) [OF log_invD(1) [OF inv] m] by auto
  have b: "based (leaderLog S) ?rf" by (rule node_okD(1) [OF inv])
  have mo: "(?t, i) \<in> elected S" "0 \<le> is_LastIncludedIndex args" "?s \<le> length ?L"
    "lterm ?L ?s = is_LastIncludedTerm args"
    using msg_okD [OF inv m] unfolding msg_ok.simps Let_def by blast+
  have kn: "(?t, ?s) \<in> a_known (view S)" using m by force
  have acks: "\<Union>(ack_of ` {SnapRep i j args r}) = {(j, ?t, k) | k. k \<le> ?s}" if "isr_Term r \<le> ?t"
    using that mo(2) by (auto simp: le_nat_iff)
  from ins show ?thesis
  proof (cases rule: InstallSnapshot_cases)
    case old
    show ?thesis by (rule refines_kept [OF inv ij(2)]) (use old in simp_all)
  next
    case known
    note h = hears_leader(1) [OF inv ij mo(1) known(1), of ck] hears_leader(2) [OF inv ij mo(1) known(1)]
      hears_leader(3) [OF inv ij mo(1) known(1), of ck]
    have f: "role rf = Follower" "currentTerm rf = ?t" "lastIncludedIndex rf = lastIncludedIndex ?rf"
      "lastApplied rf = lastApplied ?rf" "commitIndex rf = commitIndex ?rf" using known(3) h by simp_all
    have steps: "no_new_leader ?rf rf" "no_new_candidate ?rf rf" "keeps_vote ?rf rf"
      using known(3) by simp_all
    have w: "wholeLog (leaderLog S) rf = wholeLog (leaderLog S) ?rf" "based (leaderLog S) rf"
      using known(3) whole_cong [of ?rf rf] b by simp_all
    note ok = node_okD(2,3) [OF inv, of j]
    have R: "refine_inv n (moveTo j rf {SnapRep i j args r} S)"
      by (rule refines_moved(1) [OF inv ij(2) _ steps w(2)]) (use f known(1) ok in simp_all)
    have V0: "view (moveTo j rf {SnapRep i j args r} S) =
        (demote j (currentTerm rf) (role rf = Candidate) (role rf = Leader) (view S))
       \<lparr>a_log := (a_log (view S))(j := wholeLog (leaderLog S) rf),
        a_commit := (a_commit (view S))(j := nat (commitIndex rf)),
        a_acks := a_acks (view S) \<union> \<Union>(ack_of ` {SnapRep i j args r}),
        a_known := a_known (view S) \<union> \<Union>(known_of ` {SnapRep i j args r})\<rparr>"
      by (rule refines_moved(2) [OF inv ij(2) _ steps w(2)]) (use f known(1) ok in simp_all)
    have up: "(a_log (view S))(j := wholeLog (leaderLog S) rf) = a_log (view S)"
      "(a_commit (view S))(j := nat (commitIndex rf)) = a_commit (view S)"
      by (rule fun_upd_idem; simp add: w f)+
    have V: "view (moveTo j rf {SnapRep i j args r} S) =
        (demote j ?t False False (view S))\<lparr>a_acks := a_acks (view S) \<union> {(j, ?t, k) | k. k \<le> ?s}\<rparr>"
      unfolding V0 up using f(1,2) acks known(1,4) by (intro araft.equality) (simp_all del: ack_of.simps)
    have "?s \<le> a_commit (view S) j" using known(2) ok by simp
    then have "astep n (view S) (view (moveTo j rf {SnapRep i j args r} S))"
      unfolding V using mo(1) h(2) known(1) kn
      by (intro astep.catch [OF ij(2), of ?t i]) (simp_all add: may_demote_def)
    with R show ?thesis by (simp add: refines_def)
  next
    case installed
    note h = hears_leader(1) [OF inv ij mo(1) installed(1), of ck] hears_leader(2) [OF inv ij mo(1) installed(1)]
    have f: "role rf = Follower" using installed(12) h by simp
    have steps: "no_new_leader ?rf rf" "no_new_candidate ?rf rf" "keeps_vote ?rf rf"
      using f observe_vote(1) [of ?rf ck ?t] installed(1,10,11)
      by (simp_all add: no_new_leader_def no_new_candidate_def keeps_vote_def)
    note w = whole_install [OF b goods(1) [OF inv ij(2)] goods(2) [OF inv] installed(2) refl mo(3,4) installed(4-6)]
    note ok = node_okD(2,3) [OF inv, of j]
    have R: "refine_inv n (moveTo j rf {SnapRep i j args r} S)"
      by (rule refines_moved(1) [OF inv ij(2) _ steps w(2)]) (use f installed(1,2,5,7,8,10) ok in simp_all)
    have V0: "view (moveTo j rf {SnapRep i j args r} S) =
        (demote j (currentTerm rf) (role rf = Candidate) (role rf = Leader) (view S))
       \<lparr>a_log := (a_log (view S))(j := wholeLog (leaderLog S) rf),
        a_commit := (a_commit (view S))(j := nat (commitIndex rf)),
        a_acks := a_acks (view S) \<union> \<Union>(ack_of ` {SnapRep i j args r}),
        a_known := a_known (view S) \<union> \<Union>(known_of ` {SnapRep i j args r})\<rparr>"
      by (rule refines_moved(2) [OF inv ij(2) _ steps w(2)]) (use f installed(1,2,5,7,8,10) ok in simp_all)
    have V: "view (moveTo j rf {SnapRep i j args r} S) = (demote j ?t False False (view S))
        \<lparr>a_log := (a_log (view S))(j := follow ?s ?L (a_log (view S) j)),
         a_commit := (a_commit (view S))(j := nat (commitIndex rf)),
         a_acks := a_acks (view S) \<union> {(j, ?t, k) | k. k \<le> ?s}\<rparr>"
      unfolding V0 using f installed(1,3,10) acks w(1) by (intro araft.equality) (simp_all del: ack_of.simps)
    have "nat (commitIndex rf) = a_commit (view S) j \<or>
        nat (commitIndex rf) \<le> ?s \<and> (?t, nat (commitIndex rf)) \<in> a_known (view S)"
      using installed(7) kn by (simp add: max_def)
    then have "astep n (view S) (view (moveTo j rf {SnapRep i j args r} S))"
      unfolding V using astep.follow [OF ij(2), of ?t i "view S" ?s "nat (commitIndex rf)"]
        mo(1,3) h(2) installed(1) by (simp add: may_demote_def)
    with R show ?thesis by (simp add: refines_def)
  qed
qed

subsection \<open>A peer on its own\<close>

lemma propose_refines:
  assumes inv: "log_inv n S" and i: "i < n" and st: "Start c (nodes S i) = (res, rf)"
  shows "refines n S (moveTo i rf {} S)" (is "refines n S ?T")
proof (cases "role (nodes S i) = Leader")
  case False
  then have "rf = nodes S i" using st by (simp add: Start_def Let_def)
  then show ?thesis by (intro refines_kept [OF inv i]) simp_all
next
  case ld: True
  let ?rf = "nodes S i" and ?t = "currentTerm (nodes S i)" and ?L = "leaderLog S"
  define e where "e = \<lparr>le_Term = ?t, le_Index = getLastLogIndex ?rf + 1, le_Command = Some c\<rparr>"
  have rf: "rf = persist (?rf\<lparr>rlog := rlog ?rf @ [e]\<rparr>)" using st ld by (auto simp: Start_def Let_def e_def)
  have b: "based ?L (nodes S k)" for k by (rule node_okD(1) [OF inv])
  then have "rlog ?rf \<noteq> []" by (simp add: based_def)
  then have w: "wholeLog ?L rf = wholeLog ?L ?rf @ [e]" unfolding rf by (rule whole_propose)
  have br: "based ?L rf" using b [of i] by (simp add: rf based_def frame_simps)
  note lf = leader_facts [OF inv i ld]
  have f: "role rf = Leader" "currentTerm rf = ?t" "votedFor rf = votedFor ?rf"
    "lastIncludedIndex rf = lastIncludedIndex ?rf" "lastApplied rf = lastApplied ?rf"
    "commitIndex rf = commitIndex ?rf" "matchIndex rf = matchIndex ?rf"
    by (simp_all add: rf frame_simps ld)
  have L: "leaderLog ?T = ?L(?t := ?L ?t @ [e])" using f(1,2) w lf(2) by simp
  have el: "elected ?T = elected S" using f(1,2) lf(1) by (simp add: insert_absorb)
  have grow: "prefix (?L t) (leaderLog ?T t)" for t unfolding L by simp
  note keep = based_grow [OF _ grow]
  have cast: "cast ?T = cast S" using moved_cast [OF inv, of i rf "{}"] f by (simp add: keeps_vote_def)
  have "node_ok n ?T i"
    by (rule node_ok_moved [OF keep(1) [OF br]]) (use f node_okD(2,3,5) [OF inv, of i] ld in simp_all)
  then have R: "refine_inv n ?T"
  proof (rule refine_inv_moved [rotated 2])
    show "refine_inv n S" using inv by (simp add: log_inv_def)
  qed (use grow f in simp_all)
  have "a_log (view ?T) = (a_log (view S))(i := a_log (view S) i @ [e])"
  proof
    fix k
    show "a_log (view ?T) k = ((a_log (view S))(i := a_log (view S) i @ [e])) k"
      using keep(2) [OF b [of k]] keep(2) [OF br] w by (cases "k = i") (simp_all del: moveTo_simps(7))
  qed
  moreover have "a_leader (view ?T) = (a_leader (view S))(a_term (view S) i := a_leader (view S) (a_term (view S) i) @ [e])"
    using L by (simp del: moveTo_simps(7))
  moreover have "a_votes (view ?T) = a_votes (view S)" unfolding view_def cast by simp
  moreover have "a_elected (view ?T) = a_elected (view S)" using el by (simp del: moveTo_simps(6))
  moreover have "a_term (view ?T) = a_term (view S)" "a_cand (view ?T) = a_cand (view S)"
    "a_lead (view ?T) = a_lead (view S)" "a_commit (view ?T) = a_commit (view S)"
    "a_acks (view ?T) = a_acks (view S)" "a_known (view ?T) = a_known (view S)"
    using f ld by (auto simp: view_def fun_eq_iff)
  ultimately have V: "view ?T = (view S)\<lparr>a_log := (a_log (view S))(i := a_log (view S) i @ [e]),
      a_leader := (a_leader (view S))(a_term (view S) i := a_leader (view S) (a_term (view S) i) @ [e])\<rparr>"
    by (intro araft.equality) simp_all
  have "astep n (view S) (view ?T)"
    unfolding V using wholeLog_last [OF b [of i]] by (intro astep.propose [OF i]) (simp_all add: ld e_def)
  with R show ?thesis by (simp add: refines_def)
qed

lemma compact_refines:
  assumes inv: "log_inv n S" and i: "i < n" and le: "index \<le> lastApplied (nodes S i)"
    and sn: "Raft_Snapshot index d (nodes S i) = Some rf"
  shows "refines n S (moveTo i rf {} S)"
proof (cases "lastIncludedIndex (nodes S i) < index")
  case False
  then have "rf = nodes S i" using sn by (simp add: Raft_Snapshot_def)
  then show ?thesis by (intro refines_kept [OF inv i]) simp_all
next
  case True
  note sp = Raft_Snapshot_spec [OF sn True]
  note w = whole_compact [OF node_okD(1) [OF inv] goods(1) [OF inv i] sn]
  show ?thesis
    by (rule refines_quiet [OF inv i _ _ _ _ w(2,1)])
       (use sp le node_okD(3,5) [OF inv, of i] in \<open>simp_all add: no_new_leader_def no_new_candidate_def keeps_vote_def\<close>)
qed

lemma applier_shape:
  assumes "log_inv n S" and "i < n" and "applier (nodes S i) = Some (msgs, rf)"
  shows "rf = nodes S i \<or> rf = (nodes S i)\<lparr>pendingSnapshotValid := False, pendingSnapshot := None\<rparr> \<or>
    rf = (nodes S i)\<lparr>lastApplied := commitIndex (nodes S i)\<rparr>"
  using applier_cases [OF assms(3) node_okD(2,3) [OF assms(1)] commit_in_log [OF assms(1,2)]] by metis

lemma deliver_refines:
  assumes inv: "log_inv n S" and i: "i < n" and ap: "applier (nodes S i) = Some (msgs, rf)"
  shows "refines n S (moveTo i rf {} S)"
proof -
  have k: "keeps_log (nodes S i) rf" using applier_shape [OF inv i ap] by (auto simp: keeps_log_def)
  from whole_cong [OF this] node_okD(1) [OF inv, of i]
  have w: "based (leaderLog S) rf" "wholeLog (leaderLog S) rf = wholeLog (leaderLog S) (nodes S i)" by simp_all
  have f: "currentTerm rf = currentTerm (nodes S i)" "votedFor rf = votedFor (nodes S i)"
    "role rf = role (nodes S i)" "matchIndex rf = matchIndex (nodes S i)"
    "commitIndex rf = commitIndex (nodes S i)" "lastIncludedIndex rf = lastIncludedIndex (nodes S i)"
    "lastIncludedIndex rf \<le> lastApplied rf" "lastApplied rf \<le> commitIndex rf"
    using applier_shape [OF inv i ap] node_okD(2,3) [OF inv, of i] by auto
  show ?thesis
    by (rule refines_quiet [OF inv i _ _ _ _ w])
       (use f node_okD(5) [OF inv, of i] in \<open>simp_all add: no_new_leader_def no_new_candidate_def keeps_vote_def\<close>)
qed

lemma kill_refines: "log_inv n S \<Longrightarrow> i < n \<Longrightarrow> refines n S (moveTo i (Kill (nodes S i)) {} S)"
  by (rule refines_kept) (simp_all add: Kill_def step_defs keeps_vote_def)

lemma crash_refines:
  assumes inv: "log_inv n S" and i: "i < n"
    and mk: "Make ck (peers (nodes S i)) (int i) (persister (nodes S i)) = Some rf"
  shows "refines n S (moveTo i rf {} S)"
proof -
  let ?rf = "nodes S i"
  have wf: "wf_raft n i ?rf" using log_invD(1) [OF inv] i by (rule election_inv_wfD)
  then have "persisted ?rf" by (simp add: wf_raft_def)
  from Make_persisted [OF this, of ck "peers ?rf" "int i"] mk
  have f: "currentTerm rf = currentTerm ?rf" "votedFor rf = votedFor ?rf" "keeps_log ?rf rf" "role rf = Follower"
    "commitIndex rf = lastIncludedIndex ?rf" "lastApplied rf = lastIncludedIndex ?rf"
    "lastIncludedIndex rf = lastIncludedIndex ?rf"
    by (auto simp: keeps_log_def)
  from whole_cong [OF f(3)] node_okD(1) [OF inv, of i]
  have w: "based (leaderLog S) rf" "wholeLog (leaderLog S) rf = wholeLog (leaderLog S) ?rf" by simp_all
  show ?thesis
    by (rule refines_quiet [OF inv i _ _ _ _ w])
       (use f node_okD(2,3) [OF inv, of i] in \<open>simp_all add: no_new_leader_def no_new_candidate_def keeps_vote_def\<close>)
qed

subsection \<open>Every step\<close>

theorem cluster_refines:
  assumes "cluster_step n S S'" and inv: "log_inv n S"
  shows "refines n S S'"
  using assms(1)
proof (cases rule: cluster_step_cases)
  case (elect i ck el args rf)
  then show ?thesis using elect_refines [OF inv] by simp
next
  case (vote i j args ck r rf)
  then show ?thesis using vote_refines [OF inv] by simp
next
  case (vote_reply i j args r el W ck el' rf)
  then show ?thesis using vote_reply_refines [OF inv] by simp
next
  case (send_append i j "term" args)
  then show ?thesis using send_append_refines [OF inv] by simp
next
  case (append i j args ck r rf)
  then show ?thesis using append_refines [OF inv] by simp
next
  case (append_reply i j args r ck rf)
  then show ?thesis using append_reply_refines [OF inv] by simp
next
  case (send_snapshot i j "term" args)
  then show ?thesis using send_snapshot_refines [OF inv] by simp
next
  case (install i j args ck r rf)
  then show ?thesis using install_refines [OF inv] by simp
next
  case (snapshot_reply i j args r ck rf)
  then show ?thesis using snapshot_reply_refines [OF inv] by simp
next
  case (propose i c res rf)
  then show ?thesis using propose_refines [OF inv] by simp
next
  case (compact i index d rf)
  then show ?thesis using compact_refines [OF inv] by simp
next
  case (deliver_msgs i msgs rf)
  then show ?thesis using deliver_refines [OF inv] by simp
next
  case (kill i)
  then show ?thesis using kill_refines [OF inv] by simp
next
  case (crash i ck rf)
  then show ?thesis using crash_refines [OF inv] by simp
qed

theorem log_inv_step:
  assumes "cluster_step n S S'" and "log_inv n S"
  shows "log_inv n S'"
  using cluster_refines [OF assms] election_inv_step [OF assms(1) log_invD(1) [OF assms(2)]]
    safe_step [OF _ log_invD(2) [OF assms(2)]]
  by (simp add: log_inv_def refines_def)

lemma log_inv_initial:
  assumes "initial n S"
  shows "log_inv n S"
proof -
  from assms obtain addrs cks where mk: "\<And>i. Make (cks i) addrs (int i) NewMemoryPersister = Some (nodes S i)"
    by (auto simp: initial_def)
  note m = Make_empty [OF mk]
  have "refine_inv n S" using assms m by (simp add: refine_inv_def node_ok_def Let_def based_def initial_def)
  moreover have "safe n (view S)"
    using assms m by (intro safe_start) (simp_all add: initial_def view_def wholeLog_def)
  ultimately show ?thesis using election_inv_initial [OF assms] by (simp add: log_inv_def)
qed

theorem log_inv_reachable: "reachable n S \<Longrightarrow> log_inv n S"
  by (induction rule: reachable.induct) (auto intro: log_inv_initial log_inv_step)

end
