(* ===== verification/LogSafety.thy ===== *)
theory LogSafety
  imports LogRefinement RaftDemo
begin

section \<open>What the refinement gives for the group of the code\<close>

subsection \<open>Delivered commands\<close>

text \<open>A delivered command is at its index in a prefix that some term has chosen.\<close>

definition delivered_inv :: "nat \<Rightarrow> 'c cluster \<Rightarrow> bool" where
  "delivered_inv n S \<longleftrightarrow> (\<forall>i k c. (i, k, c) \<in> delivered S \<longrightarrow> 0 < k \<and>
     (\<exists>T xs. committed n (view S) T xs \<and> nat k \<le> length xs \<and> le_Command (xs ! nat (k - 1)) = c))"

lemma command_of_deliveries:
  "(k, c) \<in> (\<Union>m\<in>set (deliveries a b rf). command_of m) \<longleftrightarrow>
     a \<le> k \<and> k \<le> b \<and> c = le_Command (rlog rf ! nat (k - lastIncludedIndex rf))"
  by (auto simp: deliveries_def)

lemma delivered_step:
  assumes "cluster_step n S S'" and inv: "log_inv n S" and new: "(i, k, c) \<in> delivered S'" "(i, k, c) \<notin> delivered S"
  shows "i < n" and "0 < k" and "k \<le> commitIndex (nodes S i)"
    and "c = le_Command (wholeLog (leaderLog S) (nodes S i) ! nat (k - 1))"
proof -
  let ?rf = "nodes S i"
  from assms(1) new obtain msgs rf where ap: "i < n" "applier ?rf = Some (msgs, rf)"
    and kc: "(k, c) \<in> (\<Union>m\<in>set msgs. command_of m)"
    by (cases rule: cluster_step_cases) auto
  note ok = node_okD(1-3) [OF inv, of i] and ci = commit_in_log [OF inv ap(1)]
  have "lastIncludedIndex ?rf < k \<and> k \<le> commitIndex ?rf \<and> c = le_Command (rlog ?rf ! nat (k - lastIncludedIndex ?rf))"
    using ap(2) ok(2,3) ci
  proof (cases rule: applier_cases)
    case commands
    with kc command_of_deliveries [of k c] ok(2) show ?thesis by auto
  qed (use kc in auto)
  then have k: "lastIncludedIndex ?rf < k" "k \<le> commitIndex ?rf"
    "c = le_Command (rlog ?rf ! nat (k - lastIncludedIndex ?rf))" by simp_all
  have "0 \<le> lastIncludedIndex ?rf" using ok(1) by (simp add: based_def)
  with k(1) show "0 < k" by simp
  show "i < n" by (rule ap(1))
  show "k \<le> commitIndex ?rf" by (rule k(2))
  have "k \<le> getLastLogIndex ?rf" using k(2) ci by simp
  then show "c = le_Command (wholeLog (leaderLog S) ?rf ! nat (k - 1))"
    using nth_whole [OF ok(1) k(1)] k(3) by simp
qed

lemma delivered_inv_step:
  assumes st: "cluster_step n S S'" and inv: "log_inv n S" and dl: "delivered_inv n S"
  shows "delivered_inv n S'"
proof -
  have a: "astep n (view S) (view S')" using cluster_refines [OF st inv] by (simp add: refines_def)
  note grow = committed_grows [OF a log_invD(2) [OF inv]]
  have "0 < k \<and> (\<exists>T xs. committed n (view S') T xs \<and> nat k \<le> length xs \<and> le_Command (xs ! nat (k - 1)) = c)"
    if d: "(i, k, c) \<in> delivered S'" for i k c
  proof (cases "(i, k, c) \<in> delivered S")
    case True
    with dl grow show ?thesis unfolding delivered_inv_def by blast
  next
    case False
    note new = delivered_step [OF st inv d False]
    let ?w = "wholeLog (leaderLog S) (nodes S i)" and ?c = "nat (commitIndex (nodes S i))"
    have "committed n (view S') (currentTerm (nodes S i)) (take ?c ?w)" and len: "?c \<le> length ?w"
      using grow [OF commitD(2) [OF log_invD(2) [OF inv] new(1)]] commitD(1) [OF log_invD(2) [OF inv] new(1)]
      by simp_all
    moreover have "nat k \<le> ?c" "nat (k - 1) < ?c" using new(2,3) by simp_all
    ultimately show ?thesis using new(2,4)
      by (intro conjI exI [where x = "currentTerm (nodes S i)"] exI [where x = "take ?c ?w"]) simp_all
  qed
  then show ?thesis unfolding delivered_inv_def by blast
qed

lemma delivered_inv_reachable: "reachable n S \<Longrightarrow> delivered_inv n S"
proof (induction rule: reachable.induct)
  case (start S)
  then show ?case by (simp add: delivered_inv_def initial_def)
next
  case (step S S')
  then show ?case using delivered_inv_step log_inv_reachable by blast
qed

lemma committed_commands:
  assumes "safe n a" and "committed n a T xs" and "committed n a U ys"
    and "k < length xs" and "k < length ys"
  shows "xs ! k = ys ! k"
proof (cases "length xs \<le> length ys")
  case True
  from agree_nth [OF committed_agree [OF assms(1-3) True] assms(4)] show ?thesis .
next
  case False
  then have "length ys \<le> length xs" by simp
  from agree_nth [OF committed_agree [OF assms(1,3,2) this] assms(5)] show ?thesis by simp
qed

text \<open>C1: In every reachable state of a group of Raft peers, with message loss, delay, reordering,
  repetition, crashes, restarts, compaction and snapshot installation, no two peers have ever sent
  different commands for the same index to their state machines.\<close>

theorem state_machine_safety:
  assumes "reachable n S" and "(i, k, c) \<in> delivered S" and "(j, k, c') \<in> delivered S"
  shows "c = c'"
proof -
  from delivered_inv_reachable [OF assms(1)] assms(2,3) obtain T xs U ys where k: "0 < k"
    and "committed n (view S) T xs" "nat k \<le> length xs" "le_Command (xs ! nat (k - 1)) = c"
    and "committed n (view S) U ys" "nat k \<le> length ys" "le_Command (ys ! nat (k - 1)) = c'"
    unfolding delivered_inv_def by blast
  moreover from k have "nat (k - 1) < nat k" by simp
  ultimately show ?thesis
    using committed_commands [OF log_invD(2) [OF log_inv_reachable [OF assms(1)]], of T xs U ys "nat (k - 1)"]
    by simp
qed

theorem state_machine_safety_witness:
  "\<exists>S. reachable 3 S \<and> (0, 1, Some ''x'') \<in> delivered S \<and> (1, 1, Some ''x'') \<in> delivered S \<and>
     {c. \<exists>i. (i, 1, c) \<in> delivered S} = {Some ''x''}"
proof -
  obtain S where S: "reachable 3 S" "(0, 1, Some ''x'') \<in> delivered S" "(1, 1, Some ''x'') \<in> delivered S"
    using demo_reachable_applied by blast
  have "c = Some ''x''" if "(i, 1, c) \<in> delivered S" for i c
    by (rule state_machine_safety [OF S(1) that S(2)])
  with S show ?thesis by (intro exI [where x = S]) blast
qed

subsection \<open>Entries of two peers\<close>

text \<open>Logs that agree up to an index hold equal entries, at the indexes neither has compacted.\<close>

lemma agree_entries:
  assumes "based L rf" and "based L rf'" and "agree (nat k) (wholeLog L rf) (wholeLog L rf')"
    and "m \<le> k" and "lastIncludedIndex rf < m" and "lastIncludedIndex rf' < m"
  shows "m \<le> getLastLogIndex rf" and "m \<le> getLastLogIndex rf'" and "getLogEntry m rf = getLogEntry m rf'"
    and "getLogEntry m rf \<noteq> None"
proof -
  have m: "0 < m" using assms(1,5) by (simp add: based_def)
  show le: "m \<le> getLastLogIndex rf" "m \<le> getLastLogIndex rf'"
    using agree_length [OF assms(3)] wholeLog_last [OF assms(1)] wholeLog_last [OF assms(2)] assms(4) m by auto
  have "wholeLog L rf ! nat (m - 1) = wholeLog L rf' ! nat (m - 1)"
    by (rule agree_nth [OF assms(3)]) (use assms(4) m in simp)
  then have "rlog rf ! nat (m - lastIncludedIndex rf) = rlog rf' ! nat (m - lastIncludedIndex rf')"
    using nth_whole [OF assms(1,5) le(1)] nth_whole [OF assms(2,6) le(2)] by simp
  then show "getLogEntry m rf = getLogEntry m rf'" "getLogEntry m rf \<noteq> None"
    using le assms(5,6) by (simp_all add: getLogEntry_def getLastLogIndex_def go_simps)
qed

text \<open>C5: Log matching: when the logs of two peers have the same term at an index, they have the same
  entries at every index up to it that neither has compacted.\<close>

theorem log_matching:
  assumes "reachable n S" and "i < n" and "j < n"
    and "lastIncludedIndex (nodes S i) < m" and "lastIncludedIndex (nodes S j) < m" and "m \<le> k"
    and "getLogTerm k (nodes S i) = Some t" and "getLogTerm k (nodes S j) = Some t"
  shows "getLogEntry m (nodes S i) = getLogEntry m (nodes S j) \<and> getLogEntry m (nodes S i) \<noteq> None"
proof -
  note inv = log_inv_reachable [OF assms(1)]
  have at: "lterm (wholeLog (leaderLog S) (nodes S x)) (nat k) = t \<and> nat k \<le> length (wholeLog (leaderLog S) (nodes S x))"
    if "lastIncludedIndex (nodes S x) < m" "getLogTerm k (nodes S x) = Some t" for x
  proof -
    note b = node_okD(1) [OF inv, of x]
    have lo: "lastIncludedIndex (nodes S x) \<le> k" and hi: "k \<le> getLastLogIndex (nodes S x)"
      using that assms(6) getLogTerm_out [of k "nodes S x"] by (cases "k \<le> getLastLogIndex (nodes S x)"; auto)+
    from getLogTerm_in [OF lo hi] that(2) term_at_whole [OF b lo hi] wholeLog_last [OF b] hi
    show ?thesis by simp
  qed
  have "agree (nat k) (wholeLog (leaderLog S) (nodes S i)) (wholeLog (leaderLog S) (nodes S j))"
    using at [OF assms(4,7)] at [OF assms(5,8)]
    by (intro same_term_agree [OF goods(1) [OF inv assms(2)] goods(1) [OF inv assms(3)]]) simp_all
  from agree_entries(3,4) [OF node_okD(1) [OF inv] node_okD(1) [OF inv] this assms(6,4,5)] show ?thesis by blast
qed

theorem log_matching_witness:
  "\<exists>S. reachable 3 S \<and> getLogTerm 1 (nodes S 0) = Some 1 \<and> getLogTerm 1 (nodes S 1) = Some 1 \<and>
     getLogEntry 1 (nodes S 0) = getLogEntry 1 (nodes S 1) \<and> getLogEntry 1 (nodes S 0) = Some demo_entry"
proof -
  obtain S where S: "reachable 3 S" "nodes S 0 = demo_committer\<lparr>lastApplied := 1\<rparr>"
    "nodes S 1 = demo_store2\<lparr>lastApplied := 1\<rparr>"
    using demo_reachable_applied by blast
  then have t: "getLogTerm 1 (nodes S 0) = Some 1" "getLogTerm 1 (nodes S 1) = Some 1"
    "getLogEntry 1 (nodes S 0) = Some demo_entry"
    by (simp_all add: getLogTerm_def getLogEntry_def demo_log_def demo_entry_def go_simps del: One_nat_def)
  have "getLogEntry 1 (nodes S 0) = getLogEntry 1 (nodes S 1)"
    using log_matching [OF S(1), of 0 1 1 1 1] S(2,3) t by simp
  with S(1) t show ?thesis by blast
qed

text \<open>C4: Leader completeness: a leader holds every entry that a peer of its own or an earlier term
  considers committed, unless it has compacted it.\<close>

theorem leader_completeness:
  assumes "reachable n S" and "i < n" and "j < n" and "role (nodes S j) = Leader"
    and "currentTerm (nodes S i) \<le> currentTerm (nodes S j)" and "m \<le> commitIndex (nodes S i)"
    and "lastIncludedIndex (nodes S i) < m" and "lastIncludedIndex (nodes S j) < m"
  shows "m \<le> getLastLogIndex (nodes S j) \<and> getLogEntry m (nodes S j) = getLogEntry m (nodes S i) \<and>
    getLogEntry m (nodes S j) \<noteq> None"
proof -
  note inv = log_inv_reachable [OF assms(1)]
  have "agree (nat (commitIndex (nodes S i))) (wholeLog (leaderLog S) (nodes S i)) (wholeLog (leaderLog S) (nodes S j))"
    using leaders_complete [OF log_invD(2) [OF inv] assms(2,3)] assms(4,5) by simp
  from agree_entries [OF node_okD(1) [OF inv] node_okD(1) [OF inv] this assms(6-8)] show ?thesis by simp
qed

theorem leader_completeness_witness:
  "\<exists>S :: string cluster. reachable 3 S \<and> role (nodes S 0) = Leader \<and> commitIndex (nodes S 1) = 1 \<and>
     getLogEntry 1 (nodes S 0) = getLogEntry 1 (nodes S 1) \<and> 1 \<le> getLastLogIndex (nodes S 0)"
proof -
  obtain S where S: "reachable 3 S" "nodes S 0 = demo_committer\<lparr>lastApplied := 1\<rparr>"
    "nodes S 1 = demo_store2\<lparr>lastApplied := 1\<rparr>"
    using demo_reachable_applied by blast
  from leader_completeness [OF S(1), of 1 0 1] S(2,3)
  have "getLogEntry 1 (nodes S 0) = getLogEntry 1 (nodes S 1) \<and> 1 \<le> getLastLogIndex (nodes S 0)"
    by (simp del: One_nat_def)
  with S show ?thesis by (intro exI [where x = S]) (simp del: One_nat_def)
qed

text \<open>Any two peers hold the same entry at every index that both consider committed and neither has
  compacted.\<close>

theorem committed_entries_agree:
  assumes "reachable n S" and "i < n" and "j < n"
    and "m \<le> commitIndex (nodes S i)" and "m \<le> commitIndex (nodes S j)"
    and "lastIncludedIndex (nodes S i) < m" and "lastIncludedIndex (nodes S j) < m"
  shows "getLogEntry m (nodes S i) = getLogEntry m (nodes S j) \<and> getLogEntry m (nodes S i) \<noteq> None"
proof -
  note inv = log_inv_reachable [OF assms(1)]
  have "agree (nat m) (wholeLog (leaderLog S) (nodes S i)) (wholeLog (leaderLog S) (nodes S j))"
    using commits_agree [OF log_invD(2) [OF inv] assms(2,3), of "nat m"] assms(4,5) by (simp add: nat_mono)
  from agree_entries(3,4) [OF node_okD(1) [OF inv] node_okD(1) [OF inv] this order_refl assms(6,7)]
  show ?thesis by blast
qed

theorem committed_entries_witness:
  "\<exists>S :: string cluster. reachable 3 S \<and> commitIndex (nodes S 0) = 1 \<and> commitIndex (nodes S 1) = 1 \<and>
     getLogEntry 1 (nodes S 0) = getLogEntry 1 (nodes S 1) \<and> getLogEntry 1 (nodes S 0) \<noteq> None"
proof -
  obtain S where S: "reachable 3 S" "nodes S 0 = demo_committer\<lparr>lastApplied := 1\<rparr>"
    "nodes S 1 = demo_store2\<lparr>lastApplied := 1\<rparr>"
    using demo_reachable_applied by blast
  have "getLogEntry 1 (nodes S 0) = getLogEntry 1 (nodes S 1) \<and> getLogEntry 1 (nodes S 0) \<noteq> None"
    by (rule committed_entries_agree [OF S(1)]) (simp_all add: S(2,3) del: One_nat_def)
  moreover have "commitIndex (nodes S 0) = 1" "commitIndex (nodes S 1) = 1" using S(2,3) by simp_all
  ultimately show ?thesis using S(1) by blast
qed

text \<open>C6: Every step of the group of the code is a step of the abstract model of replicated logs, seen
  through the whole logs, the votes cast and the acknowledgements in flight.\<close>

theorem cluster_refinement:
  assumes "reachable n S" and "cluster_step n S S'"
  shows "astep n (view S) (view S')"
  using cluster_refines [OF assms(2) log_inv_reachable [OF assms(1)]] by (simp add: refines_def)

theorem cluster_refinement_witness:
  "\<exists>S S'. reachable 3 S \<and> cluster_step 3 S S' \<and> astep 3 (view S) (view S') \<and>
     a_log (view S) 0 = [demo_entry] \<and> a_log (view S') 0 = [demo_entry, \<lparr>le_Term = 1, le_Index = 2, le_Command = Some ''y''\<rparr>]"
proof -
  obtain S where S: "reachable 3 S" "nodes S 0 = demo_committer\<lparr>lastApplied := 1\<rparr>"
    using demo_reachable_applied by blast
  let ?rf = "snd (Start ''y'' (nodes S 0))" and ?S' = "moveTo 0 (snd (Start ''y'' (nodes S 0))) {} S"
  have st: "cluster_step 3 S ?S'" by (rule cluster_step.propose) (simp_all add: prod_eq_iff)
  have "a_log (view S) 0 = [demo_entry]" "rlog ?rf = demo_log @ [\<lparr>le_Term = 1, le_Index = 2, le_Command = Some ''y''\<rparr>]"
    "lastIncludedIndex ?rf = 0"
    using S(2) by (simp_all add: wholeLog_def demo_log_def Start_def getLastLogIndex_def frame_simps)
  with S(1) st cluster_refinement [OF S(1) st] show ?thesis
    by (intro exI [where x = S] exI [where x = ?S']) (simp add: wholeLog_def demo_log_def)
qed

end
