(* ===== verification/LogShape.thy ===== *)
theory LogShape
  imports LogSafety
begin

section \<open>The shape of every log of the group\<close>

subsection \<open>The dummy entry\<close>

definition dummy_ok :: "'c raft \<Rightarrow> bool" where
  "dummy_ok rf \<longleftrightarrow> rlog rf \<noteq> [] \<and> rlog rf ! 0 = dummyEntry (lastIncludedTerm rf) (lastIncludedIndex rf)"

lemma dummy_keeps: "keeps_log rf rf' \<Longrightarrow> dummy_ok rf \<Longrightarrow> dummy_ok rf'"
  by (simp add: dummy_ok_def keeps_log_def)

lemma dummy_moved:
  "(\<And>k. dummy_ok (nodes S k)) \<Longrightarrow> dummy_ok rf \<Longrightarrow> dummy_ok (nodes (moveTo i rf ms S) k)"
  by simp

lemma AppendEntries_dummy:
  assumes "AppendEntries ck args rf = Some (r, rf')" and d: "dummy_ok rf"
  shows "dummy_ok rf'"
  using assms(1)
proof (cases rule: AppendEntries_cases)
  case rejected
  with d show ?thesis by (simp add: dummy_ok_def)
next
  case accepted
  have "0 < nat (ae_PrevLogIndex args + 1 - lastIncludedIndex rf)" using accepted(4) by simp
  then have "mergedLog args rf \<noteq> [] \<and> mergedLog args rf ! 0 = rlog rf ! 0"
    using d by (cases "rlog rf") (auto simp: mergedLog_def Let_def dummy_ok_def nth_append take_Cons')
  with accepted(7) d show ?thesis by (simp add: dummy_ok_def)
qed (use d in simp)

lemma InstallSnapshot_dummy:
  assumes "InstallSnapshot ck args rf = Some (r, rf')" and d: "dummy_ok rf"
  shows "dummy_ok rf'"
  using assms(1)
proof (cases rule: InstallSnapshot_cases)
  case known
  with d show ?thesis by (simp add: dummy_ok_def)
next
  case installed
  then show ?thesis by (simp add: dummy_ok_def snapshotLog_def)
qed (use d in simp)

lemma dummy_step:
  assumes "cluster_step n S S'" and inv: "log_inv n S" and d: "\<And>k. dummy_ok (nodes S k)"
  shows "dummy_ok (nodes S' k)"
proof -
  have wf: "wf_raft n i (nodes S i)" if "i < n" for i by (rule election_inv_wfD(1) [OF log_invD(1) [OF inv] that])
  note msg = election_inv_wfD(2) [OF log_invD(1) [OF inv]]
  note keep = dummy_moved [OF d dummy_keeps [OF _ d]] and own = dummy_moved [OF d]
  from assms(1) show ?thesis
  proof (cases rule: cluster_step_cases)
    case (elect i ck el args rf)
    with keep startElection_spec(3) [OF elect(3)] wf [OF elect(2)] show ?thesis by (simp add: wf_raft_def)
  next
    case (vote i j args ck r rf)
    have "j < n" using msg [OF vote(2)] by simp
    with keep RequestVote_steps(1) [OF vote(3)] wf [of j] vote(1) show ?thesis by (simp add: wf_raft_def)
  next
    case (vote_reply i j args r el W ck el' rf)
    have "i < n" using msg [OF vote_reply(2)] by simp
    then have "length (nextIndex (nodes S i)) = length (peers (nodes S i))"
      "length (matchIndex (nodes S i)) = length (peers (nodes S i))" using wf [of i] by (simp_all add: wf_raft_def)
    with vote_reply(5) have "keeps_log (nodes S i) rf"
      by (cases rule: handleVoteReply_cases) (simp_all add: keeps_log_def)
    with keep vote_reply(1) show ?thesis by simp
  next
    case (append i j args ck r rf)
    with own [OF AppendEntries_dummy [OF append(3) d]] show ?thesis by simp
  next
    case (append_reply i j args r ck rf)
    have "persisted (nodes S i)" using msg [OF append_reply(2)] wf [of i] by (simp add: wf_raft_def)
    with keep handleAppendReply_frame(1) [OF append_reply(3)] append_reply(1) show ?thesis by simp
  next
    case (install i j args ck r rf)
    with own [OF InstallSnapshot_dummy [OF install(3) d]] show ?thesis by simp
  next
    case (snapshot_reply i j args r ck rf)
    have "i < n" "j < n" using msg [OF snapshot_reply(2)] by simp_all
    then have "j < length (peers (nodes S i))" "length (nextIndex (nodes S i)) = length (peers (nodes S i))"
      "length (matchIndex (nodes S i)) = length (peers (nodes S i))" using wf [of i] by (simp_all add: wf_raft_def)
    with snapshot_reply(3) have "keeps_log (nodes S i) rf"
      by (cases rule: handleSnapshotReply_cases) (simp_all add: keeps_log_def)
    with keep snapshot_reply(1) show ?thesis by simp
  next
    case (propose i c res rf)
    have "dummy_ok rf"
      using propose(3) d [of i] by (auto simp: Start_def Let_def dummy_ok_def frame_simps nth_append split: if_splits)
    with own propose(1) show ?thesis by simp
  next
    case (compact i index dd rf)
    have "dummy_ok rf"
    proof (cases "lastIncludedIndex (nodes S i) < index")
      case True
      with Raft_Snapshot_spec(2-4) [OF compact(4) True] show ?thesis by (simp add: dummy_ok_def)
    next
      case False
      with compact(4) d show ?thesis by (auto simp: Raft_Snapshot_def)
    qed
    with own compact(1) show ?thesis by simp
  next
    case (deliver_msgs i msgs rf)
    have "keeps_log (nodes S i) rf" using applier_shape [OF inv deliver_msgs(2,3)] by (auto simp: keeps_log_def)
    with keep deliver_msgs(1) show ?thesis by simp
  next
    case (kill i)
    have "keeps_log (nodes S i) (Kill (nodes S i))" by (simp add: keeps_log_def Kill_def)
    with keep kill(1) show ?thesis by simp
  next
    case (crash i ck rf)
    have "persisted (nodes S i)" using wf [OF crash(2)] by (simp add: wf_raft_def)
    with crash(3) Make_persisted [of "nodes S i" ck "peers (nodes S i)" "int i"] have "keeps_log (nodes S i) rf"
      by (auto simp: keeps_log_def)
    with keep crash(1) show ?thesis by simp
  qed (use d in simp_all)
qed

subsection \<open>Every log is well formed\<close>

definition shape_inv :: "'c cluster \<Rightarrow> bool" where
  "shape_inv S \<longleftrightarrow> (\<forall>i. dummy_ok (nodes S i)) \<and> (\<forall>t. numbered (leaderLog S t))"

lemma shape_inv_reachable: "reachable n S \<Longrightarrow> shape_inv S"
proof (induction rule: reachable.induct)
  case (start S)
  then obtain addrs cks where mk: "\<And>i. Make (cks i) addrs (int i) NewMemoryPersister = Some (nodes S i)"
    by (auto simp: initial_def)
  show ?case using start Make_empty(3-5) [OF mk] by (simp add: shape_inv_def dummy_ok_def numbered_def initial_def)
next
  case (step S S')
  note inv = log_inv_reachable [OF step(1)]
  have "astep n (view S) (view S')" using cluster_refines [OF step(2) inv] by (simp add: refines_def)
  from numbered_step [OF this log_invD(2) [OF inv]] dummy_step [OF step(2) inv] step.IH
  show ?case by (simp add: shape_inv_def)
qed

text \<open>C8: In every reachable state each peer is well formed: its log starts with the dummy entry that
  carries the index and term of its snapshot, the entries after it carry consecutive indexes and a
  command each, and the indexes of the snapshot, of what was applied, of what is committed and of the
  last entry are in this order.\<close>

theorem peers_well_formed:
  assumes "reachable n S" and "i < n"
  shows "wf_raft n i (nodes S i) \<and> log_ok (nodes S i) \<and>
    (\<forall>e \<in> set (tl (rlog (nodes S i))). le_Command e \<noteq> None) \<and>
    lastIncludedIndex (nodes S i) \<le> lastApplied (nodes S i) \<and>
    lastApplied (nodes S i) \<le> commitIndex (nodes S i) \<and>
    commitIndex (nodes S i) \<le> getLastLogIndex (nodes S i)"
proof -
  let ?rf = "nodes S i" and ?w = "wholeLog (leaderLog S) (nodes S i)"
  note inv = log_inv_reachable [OF assms(1)] and sh = shape_inv_reachable [OF assms(1)]
  note b = node_okD(1) [OF inv, of i]
  have d: "rlog ?rf \<noteq> []" "rlog ?rf ! 0 = dummyEntry (lastIncludedTerm ?rf) (lastIncludedIndex ?rf)"
    using sh by (simp_all add: shape_inv_def dummy_ok_def)
  have "numbered ?w" using numbered_log [OF goods(1) [OF inv assms(2)]] sh by (simp add: shape_inv_def)
  then have e: "le_Index (rlog ?rf ! k) = lastIncludedIndex ?rf + int k \<and> le_Command (rlog ?rf ! k) \<noteq> None"
    if "0 < k" "k < length (rlog ?rf)" for k
  proof -
    let ?m = "lastIncludedIndex ?rf + int k"
    have m: "lastIncludedIndex ?rf < ?m" "?m \<le> getLastLogIndex ?rf" "0 < ?m"
      using that b by (simp_all add: getLastLogIndex_def based_def)
    then have "nat (?m - 1) < length ?w" using wholeLog_last [OF b] by simp
    with \<open>numbered ?w\<close> have "le_Index (?w ! nat (?m - 1)) = int (nat (?m - 1)) + 1 \<and>
        le_Command (?w ! nat (?m - 1)) \<noteq> None" unfolding numbered_def by blast
    with nth_whole [OF b m(1,2)] m(3) show ?thesis by simp
  qed
  have "log_ok ?rf"
    unfolding log_ok_def
  proof (intro conjI allI impI)
    fix k assume "k < length (rlog ?rf)"
    with d e [of k] show "le_Index (rlog ?rf ! k) = lastIncludedIndex ?rf + int k"
      by (cases "k = 0") (simp_all add: dummyEntry_def)
  qed (use d in \<open>simp_all add: dummyEntry_def\<close>)
  moreover have "le_Command x \<noteq> None" if x: "x \<in> set (tl (rlog ?rf))" for x
  proof -
    obtain k where "k < length (rlog ?rf) - 1" "x = tl (rlog ?rf) ! k" using x by (auto simp: in_set_conv_nth)
    with e [of "Suc k"] show ?thesis by (simp add: nth_tl)
  qed
  ultimately show ?thesis
    using election_inv_wfD(1) [OF log_invD(1) [OF inv] assms(2)] node_okD(2,3) [OF inv, of i]
      commit_in_log [OF inv assms(2)] by simp
qed

theorem peers_well_formed_witness:
  "\<exists>S :: string cluster. reachable 3 S \<and> rlog (nodes S 1) = demo_log \<and> log_ok (nodes S 1) \<and>
     commitIndex (nodes S 1) \<le> getLastLogIndex (nodes S 1)"
proof -
  obtain S where S: "reachable 3 S" "nodes S 1 = demo_store2\<lparr>lastApplied := 1\<rparr>"
    using demo_reachable_applied by blast
  from peers_well_formed [OF S(1), of 1] S show ?thesis
    by (intro exI [where x = S]) (simp del: One_nat_def)
qed

end
