(* ===== verification/NoPanic.thy ===== *)
theory NoPanic
  imports LogShape
begin

section \<open>No critical section panics\<close>

text \<open>
  A slice indexed out of its bounds is \<open>None\<close> in the model. The indexes a leader sends come from
  \<open>nextIndex\<close>, which the hints in rejecting replies move in both directions; they stay inside the
  leader's log because every hint is at most one past it.
\<close>

subsection \<open>The hints of a rejecting reply\<close>

lemma firstIdxOfTerm_total:
  assumes "lastIncludedIndex rf \<le> getLastLogIndex rf" and "k \<le> getLastLogIndex rf" and "f \<le> b" and "k \<le> b"
  shows "\<exists>x. firstIdxOfTerm t k f rf = Some x \<and> x \<le> b"
  using assms(2-4)
proof (induction t k f rf rule: firstIdxOfTerm.induct)
  case (1 t k f rf)
  show ?case
  proof (cases "lastIncludedIndex rf \<le> k")
    case True
    with 1 getLogTerm_in [of rf k] show ?thesis by (simp add: firstIdxOfTerm.simps [of t k])
  next
    case False
    with 1 show ?thesis by (simp add: firstIdxOfTerm.simps [of t k])
  qed
qed

lemma lastIdxWithTerm_total:
  assumes "k \<le> getLastLogIndex rf" and "k \<le> b" and "-1 \<le> b"
  shows "\<exists>x. lastIdxWithTerm t k rf = Some x \<and> x \<le> b"
  using assms
proof (induction t k rf rule: lastIdxWithTerm.induct)
  case (1 t k rf)
  show ?case
  proof (cases "lastIncludedIndex rf \<le> k")
    case True
    with 1 getLogTerm_in [of rf k] show ?thesis by (simp add: lastIdxWithTerm.simps [of t k])
  next
    case False
    with 1 show ?thesis by (simp add: lastIdxWithTerm.simps [of t k])
  qed
qed

lemma backtrackNext_total:
  assumes "rlog rf \<noteq> []" and "0 \<le> lastIncludedIndex rf"
    and "aer_XTerm r = -1 \<Longrightarrow> aer_XLen r \<le> getLastLogIndex rf + 1" and "aer_XIndex r \<le> getLastLogIndex rf + 1"
  shows "\<exists>x. backtrackNext r rf = Some x \<and> x \<le> getLastLogIndex rf + 1"
proof -
  have "-1 \<le> getLastLogIndex rf" using lastIncluded_le_last [OF assms(1)] assms(2) by simp
  from lastIdxWithTerm_total [OF order_refl order_refl this, of "aer_XTerm r"] assms(3,4) show ?thesis
    by (auto simp: backtrackNext_def)
qed

text \<open>\<open>AppendEntries\<close> always answers, and what its rejections say.\<close>

lemma AppendEntries_total:
  assumes ne: "rlog rf \<noteq> []"
  shows "\<exists>r rf'. AppendEntries ck args rf = Some (r, rf') \<and>
    (aer_Success r \<or> ae_Term args < aer_Term r \<or>
     (aer_XLen r = getLastLogIndex rf + 1 \<and> getLastLogIndex rf < ae_PrevLogIndex args \<and> aer_XIndex r = -1) \<or>
     (aer_XLen r = lastIncludedIndex rf + 1 \<and> aer_XIndex r = -1) \<or>
     (lastIncludedIndex rf \<le> ae_PrevLogIndex args \<and> ae_PrevLogIndex args \<le> getLastLogIndex rf \<and>
      aer_XTerm r = term_at (ae_PrevLogIndex args) rf \<and> aer_XIndex r \<le> ae_PrevLogIndex args))"
proof -
  let ?p = "ae_PrevLogIndex args" and ?rf = "observeTerm ck (ae_Term args) rf"
  consider "ae_Term args < currentTerm rf" | "currentTerm rf \<le> ae_Term args" "getLastLogIndex rf < ?p"
    | "currentTerm rf \<le> ae_Term args" "?p < lastIncludedIndex rf" "?p \<le> getLastLogIndex rf"
    | "currentTerm rf \<le> ae_Term args" "lastIncludedIndex rf \<le> ?p" "?p \<le> getLastLogIndex rf"
    by linarith
  then show ?thesis
  proof cases
    case 4
    have t: "getLogTerm ?p ?rf = Some (term_at ?p rf)" using getLogTerm_in [of rf ?p] 4(2,3) by simp
    show ?thesis
    proof (cases "term_at ?p rf = ae_PrevLogTerm args")
      case True
      have "appendEntriesLoop (?p + 1) (ae_Entries args) (getLastLogIndex ?rf) ?rf \<noteq> None"
        using appendEntriesLoop_eq [of ?rf "?p + 1" "ae_Entries args"] 4(2,3) by (simp add: Let_def)
      then obtain l rf' where "appendEntriesLoop (?p + 1) (ae_Entries args) (getLastLogIndex ?rf) ?rf = Some (l, rf')"
        by auto
      with 4 t True show ?thesis by (simp add: AppendEntries_def Let_def)
    next
      case False
      have "lastIncludedIndex ?rf \<le> getLastLogIndex ?rf" using lastIncluded_le_last [OF ne] by simp
      from firstIdxOfTerm_total [OF this, of ?p ?p ?p "term_at ?p rf"] 4(3)
      obtain x where "firstIdxOfTerm (term_at ?p rf) ?p ?p ?rf = Some x" "x \<le> ?p" by auto
      with 4 t False show ?thesis by (simp add: AppendEntries_def Let_def)
    qed
  qed (simp_all add: AppendEntries_def Let_def)
qed

lemma InstallSnapshot_total: "InstallSnapshot ck args rf \<noteq> None"
proof (cases "currentTerm rf \<le> is_Term args \<and> lastIncludedIndex rf < is_LastIncludedIndex args")
  case True
  let ?s = "is_LastIncludedIndex args"
  show ?thesis
  proof (cases "?s \<le> getLastLogIndex rf")
    case hi: True
    have t: "getLogTerm ?s rf = Some (term_at ?s rf)" using True hi by (intro getLogTerm_in) simp_all
    have k: "nat (?s - lastIncludedIndex rf) < length (rlog rf)" using True hi by (auto simp: getLastLogIndex_def)
    have "go_drop (rlog rf) (?s - lastIncludedIndex rf) = Some (drop (nat (?s - lastIncludedIndex rf)) (rlog rf))"
      using True k by (intro go_drop_Some) auto
    with True hi t k show ?thesis
      by (auto simp: InstallSnapshot_def Let_def go_update_def)
  next
    case False
    with True show ?thesis by (auto simp: InstallSnapshot_def Let_def)
  qed
qed (auto simp: InstallSnapshot_def Let_def)

subsection \<open>The bounds on what a leader sends next\<close>

definition next_ok :: "'c raft \<Rightarrow> bool" where
  "next_ok rf \<longleftrightarrow> role rf = Leader \<longrightarrow> (\<forall>x \<in> set (nextIndex rf). x \<le> getLastLogIndex rf + 1)"

fun hint_ok :: "'c cluster \<Rightarrow> 'c msg \<Rightarrow> bool" where
  "hint_ok S (AppendRep i j args r) \<longleftrightarrow> aer_Success r \<or> ae_Term args < aer_Term r \<or>
     (aer_XTerm r = -1 \<longrightarrow> aer_XLen r \<le> int (length (leaderLog S (ae_Term args))) + 1) \<and>
     aer_XIndex r \<le> int (length (leaderLog S (ae_Term args))) + 1"
| "hint_ok S m \<longleftrightarrow> True"

definition hint_inv :: "nat \<Rightarrow> 'c cluster \<Rightarrow> bool" where
  "hint_inv n S \<longleftrightarrow> (\<forall>i<n. next_ok (nodes S i)) \<and> (\<forall>m\<in>net S. hint_ok S m)"

lemma hint_grows:
  assumes "\<And>t. prefix (leaderLog S t) (leaderLog S' t)" and "hint_ok S m"
  shows "hint_ok S' m"
proof (cases m)
  case (AppendRep i j args r)
  have "length (leaderLog S (ae_Term args)) \<le> length (leaderLog S' (ae_Term args))"
    using assms(1) by (rule prefix_length_le)
  with assms(2) AppendRep show ?thesis by auto
qed simp_all

lemma new_hint:
  assumes inv: "log_inv n S" and m: "AppendReq i j args \<in> net S"
    and ae: "AppendEntries ck args (nodes S j) = Some (r, rf)"
  shows "hint_ok S (AppendRep i j args r)"
proof -
  let ?rf = "nodes S j" and ?L = "leaderLog S (ae_Term args)"
  have ij: "i < n" "j < n" "i \<noteq> j" using election_inv_wfD(2) [OF log_invD(1) [OF inv] m] by auto
  have b: "based (leaderLog S) ?rf" by (rule node_okD(1) [OF inv])
  then have ne: "rlog ?rf \<noteq> []" "0 \<le> lastIncludedIndex ?rf" by (simp_all add: based_def)
  have mo: "(ae_Term args, i) \<in> elected S" "0 \<le> ae_PrevLogIndex args" "nat (ae_PrevLogIndex args) \<le> length ?L"
      "ae_PrevLogIndex args \<le> int (length ?L)"
    using msg_okD [OF inv m] by (auto simp: Let_def)
  show ?thesis
  proof (cases "currentTerm ?rf \<le> ae_Term args \<and> \<not> aer_Success r")
    case False
    with ae show ?thesis by (cases rule: AppendEntries_cases) simp_all
  next
    case True
    from ae True have t: "aer_Term r = currentTerm ?rf" by (cases rule: AppendEntries_cases) simp_all
    have "agree (nat (commitIndex ?rf)) (wholeLog (leaderLog S) ?rf) ?L"
      using commit_agree_leader [OF log_invD(2) [OF inv] ij(2), of "ae_Term args" i] True mo(1) by simp
    then have lii: "lastIncludedIndex ?rf \<le> int (length ?L)"
      using agree_length(2) node_okD(2,3) [OF inv, of j] ne(2) by fastforce
    from AppendEntries_total [OF ne(1), of ck args] ae True t consider
      "aer_XLen r = getLastLogIndex ?rf + 1" "getLastLogIndex ?rf < ae_PrevLogIndex args" "aer_XIndex r = -1"
      | "aer_XLen r = lastIncludedIndex ?rf + 1" "aer_XIndex r = -1"
      | "lastIncludedIndex ?rf \<le> ae_PrevLogIndex args" "ae_PrevLogIndex args \<le> getLastLogIndex ?rf"
        "aer_XTerm r = term_at (ae_PrevLogIndex args) ?rf" "aer_XIndex r \<le> ae_PrevLogIndex args"
      by auto
    then show ?thesis
    proof cases
      case 3
      have "nat (ae_PrevLogIndex args) \<le> length (wholeLog (leaderLog S) ?rf)"
        using 3(2) wholeLog_last [OF b] by simp
      from goodD(2) [OF goods(1) [OF inv ij(2)] _ this] term_at_whole [OF b 3(1,2)] 3(3)
      have "0 \<le> aer_XTerm r" by (cases "0 < nat (ae_PrevLogIndex args)") (simp_all add: lterm_def)
      with 3(4) mo(4) show ?thesis by simp
    qed (use mo(4) lii in simp_all)
  qed
qed

text \<open>What a leader recorded as matched is inside its log.\<close>

lemma matched_in_log:
  assumes inv: "log_inv n S" and i: "i < n" and ld: "role (nodes S i) = Leader"
    and m: "m \<le> 0 \<or> (p, currentTerm (nodes S i), nat m) \<in> \<Union>(ack_of ` net S)"
  shows "m \<le> getLastLogIndex (nodes S i)"
proof -
  have b: "based (leaderLog S) (nodes S i)" by (rule node_okD(1) [OF inv])
  have "0 \<le> getLastLogIndex (nodes S i)" using wholeLog_last [OF b] by simp
  moreover have "m \<le> getLastLogIndex (nodes S i)"
    if "(p, currentTerm (nodes S i), nat m) \<in> \<Union>(ack_of ` net S)"
  proof -
    have "nat m \<le> length (leaderLog S (currentTerm (nodes S i)))"
      using safe_acksD(3) [OF log_invD(2) [OF inv], of p "currentTerm (nodes S i)" "nat m"] that by simp
    then show ?thesis using leader_facts(2) [OF inv i ld] wholeLog_last [OF b] by simp
  qed
  ultimately show ?thesis using m by linarith
qed

lemma next_recorded:
  assumes inv: "log_inv n S" and i: "i < n" and ld: "role (nodes S i) = Leader" and j: "j < n" "j \<noteq> i"
    and new: "m \<le> 0 \<or> (j, currentTerm (nodes S i), nat m) \<in> \<Union>(ack_of ` net S)" and ok: "next_ok (nodes S i)"
  shows "next_ok (recordMatch j m (nodes S i))"
proof -
  have "max m (matchIndex (nodes S i) ! j) \<le> getLastLogIndex (nodes S i)"
    using matched_in_log [OF inv i ld new] matched_in_log [OF inv i ld node_okD(5) [OF inv ld j]] by simp
  with ok ld show ?thesis
    by (auto simp: next_ok_def recordMatch_def getLastLogIndex_def dest!: subsetD [OF set_update_subset_insert])
qed

lemma next_kept:
  assumes "next_ok rf" and "no_new_leader rf rf'" and "nextIndex rf' = nextIndex rf"
    and "getLastLogIndex rf \<le> getLastLogIndex rf'"
  shows "next_ok rf'"
  using assms by (fastforce simp: next_ok_def no_new_leader_def)

lemma keeps_last: "keeps_log rf rf' \<Longrightarrow> getLastLogIndex rf' = getLastLogIndex rf"
  by (simp add: keeps_log_def getLastLogIndex_def)

lemma handleAppendReply_total:
  assumes inv: "log_inv n S" and m: "AppendRep i j args r \<in> net S" and h: "hint_inv n S"
  shows "\<exists>rf. handleAppendReply ck j (ae_Term args) args r (nodes S i) = Some rf \<and> next_ok rf"
proof -
  let ?rf = "nodes S i"
  have ij: "i < n" "j < n" "i \<noteq> j" using election_inv_wfD(2) [OF log_invD(1) [OF inv] m] by auto
  have ok: "next_ok ?rf" and hint: "hint_ok S (AppendRep i j args r)" using h ij(1) m by (auto simp: hint_inv_def)
  have wf: "wf_raft n i ?rf" by (rule election_inv_wfD(1) [OF log_invD(1) [OF inv] ij(1)])
  then have lens: "length (nextIndex ?rf) = n" "length (matchIndex ?rf) = n" "length (peers ?rf) = n"
    by (simp_all add: wf_raft_def)
  have b: "based (leaderLog S) ?rf" by (rule node_okD(1) [OF inv])
  consider "role ?rf \<noteq> Leader \<or> currentTerm ?rf \<noteq> ae_Term args"
    | "role ?rf = Leader" "currentTerm ?rf = ae_Term args" "currentTerm ?rf < aer_Term r"
    | "role ?rf = Leader" "currentTerm ?rf = ae_Term args" "aer_Term r \<le> currentTerm ?rf" "aer_Success r"
    | "role ?rf = Leader" "currentTerm ?rf = ae_Term args" "aer_Term r \<le> currentTerm ?rf" "\<not> aer_Success r"
    by linarith
  then show ?thesis
  proof cases
    case 1
    with ok show ?thesis by (auto simp: handleAppendReply_def)
  next
    case 2
    then show ?thesis by (simp add: handleAppendReply_def next_ok_def)
  next
    case 3
    let ?m = "ae_PrevLogIndex args + int (length (ae_Entries args))"
    have "?m \<le> 0 \<or> (j, currentTerm ?rf, nat ?m) \<in> ack_of (AppendRep i j args r)" using 3 by simp
    then have "?m \<le> 0 \<or> (j, currentTerm ?rf, nat ?m) \<in> \<Union>(ack_of ` net S)" using m by blast
    from next_recorded [OF inv ij(1) 3(1) ij(2) ij(3) [symmetric] this ok]
    have nr: "next_ok (recordMatch j ?m ?rf)" .
    have "advanceCommit (getLastLogIndex ?rf) (recordMatch j ?m ?rf) \<noteq> None"
      using node_okD(2,3) [OF inv, of i] lens by (intro advanceCommit_total) simp_all
    then obtain rf where rf: "advanceCommit (getLastLogIndex ?rf) (recordMatch j ?m ?rf) = Some rf" by auto
    from advanceCommit_frame [OF this] nr have "next_ok rf" by (auto simp: next_ok_def getLastLogIndex_def)
    moreover have "handleAppendReply ck j (ae_Term args) args r ?rf = Some rf"
      using 3 rf lens ij(2) by (simp add: handleAppendReply_def Let_def if_max recordMatch_def getLastLogIndex_def)
    ultimately show ?thesis by blast
  next
    case 4
    have last: "getLastLogIndex ?rf = int (length (leaderLog S (ae_Term args)))"
      using wholeLog_last [OF b] leader_facts(2) [OF inv ij(1) 4(1)] 4(2) by simp
    have "\<exists>x. backtrackNext r ?rf = Some x \<and> x \<le> getLastLogIndex ?rf + 1"
      using hint 4(2-4) last b by (intro backtrackNext_total) (auto simp: based_def)
    then obtain x where x: "backtrackNext r ?rf = Some x" "x \<le> getLastLogIndex ?rf + 1" by blast
    let ?ni = "if x < 1 then 1 else x"
    have "handleAppendReply ck j (ae_Term args) args r ?rf = Some (?rf\<lparr>nextIndex := (nextIndex ?rf)[j := ?ni]\<rparr>)"
      using 4 x(1) lens ij(2) by (simp add: handleAppendReply_def)
    moreover have "?ni \<le> getLastLogIndex ?rf + 1" using x(2) last by simp
    then have "next_ok (?rf\<lparr>nextIndex := (nextIndex ?rf)[j := ?ni]\<rparr>)"
      using ok by (auto simp: next_ok_def getLastLogIndex_def dest!: subsetD [OF set_update_subset_insert])
    ultimately show ?thesis by blast
  qed
qed

lemma hint_inv_moved:
  assumes h: "hint_inv n S" and grow: "\<And>t. prefix (leaderLog S t) (leaderLog (moveTo i rf ms S) t)"
    and own: "i < n \<Longrightarrow> next_ok rf" and new: "\<And>m. m \<in> ms \<Longrightarrow> hint_ok S m"
  shows "hint_inv n (moveTo i rf ms S)"
proof -
  have "hint_ok (moveTo i rf ms S) m" if "m \<in> net S \<union> ms" for m
    by (rule hint_grows [OF grow]) (use that h new in \<open>auto simp: hint_inv_def\<close>)
  with h own show ?thesis by (auto simp: hint_inv_def)
qed

lemma hint_frame [simp]:
  "hint_inv n (S\<lparr>elections := E\<rparr>) = hint_inv n S" "hint_inv n (deliver i msgs S) = hint_inv n S"
proof -
  have "hint_ok (S\<lparr>elections := E\<rparr>) m = hint_ok S m" "hint_ok (deliver i msgs S) m = hint_ok S m" for m
    by (cases m; simp)+
  then show "hint_inv n (S\<lparr>elections := E\<rparr>) = hint_inv n S" "hint_inv n (deliver i msgs S) = hint_inv n S"
    by (simp_all add: hint_inv_def)
qed

lemma hint_inv_send:
  assumes "hint_inv n S" and "\<And>S. hint_ok S m"
  shows "hint_inv n (S\<lparr>net := net S \<union> {m}\<rparr>)"
proof -
  have "hint_ok (S\<lparr>net := N\<rparr>) x = hint_ok S x" for N x by (cases x) simp_all
  with assms show ?thesis by (auto simp: hint_inv_def)
qed

lemma next_follower: "role rf = Follower \<Longrightarrow> next_ok rf" "role rf = Candidate \<Longrightarrow> next_ok rf"
  by (simp_all add: next_ok_def)

lemma hint_inv_step:
  assumes st: "cluster_step n S S'" and inv: "log_inv n S" and h: "hint_inv n S"
  shows "hint_inv n S'"
proof -
  have "astep n (view S) (view S')" using cluster_refines [OF st inv] by (simp add: refines_def)
  from astep_grows(1) [OF this log_invD(2) [OF inv]]
  have grow: "prefix (leaderLog S t) (leaderLog S' t)" for t by simp
  have ok: "next_ok (nodes S i)" if "i < n" for i using h that by (simp add: hint_inv_def)
  have wf: "wf_raft n i (nodes S i)" if "i < n" for i by (rule election_inv_wfD(1) [OF log_invD(1) [OF inv] that])
  note msg = election_inv_wfD(2) [OF log_invD(1) [OF inv]]
  have moved: "hint_inv n (moveTo i rf ms S)"
    if "leaderLog S' = leaderLog (moveTo i rf ms S)" "i < n \<Longrightarrow> next_ok rf" "\<And>m. m \<in> ms \<Longrightarrow> hint_ok S m"
    for i rf ms
    using hint_inv_moved [OF h _ that(2,3)] grow that(1) by simp
  from st show ?thesis
  proof (cases rule: cluster_step_cases)
    case (elect i ck el args rf)
    have "next_ok rf" using startElection_spec(6) [OF elect(3)] wf [OF elect(2)]
      by (intro next_follower(2)) (simp add: wf_raft_def)
    with elect(1) show ?thesis by (auto intro!: moved)
  next
    case (vote i j args ck r rf)
    have j: "j < n" using msg [OF vote(2)] by simp
    then have "rlog (nodes S j) \<noteq> []" "persisted (nodes S j)" using wf [of j] by (simp_all add: wf_raft_def)
    note s = RequestVote_steps [OF vote(3) this]
    have "next_ok rf" by (rule next_kept [OF ok [OF j] s(3,8)]) (simp add: keeps_last [OF s(1)])
    with vote(1) show ?thesis by (auto intro!: moved)
  next
    case (vote_reply i j args r el W ck el' rf)
    have i: "i < n" using msg [OF vote_reply(2)] by simp
    then have "length (nextIndex (nodes S i)) = length (peers (nodes S i))"
      "length (matchIndex (nodes S i)) = length (peers (nodes S i))" using wf [of i] by (simp_all add: wf_raft_def)
    with vote_reply(5) have "next_ok rf"
      by (cases rule: handleVoteReply_cases) (use ok [OF i] in \<open>auto simp: next_ok_def getLastLogIndex_def\<close>)
    with vote_reply(1) show ?thesis by (auto intro!: moved)
  next
    case (append i j args ck r rf)
    have ij: "i < n" "j < n" "i \<noteq> j" using msg [OF append(2)] by simp_all
    have el: "(ae_Term args, i) \<in> elected S" using msg_okD [OF inv append(2)] by (simp add: Let_def)
    from append(3) have "next_ok rf"
    proof (cases rule: AppendEntries_cases)
      case old
      with ok [OF ij(2)] show ?thesis by simp
    next
      case rejected
      with hears_leader(1) [OF inv ij el rejected(1), of ck] show ?thesis by (intro next_follower(1)) simp
    next
      case accepted
      with hears_leader(1) [OF inv ij el accepted(1), of ck] show ?thesis by (intro next_follower(1)) simp
    qed
    with append(1) new_hint [OF inv append(2,3)] show ?thesis by (auto intro!: moved simp del: hint_ok.simps)
  next
    case (append_reply i j args r ck rf)
    from handleAppendReply_total [OF inv append_reply(2) h, of ck] append_reply(3) have "next_ok rf" by simp
    with append_reply(1) show ?thesis by (auto intro!: moved)
  next
    case (install i j args ck r rf)
    have ij: "i < n" "j < n" "i \<noteq> j" using msg [OF install(2)] by simp_all
    have el: "(is_Term args, i) \<in> elected S" using msg_okD [OF inv install(2)] by (simp add: Let_def)
    from install(3) have "next_ok rf"
    proof (cases rule: InstallSnapshot_cases)
      case old
      with ok [OF ij(2)] show ?thesis by simp
    next
      case known
      with hears_leader(1) [OF inv ij el known(1), of ck] show ?thesis by (intro next_follower(1)) simp
    next
      case installed
      with hears_leader(1) [OF inv ij el installed(1), of ck] show ?thesis by (intro next_follower(1)) simp
    qed
    with install(1) show ?thesis by (auto intro!: moved)
  next
    case (snapshot_reply i j args r ck rf)
    have ij: "i < n" "j < n" "j \<noteq> i" using msg [OF snapshot_reply(2)] by simp_all
    then have "j < length (peers (nodes S i))" "length (nextIndex (nodes S i)) = length (peers (nodes S i))"
      "length (matchIndex (nodes S i)) = length (peers (nodes S i))" using wf [of i] by (simp_all add: wf_raft_def)
    with snapshot_reply(3) have "next_ok rf"
    proof (cases rule: handleSnapshotReply_cases)
      case accepted
      have "is_LastIncludedIndex args \<le> 0 \<or> (j, currentTerm (nodes S i), nat (is_LastIncludedIndex args))
          \<in> ack_of (SnapRep i j args r)" using accepted(2,3) by simp
      then have "is_LastIncludedIndex args \<le> 0 \<or> (j, currentTerm (nodes S i), nat (is_LastIncludedIndex args))
          \<in> \<Union>(ack_of ` net S)" using snapshot_reply(2) by blast
      from next_recorded [OF inv ij(1) accepted(1) ij(2,3) this ok [OF ij(1)]] accepted(4) show ?thesis by simp
    qed (use ok [OF ij(1)] in \<open>simp_all add: next_ok_def\<close>)
    with snapshot_reply(1) show ?thesis by (auto intro!: moved)
  next
    case (propose i c res rf)
    have "next_ok rf"
      by (rule next_kept [OF ok [OF propose(2)]])
         (use propose(3) in \<open>auto simp: Start_def Let_def no_new_leader_def frame_simps getLastLogIndex_def split: if_splits\<close>)
    with propose(1) show ?thesis by (auto intro!: moved)
  next
    case (compact i index d rf)
    note b = node_okD(1) [OF inv, of i]
    note w = whole_compact [OF b goods(1) [OF inv compact(2)] compact(4)]
    have "no_new_leader (nodes S i) rf \<and> nextIndex rf = nextIndex (nodes S i)"
    proof (cases "lastIncludedIndex (nodes S i) < index")
      case True
      with Raft_Snapshot_spec [OF compact(4) True] show ?thesis by (simp add: no_new_leader_def)
    next
      case False
      with compact(4) show ?thesis by (simp add: Raft_Snapshot_def)
    qed
    then have "next_ok rf"
      using wholeLog_last [OF b] wholeLog_last [OF w(2)] w(1) by (intro next_kept [OF ok [OF compact(2)]]) simp_all
    with compact(1) show ?thesis by (auto intro!: moved)
  next
    case (deliver_msgs i msgs rf)
    have "next_ok rf" using applier_shape [OF inv deliver_msgs(2,3)] ok [OF deliver_msgs(2)]
      by (auto simp: next_ok_def getLastLogIndex_def)
    with deliver_msgs(1) show ?thesis by (auto intro!: moved)
  next
    case (kill i)
    have "next_ok (Kill (nodes S i))" using ok [OF kill(2)] by (simp add: next_ok_def Kill_def getLastLogIndex_def)
    with kill(1) show ?thesis by (auto intro!: moved)
  next
    case (crash i ck rf)
    have "persisted (nodes S i)" using wf [OF crash(2)] by (simp add: wf_raft_def)
    with crash(3) Make_persisted [of "nodes S i" ck "peers (nodes S i)" "int i"] have "role rf = Follower" by auto
    then have "next_ok rf" by (rule next_follower(1))
    with crash(1) show ?thesis by (auto intro!: moved)
  next
    case (send_append i j "term" args)
    show ?thesis unfolding send_append(1) by (rule hint_inv_send [OF h]) simp
  next
    case (send_snapshot i j "term" args)
    show ?thesis unfolding send_snapshot(1) by (rule hint_inv_send [OF h]) simp
  qed
qed

subsection \<open>Nothing panics\<close>

lemma hint_inv_reachable: "reachable n S \<Longrightarrow> hint_inv n S"
proof (induction rule: reachable.induct)
  case (start S)
  then obtain addrs cks where mk: "\<And>i. Make (cks i) addrs (int i) NewMemoryPersister = Some (nodes S i)"
    by (auto simp: initial_def)
  show ?case using start Make_empty(6) [OF mk] by (simp add: hint_inv_def next_ok_def initial_def)
next
  case (step S S')
  then show ?case using hint_inv_step log_inv_reachable by blast
qed

text \<open>A critical section that the group may run now, on a message that was sent, is out of bounds.\<close>

definition panics :: "nat \<Rightarrow> 'c cluster \<Rightarrow> bool" where
  "panics n S \<longleftrightarrow>
     (\<exists>i<n. \<exists>ck. startElection ck (nodes S i) = None) \<or>
     (\<exists>i j args ck. VoteReq i j args \<in> net S \<and> RequestVote ck args (nodes S j) = None) \<or>
     (\<exists>i j args r el W ck. VoteRep i j args r \<in> net S \<and> elections S i (rv_Term args) = Some (el, W) \<and>
        handleVoteReply ck r el (nodes S i) = None) \<or>
     (\<exists>i<n. \<exists>p<n. \<exists>t. replicationTicker p t (nodes S i) = None) \<or>
     (\<exists>i<n. replicateToAll (nodes S i) = None) \<or>
     (\<exists>i<n. \<exists>p<n. \<exists>t. sendAppendEntriesToPeer p t (nodes S i) = None) \<or>
     (\<exists>i j args ck. AppendReq i j args \<in> net S \<and> AppendEntries ck args (nodes S j) = None) \<or>
     (\<exists>i j args r ck. AppendRep i j args r \<in> net S \<and>
        handleAppendReply ck j (ae_Term args) args r (nodes S i) = None) \<or>
     (\<exists>i j args ck. SnapReq i j args \<in> net S \<and> InstallSnapshot ck args (nodes S j) = None) \<or>
     (\<exists>i j args r ck. SnapRep i j args r \<in> net S \<and>
        handleSnapshotReply ck j (is_Term args) args r (nodes S i) = None) \<or>
     (\<exists>i<n. \<exists>index d. index \<le> lastApplied (nodes S i) \<and> Raft_Snapshot index d (nodes S i) = None) \<or>
     (\<exists>i<n. applier (nodes S i) = None) \<or>
     (\<exists>i<n. \<exists>ck. Make ck (peers (nodes S i)) (int i) (persister (nodes S i)) = None)"

lemma sendAppend_total:
  assumes "next_ok rf" and "rlog rf \<noteq> []" and "p < length (nextIndex rf)"
  shows "sendAppendEntriesToPeer p t rf \<noteq> None"
proof (cases "role rf = Leader \<and> currentTerm rf = t \<and> lastIncludedIndex rf \<le> nextIndex rf ! p - 1")
  case True
  let ?q = "nextIndex rf ! p - 1"
  have hi: "?q \<le> getLastLogIndex rf" using assms(1) True nth_mem [OF assms(3)] by (fastforce simp: next_ok_def)
  have "getLogTerm ?q rf = Some (term_at ?q rf)" using True hi by (intro getLogTerm_in) simp_all
  moreover have "go_drop (rlog rf) (?q + 1 - lastIncludedIndex rf) \<noteq> None"
    using True hi by (auto simp: go_drop_def getLastLogIndex_def)
  ultimately show ?thesis using True hi assms(3) by (auto simp: sendAppendEntriesToPeer_def Let_def)
qed (use assms(3) in \<open>auto simp: sendAppendEntriesToPeer_def Let_def\<close>)

lemma startElection_total:
  assumes "rlog rf \<noteq> []"
  shows "startElection ck rf \<noteq> None"
proof -
  let ?rf = "resetElectionTimeout ck
    (persist (rf\<lparr>currentTerm := currentTerm rf + 1, role := Candidate, votedFor := me rf\<rparr>))"
  have "getLastLogTerm ?rf = Some (last_term ?rf)"
    by (rule getLastLogTerm_eq) (use assms in \<open>simp add: frame_simps\<close>)
  then show ?thesis by (simp add: startElection_def Let_def)
qed

lemma RequestVote_total:
  assumes "rlog rf \<noteq> []"
  shows "RequestVote ck args rf \<noteq> None"
proof -
  have "getLastLogTerm (raised (rv_Term args) rf) = Some (last_term rf)"
    using getLastLogTerm_eq [of "raised (rv_Term args) rf"] assms by simp
  then show ?thesis by (simp add: RequestVote_def Let_def raised_def [symmetric])
qed

lemma Raft_Snapshot_total:
  assumes "k \<le> getLastLogIndex rf"
  shows "Raft_Snapshot k d rf \<noteq> None"
proof (cases "k \<le> lastIncludedIndex rf")
  case False
  have t: "getLogTerm k rf = Some (term_at k rf)" using assms False by (intro getLogTerm_in) simp_all
  have l: "nat (k - lastIncludedIndex rf) < length (rlog rf)" using assms False by (auto simp: getLastLogIndex_def)
  have "go_drop (rlog rf) (k - lastIncludedIndex rf) = Some (drop (nat (k - lastIncludedIndex rf)) (rlog rf))"
    using l False by (intro go_drop_Some) auto
  with False t l show ?thesis by (simp add: Raft_Snapshot_def Let_def go_update_def)
qed (simp add: Raft_Snapshot_def)

lemma replicate_peers_total:
  "set ps \<subseteq> {..<length (nextIndex rf)} \<Longrightarrow> replicate_peers ps rf \<noteq> None"
  by (induction ps) (auto simp: chooseSend_def)

lemma handlers_answer:
  assumes inv: "log_inv n S" and h: "hint_inv n S"
  shows "VoteReq i j va \<in> net S \<Longrightarrow> RequestVote ck va (nodes S j) \<noteq> None"
    and "VoteRep i j va vr \<in> net S \<Longrightarrow> handleVoteReply ck vr el (nodes S i) \<noteq> None"
    and "AppendReq i j aa \<in> net S \<Longrightarrow> AppendEntries ck aa (nodes S j) \<noteq> None"
    and "AppendRep i j aa ar \<in> net S \<Longrightarrow> handleAppendReply ck j (ae_Term aa) aa ar (nodes S i) \<noteq> None"
    and "SnapRep i j sa sr \<in> net S \<Longrightarrow> handleSnapshotReply ck j (is_Term sa) sa sr (nodes S i) \<noteq> None"
proof -
  have wf: "wf_raft n i (nodes S i)" if "i < n" for i by (rule election_inv_wfD(1) [OF log_invD(1) [OF inv] that])
  then have lens: "length (nextIndex (nodes S i)) = n" "length (matchIndex (nodes S i)) = n"
    "length (peers (nodes S i)) = n" "rlog (nodes S i) \<noteq> []" "persisted (nodes S i)" if "i < n" for i
    using that by (simp_all add: wf_raft_def)
  note msg = election_inv_wfD(2) [OF log_invD(1) [OF inv]]
  show "RequestVote ck va (nodes S j) \<noteq> None" if "VoteReq i j va \<in> net S"
    using lens(4) [of j] msg [OF that] by (intro RequestVote_total) simp
  show "handleVoteReply ck vr el (nodes S i) \<noteq> None" if "VoteRep i j va vr \<in> net S"
    using transitionToLeader_eq [of "nodes S i"] lens [of i] msg [OF that] by (simp add: handleVoteReply_def Let_def)
  show "AppendEntries ck aa (nodes S j) \<noteq> None" if "AppendReq i j aa \<in> net S"
    using AppendEntries_total [of "nodes S j" ck aa] lens(4) [of j] msg [OF that] by auto
  show "handleAppendReply ck j (ae_Term aa) aa ar (nodes S i) \<noteq> None" if "AppendRep i j aa ar \<in> net S"
    using handleAppendReply_total [OF inv that h, of ck] by auto
  show "handleSnapshotReply ck j (is_Term sa) sa sr (nodes S i) \<noteq> None" if "SnapRep i j sa sr \<in> net S"
    using lens [of i] msg [OF that] by (simp add: handleSnapshotReply_def Let_def)
qed

lemma goroutines_in_bounds:
  assumes inv: "log_inv n S" and h: "hint_inv n S"
  shows "i < n \<Longrightarrow> startElection ck (nodes S i) \<noteq> None"
    and "i < n \<Longrightarrow> p < n \<Longrightarrow> replicationTicker p t (nodes S i) \<noteq> None"
    and "i < n \<Longrightarrow> replicateToAll (nodes S i) \<noteq> None"
    and "i < n \<Longrightarrow> p < n \<Longrightarrow> sendAppendEntriesToPeer p t (nodes S i) \<noteq> None"
    and "i < n \<Longrightarrow> index \<le> lastApplied (nodes S i) \<Longrightarrow> Raft_Snapshot index d (nodes S i) \<noteq> None"
    and "i < n \<Longrightarrow> applier (nodes S i) \<noteq> None"
    and "i < n \<Longrightarrow> Make ck (peers (nodes S i)) (int i) (persister (nodes S i)) \<noteq> None"
proof -
  have wf: "wf_raft n i (nodes S i)" if "i < n" for i by (rule election_inv_wfD(1) [OF log_invD(1) [OF inv] that])
  then have lens: "length (nextIndex (nodes S i)) = n" "length (matchIndex (nodes S i)) = n"
    "length (peers (nodes S i)) = n" "rlog (nodes S i) \<noteq> []" "persisted (nodes S i)" if "i < n" for i
    using that by (simp_all add: wf_raft_def)
  have nok: "next_ok (nodes S i)" if "i < n" for i using h that by (simp add: hint_inv_def)
  show "startElection ck (nodes S i) \<noteq> None" if "i < n"
    by (rule startElection_total [OF lens(4) [OF that]])
  show "replicationTicker p t (nodes S i) \<noteq> None" if "i < n" "p < n"
    using lens(1) [OF that(1)] that(2) by (simp add: replicationTicker_def chooseSend_def)
  show "replicateToAll (nodes S i) \<noteq> None" if "i < n"
  proof -
    have "set [0..<n] \<subseteq> {..<length (nextIndex (nodes S i))}" using lens(1) [OF that] by auto
    then obtain l where "replicate_peers [0..<n] (nodes S i) = Some l" using replicate_peers_total by blast
    then show ?thesis using lens(3) [OF that] by (simp add: replicateToAll_def)
  qed
  show "sendAppendEntriesToPeer p t (nodes S i) \<noteq> None" if "i < n" "p < n"
    using sendAppend_total [OF nok [OF that(1)] lens(4) [OF that(1)], of p t] lens(1) [OF that(1)] that(2) by simp
  show "Raft_Snapshot index d (nodes S i) \<noteq> None" if "i < n" "index \<le> lastApplied (nodes S i)"
    using node_okD(3) [OF inv, of i] commit_in_log [OF inv that(1)] that(2) by (intro Raft_Snapshot_total) simp
  show "applier (nodes S i) \<noteq> None" if "i < n"
    using applyLoop_eq [OF node_okD(2,3) [OF inv] commit_in_log [OF inv that]] by (simp add: applier_def)
  show "Make ck (peers (nodes S i)) (int i) (persister (nodes S i)) \<noteq> None" if "i < n"
    using Make_persisted [OF lens(5) [OF that], of ck "peers (nodes S i)" "int i"] by auto
qed

text \<open>C7: No critical section of any peer ever panics: in every reachable state each handler answers every
  request and every reply that was ever sent, and each goroutine finds its indexes in bounds, also when
  messages are late, repeated or from before a crash.\<close>

theorem no_panics:
  assumes "reachable n S"
  shows "\<not> panics n S"
proof -
  note h = handlers_answer [OF log_inv_reachable [OF assms] hint_inv_reachable [OF assms]]
    and g = goroutines_in_bounds [OF log_inv_reachable [OF assms] hint_inv_reachable [OF assms]]
  show ?thesis
    unfolding panics_def de_Morgan_disj
  proof (intro conjI)
    show "\<not> (\<exists>i<n. \<exists>ck. startElection ck (nodes S i) = None)" using g(1) by blast
    show "\<not> (\<exists>i j args ck. VoteReq i j args \<in> net S \<and> RequestVote ck args (nodes S j) = None)" using h(1) by blast
    show "\<not> (\<exists>i j args r el W ck. VoteRep i j args r \<in> net S \<and> elections S i (rv_Term args) = Some (el, W) \<and> handleVoteReply ck r el (nodes S i) = None)" using h(2) by blast
    show "\<not> (\<exists>i<n. \<exists>p<n. \<exists>t. replicationTicker p t (nodes S i) = None)" using g(2) by blast
    show "\<not> (\<exists>i<n. replicateToAll (nodes S i) = None)" using g(3) by blast
    show "\<not> (\<exists>i<n. \<exists>p<n. \<exists>t. sendAppendEntriesToPeer p t (nodes S i) = None)" using g(4) by blast
    show "\<not> (\<exists>i j args ck. AppendReq i j args \<in> net S \<and> AppendEntries ck args (nodes S j) = None)" using h(3) by blast
    show "\<not> (\<exists>i j args r ck. AppendRep i j args r \<in> net S \<and> handleAppendReply ck j (ae_Term args) args r (nodes S i) = None)" using h(4) by blast
    show "\<not> (\<exists>i j args ck. SnapReq i j args \<in> net S \<and> InstallSnapshot ck args (nodes S j) = None)" using InstallSnapshot_total by blast
    show "\<not> (\<exists>i j args r ck. SnapRep i j args r \<in> net S \<and> handleSnapshotReply ck j (is_Term args) args r (nodes S i) = None)" using h(5) by blast
    show "\<not> (\<exists>i<n. \<exists>index d. index \<le> lastApplied (nodes S i) \<and> Raft_Snapshot index d (nodes S i) = None)" using g(5) by blast
    show "\<not> (\<exists>i<n. applier (nodes S i) = None)" using g(6) by blast
    show "\<not> (\<exists>i<n. \<exists>ck. Make ck (peers (nodes S i)) (int i) (persister (nodes S i)) = None)" using g(7) by blast
  qed
qed

theorem no_panics_witness:
  "\<exists>S :: string cluster. reachable 3 S \<and> nodes S 1 = demo_store2\<lparr>lastApplied := 1\<rparr> \<and> \<not> panics 3 S"
  using demo_reachable_applied no_panics by blast

end
