(* ===== verification/RaftSnapshots.thy ===== *)
theory RaftSnapshots
  imports LogSafety
begin

section \<open>Snapshots in the group, and the logs of the leaders\<close>

text \<open>
  What a step of the Raft peers among themselves (\<open>net_step\<close>) does to what the owner of a peer can
  see: the compaction point, the saved snapshot, the snapshot waiting for the applier and the index
  applied so far. Only the installation of a snapshot changes them. And the commands in the logs of
  the leaders are those that were proposed: no step but \<open>Start\<close> adds any.
\<close>

subsection \<open>What the owner of a peer sees\<close>

definition snapState ::
  "'c raft \<Rightarrow> int \<times> 'c bytes option \<times> int \<times> bool \<times> int \<times> int \<times> 'c bytes option" where
  "snapState rf = (lastIncludedIndex rf, Mem_ReadSnapshot (persister rf), lastApplied rf,
     pendingSnapshotValid rf, pendingSnapshotIndex rf, pendingSnapshotTerm rf, pendingSnapshot rf)"

lemma snapState_updates [simp]:
  "snapState (rf\<lparr>currentTerm := t\<rparr>) = snapState rf" "snapState (rf\<lparr>votedFor := v\<rparr>) = snapState rf"
  "snapState (rf\<lparr>role := ro\<rparr>) = snapState rf" "snapState (rf\<lparr>rlog := l\<rparr>) = snapState rf"
  "snapState (rf\<lparr>nextIndex := ns\<rparr>) = snapState rf" "snapState (rf\<lparr>matchIndex := ns\<rparr>) = snapState rf"
  "snapState (rf\<lparr>commitIndex := c\<rparr>) = snapState rf" "snapState (rf\<lparr>dead := b\<rparr>) = snapState rf"
  "snapState (rf\<lparr>lastReset := x\<rparr>) = snapState rf" "snapState (rf\<lparr>electionTimeout := x\<rparr>) = snapState rf"
  by (simp_all add: snapState_def)

lemma snapState_helpers [simp]:
  "snapState (persist rf) = snapState rf" "snapState (resetElectionTimeout ck rf) = snapState rf"
  "snapState (saveLog l rf) = snapState rf" "snapState (raised t rf) = snapState rf"
  "snapState (observeTerm ck t rf) = snapState rf" "snapState (stepDown ck t rf) = snapState rf"
  "snapState (recordMatch p m rf) = snapState rf" "snapState (Kill rf) = snapState rf"
proof -
  show p: "snapState (persist rf) = snapState rf" for rf :: "'c raft"
    by (simp add: snapState_def persist_def Mem_defs)
  show r: "snapState (resetElectionTimeout ck rf) = snapState rf" for rf :: "'c raft"
    by (simp add: resetElectionTimeout_def)
  show "snapState (saveLog l rf) = snapState rf" "snapState (raised t rf) = snapState rf"
    "snapState (observeTerm ck t rf) = snapState rf" "snapState (stepDown ck t rf) = snapState rf"
    "snapState (recordMatch p m rf) = snapState rf" "snapState (Kill rf) = snapState rf"
    by (simp_all add: saveLog_def raised_def observeTerm_def stepDown_def recordMatch_def Kill_def p r)
qed

lemma snapState_Start: "Start c rf = (res, rf') \<Longrightarrow> snapState rf' = snapState rf"
  by (auto simp: Start_def Let_def split: if_splits)

lemma InstallSnapshot_snap:
  assumes "InstallSnapshot ck args rf = Some (r, rf')"
    and "currentTerm rf \<le> is_Term args" and "lastIncludedIndex rf < is_LastIncludedIndex args"
  shows "snapState rf' = (is_LastIncludedIndex args,
     (if is_Data args = None then Mem_ReadSnapshot (persister rf) else is_Data args),
     max (lastApplied rf) (is_LastIncludedIndex args),
     True, is_LastIncludedIndex args, is_LastIncludedTerm args, is_Data args)"
proof -
  let ?rf = "observeTerm ck (is_Term args) rf"
  have rd: "Mem_ReadSnapshot (Mem_Save st d p) = (if d = None then Mem_ReadSnapshot p else d)"
    for st d and p :: "'a gob MemoryPersister"
    by (simp add: Mem_defs)
  have snap: "Mem_ReadSnapshot (persister ?rf) = Mem_ReadSnapshot (persister rf)" by simp
  from assms show ?thesis
    unfolding InstallSnapshot_def Let_def
    by (auto simp: snapState_def rd max_def split: if_splits Option.bind_splits)
qed

subsection \<open>A step of the peers among themselves\<close>

text \<open>
  Either no peer changes for its owner and keeps its log, or a peer that is no leader merges entries,
  or a leader sends its snapshot, or a peer that is no leader installs one that was sent.
\<close>

definition same_snaps :: "'c cluster \<Rightarrow> 'c cluster \<Rightarrow> bool" where
  "same_snaps S S' \<longleftrightarrow> (\<forall>i j args. SnapReq i j args \<in> net S' \<longleftrightarrow> SnapReq i j args \<in> net S)"

lemma wf_lens:
  assumes "wf_raft n i rf"
  shows "rlog rf \<noteq> []" "persisted rf" "length (peers rf) = n"
    "length (nextIndex rf) = length (peers rf)" "length (matchIndex rf) = length (peers rf)"
  using assms by (simp_all add: wf_raft_def)

lemma AppendEntries_snap:
  assumes "AppendEntries ck args rf = Some (r, rf')"
  shows "snapState rf' = snapState rf" "ae_Term args < currentTerm rf \<Longrightarrow> rf' = rf"
    "currentTerm rf \<le> ae_Term args \<Longrightarrow> role rf' = role (observeTerm ck (ae_Term args) rf)"
  using assms by (cases rule: AppendEntries_cases; simp)+

lemma InstallSnapshot_known:
  assumes "InstallSnapshot ck args rf = Some (r, rf')"
    and "is_Term args < currentTerm rf \<or> is_LastIncludedIndex args \<le> lastIncludedIndex rf"
  shows "snapState rf' = snapState rf" "keeps_log rf rf'"
  using assms by (cases rule: InstallSnapshot_cases; simp)+

lemma net_step_kinds:
  assumes st: "net_step n S S'" and inv: "log_inv n S"
  obtains (kept) "\<And>k. snapState (nodes S' k) = snapState (nodes S k)"
      "\<And>k. keeps_log (nodes S k) (nodes S' k)" "same_snaps S S'"
  | (merged) j rf where "j < n" "nodes S' = (nodes S)(j := rf)" "same_snaps S S'"
      "snapState rf = snapState (nodes S j)" "role rf \<noteq> Leader"
  | (sent) i j args where "i < n" "nodes S' = nodes S" "net S' = net S \<union> {SnapReq i j args}"
      "is_LastIncludedIndex args = lastIncludedIndex (nodes S i)"
      "is_Data args = Mem_ReadSnapshot (persister (nodes S i))"
  | (installed) i j args rf where "SnapReq i j args \<in> net S" "j < n" "nodes S' = (nodes S)(j := rf)"
      "same_snaps S S'" "role rf \<noteq> Leader" "lastIncludedIndex (nodes S j) < is_LastIncludedIndex args"
      "snapState rf = (is_LastIncludedIndex args,
         (if is_Data args = None then Mem_ReadSnapshot (persister (nodes S j)) else is_Data args),
         max (lastApplied (nodes S j)) (is_LastIncludedIndex args),
         True, is_LastIncludedIndex args, is_LastIncludedTerm args, is_Data args)"
proof -
  note e = log_invD(1) [OF inv]
  note wf = wf_lens [OF election_inv_wfD(1) [OF e]] and msg = election_inv_wfD(2) [OF e]
  have moved: thesis if "nodes S' = (nodes S)(i := rf)" "same_snaps S S'"
    "snapState rf = snapState (nodes S i)" "keeps_log (nodes S i) rf" for i rf
    by (rule kept) (use that in auto)
  from st show ?thesis
  proof cases
    case (elect i ck el args rf)
    from elect(3) have "snapState rf = snapState (nodes S i)"
      by (auto simp: startElection_def Let_def split: Option.bind_splits)
    with elect startElection_spec(3) [OF elect(3) wf(1) [OF elect(2)]] show ?thesis
      by (intro moved) (auto simp: same_snaps_def)
  next
    case (vote i j args ck r rf)
    from msg [OF vote(2)] have j: "j < n" by auto
    from vote(3) wf(1) [OF j] have "snapState rf = snapState (nodes S j)"
      by (cases rule: RequestVote_cases) simp_all
    with vote RequestVote_steps(1) [OF vote(3) wf(1,2) [OF j]] show ?thesis
      by (intro moved) (auto simp: same_snaps_def)
  next
    case (vote_reply i j args r el W ck el' rf)
    have i: "i < n" using election_inv_tallyD [OF e vote_reply(3)] by auto
    from vote_reply(5) wf(4,5) [OF i]
    have "snapState rf = snapState (nodes S i)" "keeps_log (nodes S i) rf"
      by (cases rule: handleVoteReply_cases; simp add: keeps_log_def)+
    with vote_reply show ?thesis by (intro moved) (auto simp: same_snaps_def)
  next
    case (send_append i j t args)
    then show ?thesis by (intro kept) (auto simp: same_snaps_def)
  next
    case (append i j args ck r rf)
    have ij: "i < n" "j < n" "i \<noteq> j" using msg [OF append(2)] by auto
    have el: "(ae_Term args, i) \<in> elected S" using msg_okD [OF inv append(2)] by (simp add: Let_def)
    note snap = AppendEntries_snap [OF append(3)]
    show ?thesis
    proof (cases "currentTerm (nodes S j) \<le> ae_Term args")
      case True
      with hears_leader(1) [OF inv ij el True] snap append ij show ?thesis
        by (intro merged [of j rf]) (auto simp: same_snaps_def)
    next
      case False
      with snap(2) append show ?thesis by (intro kept) (auto simp: same_snaps_def)
    qed
  next
    case (append_reply i j args r ck rf)
    have ij: "i < n" "j < n" using msg [OF append_reply(2)] by auto
    have lc: "lastIncludedIndex (nodes S i) \<le> commitIndex (nodes S i)" using node_okD(2,3) [OF inv, of i] by simp
    have j: "j < length (peers (nodes S i))" using ij wf(3) by simp
    from append_reply(3) j wf(4,5) [OF ij(1)] lc
    have "snapState rf = snapState (nodes S i)" "keeps_log (nodes S i) rf"
      by (cases rule: handleAppendReply_cases; simp add: keeps_log_def)+
    with append_reply show ?thesis by (intro moved) (auto simp: same_snaps_def)
  next
    case (send_snapshot i j t args)
    from send_snapshot(5) have "is_LastIncludedIndex args = lastIncludedIndex (nodes S i)"
      "is_Data args = Mem_ReadSnapshot (persister (nodes S i))"
      by (auto simp: sendSnapshotToPeer_def split: if_splits)
    with send_snapshot show ?thesis by (intro sent) auto
  next
    case (install i j args ck r rf)
    have ij: "i < n" "j < n" "i \<noteq> j" using msg [OF install(2)] by auto
    have el: "(is_Term args, i) \<in> elected S" using msg_okD [OF inv install(2)] by (simp add: Let_def)
    show ?thesis
    proof (cases "currentTerm (nodes S j) \<le> is_Term args \<and> lastIncludedIndex (nodes S j) < is_LastIncludedIndex args")
      case True
      have "role rf = role (observeTerm ck (is_Term args) (nodes S j))"
        using install(3) True by (cases rule: InstallSnapshot_cases) simp_all
      with hears_leader(1) [OF inv ij el] InstallSnapshot_snap [OF install(3)] install ij True show ?thesis
        by (intro installed [of i j args rf]) (auto simp: same_snaps_def)
    next
      case False
      with InstallSnapshot_known [OF install(3)] install show ?thesis
        by (intro moved [of j rf]) (auto simp: same_snaps_def)
    qed
  next
    case (snapshot_reply i j args r ck rf)
    have ij: "i < n" "j < n" using msg [OF snapshot_reply(2)] by auto
    have j: "j < length (peers (nodes S i))" using ij wf(3) by simp
    from snapshot_reply(3) j wf(4,5) [OF ij(1)]
    have "snapState rf = snapState (nodes S i)" "keeps_log (nodes S i) rf"
      by (cases rule: handleSnapshotReply_cases; simp add: keeps_log_def)+
    with snapshot_reply show ?thesis by (intro moved) (auto simp: same_snaps_def)
  next
    case (kill i)
    then show ?thesis
      by (intro moved [of i "Kill (nodes S i)"]) (auto simp: same_snaps_def keeps_log_def, simp_all add: Kill_def)
  qed
qed

subsection \<open>What the leaders' logs hold\<close>

text \<open>Whoever leads after a step that is not a proposal holds the whole log it held before.\<close>

lemma net_step_leader:
  assumes "net_step n S S'" and "log_inv n S" and "role (nodes S' i) = Leader"
  shows "wholeLog (leaderLog S) (nodes S' i) = wholeLog (leaderLog S) (nodes S i)"
  using assms(1,2)
proof (cases rule: net_step_kinds)
  case kept
  then show ?thesis using whole_cong(1) by blast
qed (use assms(3) in auto)

text \<open>So every log of a leader after the step is a log of a leader or a peer before it.\<close>

lemma net_step_moves:
  assumes st: "net_step n S S'" and inv: "log_inv n S"
  shows "leaderLog S' = leaderLog S \<or>
    (\<exists>i<n. leaderLog S' = (leaderLog S)(currentTerm (nodes S' i) := wholeLog (leaderLog S) (nodes S' i)) \<and>
       role (nodes S' i) = Leader)"
proof -
  note msg = election_inv_wfD(2) [OF log_invD(1) [OF inv]]
  have moved: ?thesis if "nodes S' = (nodes S)(i := rf)" "leaderLog S' = leaderLog (moveTo i rf ms S)" "i < n" for i rf ms
    using that by (cases "role rf = Leader") auto
  from st show ?thesis
  proof cases
    case (vote i j args ck r rf)
    with moved [of j rf] msg [OF vote(2)] show ?thesis by simp
  next
    case (vote_reply i j args r el W ck el' rf)
    with moved [of i rf] election_inv_tallyD [OF log_invD(1) [OF inv] vote_reply(3)] show ?thesis by simp
  next
    case (append i j args ck r rf)
    with moved [of j rf] msg [OF append(2)] show ?thesis by simp
  next
    case (append_reply i j args r ck rf)
    with moved [of i rf] msg [OF append_reply(2)] show ?thesis by simp
  next
    case (install i j args ck r rf)
    with moved [of j rf] msg [OF install(2)] show ?thesis by simp
  next
    case (snapshot_reply i j args r ck rf)
    with moved [of i rf] msg [OF snapshot_reply(2)] show ?thesis by simp
  qed (use moved in simp_all)
qed

lemma net_step_logs:
  assumes "net_step n S S'" and "log_inv n S"
  shows "leaderLog S' t = leaderLog S t \<or> (\<exists>i<n. leaderLog S' t = wholeLog (leaderLog S) (nodes S i))"
  using net_step_moves [OF assms] net_step_leader [OF assms] by (metis fun_upd_apply)

end
