(* ===== verification/ReplicaGroup.thy ===== *)
theory ReplicaGroup
  imports RSM RaftSnapshots
begin

section \<open>A replica group: Raft peers, their state machines and the calls between them\<close>

text \<open>
  \<open>n\<close> processes, each with a Raft peer of \<open>RaftCluster\<close>, a replicated state machine of \<open>RSM\<close> and the
  messages its applier has handed over and its reader has not taken yet (the channel \<open>applyCh\<close> and
  the sends that wait for it). The critical sections and channel operations of \<open>Submit\<close>, of the
  applier and of the reader are steps of their own, in any interleaving with each other and with
  the steps of the Raft peers; a crash takes everything but the persister. The state machine is a
  parameter, given by its three operations and the state \<open>s0\<close> of a new one; \<open>mx\<close> is \<open>maxraftstate\<close>.

  A step that would panic is not taken, as in \<open>RaftCluster\<close>. The identifiers \<open>rand.Int63()\<close> draws are
  not negative and, as the code relies on, not drawn twice.

  Fields after the comment line are history variables, which no step reads.
\<close>

record 's group =
  g_raft :: "Op cluster"
  g_rsm :: "nat \<Rightarrow> 's rsm"
  g_applyCh :: "nat \<Rightarrow> Op ApplyMsg list"
  g_calls :: "nat \<Rightarrow> (pending \<times> nat option) set"
    \<comment> \<open>calls of \<open>Submit\<close> that \<open>Start\<close> accepted, with their channel once it is registered\<close>
  \<comment> \<open>history variables\<close>
  g_ops :: "int \<rightharpoonup> payload"                    \<comment> \<open>the operation submitted with an identifier\<close>
  g_place :: "int \<rightharpoonup> nat \<times> Op"                  \<comment> \<open>where \<open>Start\<close> put it, counting from 0\<close>
  g_applied :: "(int \<times> Op \<times> result) set"     \<comment> \<open>index, operation and reply of \<open>DoOp\<close>\<close>
  g_answers :: "(int \<times> result) set"           \<comment> \<open>calls that returned a reply\<close>
  g_before :: "(int \<times> int) set"               \<comment> \<open>\<open>(a, b)\<close>: \<open>a\<close> was answered before \<open>b\<close> was submitted\<close>
  g_lost :: bool                               \<comment> \<open>a peer with a compacted log has restarted\<close>

text \<open>\<open>Submit\<close> up to and including \<open>Start\<close>.\<close>

definition submitted :: "nat \<Rightarrow> int \<Rightarrow> payload \<Rightarrow> string + pending \<Rightarrow> Op raft \<Rightarrow> 's group \<Rightarrow> 's group" where
  "submitted i uid op ans rf S = S\<lparr>g_raft := moveTo i rf {} (g_raft S),
     g_calls := (case ans of Inl e \<Rightarrow> g_calls S
       | Inr p \<Rightarrow> (g_calls S)(i := insert (p, None) (g_calls S i))),
     g_ops := (g_ops S)(uid \<mapsto> op),
     g_place := (case ans of Inl e \<Rightarrow> g_place S
       | Inr p \<Rightarrow> (g_place S)(uid \<mapsto> (nat (pd_index p - 1), \<lparr>op_ID = uid, op_Payload = op\<rparr>))),
     g_before := g_before S \<union> {(a, uid) | a rep. (a, rep) \<in> g_answers S}\<rparr>"

text \<open>A call leaves: its answer is recorded when it is a reply.\<close>

definition answered ::
  "nat \<Rightarrow> pending \<times> nat option \<Rightarrow> string + result \<Rightarrow> 's rsm \<Rightarrow> 's group \<Rightarrow> 's group" where
  "answered i call ans r S = S\<lparr>g_rsm := (g_rsm S)(i := r),
     g_calls := (g_calls S)(i := g_calls S i - {call}),
     g_answers := (case ans of Inl e \<Rightarrow> g_answers S
       | Inr rep \<Rightarrow> insert (pd_id (fst call), rep) (g_answers S))\<rparr>"

text \<open>What the reader applies with a message, in the state it finds.\<close>

fun applied_by :: "(payload \<Rightarrow> 's \<Rightarrow> (result \<times> 's) option) \<Rightarrow> 's \<Rightarrow> Op ApplyMsg \<Rightarrow> (int \<times> Op \<times> result) set" where
  "applied_by doop s (CommandMsg (Some op) i) =
     (case doop (op_Payload op) s of None \<Rightarrow> {} | Some (rep, s') \<Rightarrow> {(i, op, rep)})"
| "applied_by doop s (CommandMsg None i) = {}"
| "applied_by doop s (SnapshotMsg d t i) = {}"

definition group_start :: "nat \<Rightarrow> 's \<Rightarrow> int \<Rightarrow> 's group \<Rightarrow> bool" where
  "group_start n s0 mx S \<longleftrightarrow> initial n (g_raft S) \<and> g_rsm S = (\<lambda>_. RSM_New s0 mx) \<and>
     g_applyCh S = (\<lambda>_. []) \<and> g_calls S = (\<lambda>_. {}) \<and> g_ops S = Map.empty \<and> g_place S = Map.empty \<and>
     g_applied S = {} \<and> g_answers S = {} \<and> g_before S = {} \<and> \<not> g_lost S"

inductive group_step ::
  "(payload \<Rightarrow> 's \<Rightarrow> (result \<times> 's) option) \<Rightarrow> ('s \<Rightarrow> Op bytes) \<Rightarrow> (Op bytes \<Rightarrow> 's \<Rightarrow> 's option) \<Rightarrow>
   (Op bytes \<Rightarrow> int) \<Rightarrow> nat \<Rightarrow> 's \<Rightarrow> int \<Rightarrow> 's group \<Rightarrow> 's group \<Rightarrow> bool"
  for doop :: "payload \<Rightarrow> 's \<Rightarrow> (result \<times> 's) option" and snapshot restore blen and n :: nat and s0 mx where
  raft: "net_step n (g_raft S) C \<Longrightarrow> group_step doop snapshot restore blen n s0 mx S (S\<lparr>g_raft := C\<rparr>)"
| submit: "\<lbrakk>i < n; 0 \<le> uid; g_ops S uid = None;
     Submit_start uid op (Some (nodes (g_raft S) i)) = (ans, Some rf)\<rbrakk> \<Longrightarrow>
    group_step doop snapshot restore blen n s0 mx S (submitted i uid op ans rf S)"
| register: "\<lbrakk>i < n; (p, None) \<in> g_calls S i; Submit_register p (g_rsm S i) = (ch, r)\<rbrakk> \<Longrightarrow>
    group_step doop snapshot restore blen n s0 mx S (S\<lparr>g_rsm := (g_rsm S)(i := r),
      g_calls := (g_calls S)(i := insert (p, Some ch) (g_calls S i - {(p, None)}))\<rparr>)"
| receive: "\<lbrakk>i < n; (p, Some ch) \<in> g_calls S i; Submit_receive p ch (g_rsm S i) = Some (ans, r)\<rbrakk> \<Longrightarrow>
    group_step doop snapshot restore blen n s0 mx S (answered i (p, Some ch) ans r S)"
| tick: "\<lbrakk>i < n; (p, Some ch) \<in> g_calls S i;
     Submit_tick p (nodes (g_raft S) i) (g_rsm S i) = Some (ans, r)\<rbrakk> \<Longrightarrow>
    group_step doop snapshot restore blen n s0 mx S (answered i (p, Some ch) ans r S)"
| apply_committed: "\<lbrakk>i < n; applier (nodes (g_raft S) i) = Some (msgs, rf)\<rbrakk> \<Longrightarrow>
    group_step doop snapshot restore blen n s0 mx S
      (S\<lparr>g_raft := deliver i msgs (moveTo i rf {} (g_raft S)),
         g_applyCh := (g_applyCh S)(i := g_applyCh S i @ msgs)\<rparr>)"
| read: "\<lbrakk>i < n; g_applyCh S i = m # ms;
     reader_msg doop snapshot restore blen m (g_rsm S i, nodes (g_raft S) i) = Some (r, rf)\<rbrakk> \<Longrightarrow>
    group_step doop snapshot restore blen n s0 mx S
      (S\<lparr>g_raft := moveTo i rf {} (g_raft S), g_rsm := (g_rsm S)(i := r),
         g_applyCh := (g_applyCh S)(i := ms),
         g_applied := g_applied S \<union> applied_by doop (rsm_sm (g_rsm S i)) m\<rparr>)"
| crash: "\<lbrakk>i < n; Make ck (peers (nodes (g_raft S) i)) (int i) (persister (nodes (g_raft S) i)) = Some rf\<rbrakk> \<Longrightarrow>
    group_step doop snapshot restore blen n s0 mx S
      (S\<lparr>g_raft := (moveTo i rf {} (g_raft S))
           \<lparr>elections := (elections (g_raft S))(i := (\<lambda>_. None))\<rparr>,
         g_rsm := (g_rsm S)(i := RSM_New s0 mx), g_applyCh := (g_applyCh S)(i := []),
         g_calls := (g_calls S)(i := {}), g_lost := (g_lost S \<or> 0 < lastIncludedIndex rf)\<rparr>)"

inductive group_reachable ::
  "(payload \<Rightarrow> 's \<Rightarrow> (result \<times> 's) option) \<Rightarrow> ('s \<Rightarrow> Op bytes) \<Rightarrow> (Op bytes \<Rightarrow> 's \<Rightarrow> 's option) \<Rightarrow>
   (Op bytes \<Rightarrow> int) \<Rightarrow> nat \<Rightarrow> 's \<Rightarrow> int \<Rightarrow> 's group \<Rightarrow> bool"
  for doop :: "payload \<Rightarrow> 's \<Rightarrow> (result \<times> 's) option" and snapshot restore blen and n :: nat and s0 mx where
  start: "group_start n s0 mx S \<Longrightarrow> group_reachable doop snapshot restore blen n s0 mx S"
| step: "\<lbrakk>group_reachable doop snapshot restore blen n s0 mx S;
     group_step doop snapshot restore blen n s0 mx S S'\<rbrakk> \<Longrightarrow>
    group_reachable doop snapshot restore blen n s0 mx S'"

end
