(* ===== verification/GroupHistory.thy ===== *)
theory GroupHistory
  imports ReplicaGroup
begin

section \<open>The committed history of a replica group\<close>

text \<open>
  The operations of a committed prefix of the log, as a list: committed prefixes agree, so any two
  histories are comparable, and a step of the group only adds histories. When every entry of every
  leader's log is one that \<open>Start\<close> put at its index (\<open>placed\<close>), an identifier has one index.
\<close>

definition placed :: "(int \<rightharpoonup> nat \<times> Op) \<Rightarrow> Op log \<Rightarrow> bool" where
  "placed P xs \<longleftrightarrow> (\<forall>k<length xs. \<exists>c. le_Command (xs ! k) = Some c \<and> P (op_ID c) = Some (k, c))"

definition all_placed :: "(int \<rightharpoonup> nat \<times> Op) \<Rightarrow> (int \<Rightarrow> Op log) \<Rightarrow> bool" where
  "all_placed P L \<longleftrightarrow> (\<forall>t. placed P (L t))"

definition history :: "nat \<Rightarrow> Op cluster \<Rightarrow> Op list \<Rightarrow> bool" where
  "history n C h \<longleftrightarrow> (\<exists>T xs. committed n (view C) T xs \<and> map le_Command xs = map Some h)"

lemma placed_agree:
  assumes "placed P ys" and "agree (length xs) xs ys"
  shows "placed P xs"
  using assms agree_nth [OF assms(2)] agree_length(2) [OF assms(2)] unfolding placed_def by auto

lemma placed_take: "placed P xs \<Longrightarrow> placed P (take m xs)"
  by (simp add: placed_def)

lemma placed_good:
  assumes "all_placed P L" and "good L T xs"
  shows "placed P xs"
  unfolding placed_def
proof (intro allI impI)
  fix k
  assume k: "k < length xs"
  have ag: "agree (Suc k) xs (L (lterm xs (Suc k)))" by (rule goodD(1) [OF assms(2)]) (use k in simp_all)
  have "xs ! k = L (lterm xs (Suc k)) ! k" "k < length (L (lterm xs (Suc k)))"
    using agree_nth [OF ag, of k] agree_length(2) [OF ag] by simp_all
  with assms(1) show "\<exists>c. le_Command (xs ! k) = Some c \<and> P (op_ID c) = Some (k, c)"
    unfolding all_placed_def placed_def by metis
qed

lemma placed_whole:
  assumes "log_inv n C" and "all_placed P (leaderLog C)" and "i < n"
  shows "placed P (wholeLog (leaderLog C) (nodes C i))"
  by (rule placed_good [OF assms(2) goods(1) [OF assms(1,3)]])

text \<open>A new operation at the end of a log whose identifier was not used before.\<close>

lemma placed_upd:
  assumes "placed P xs" and "P u = None"
  shows "placed (P(u \<mapsto> x)) xs"
  using assms unfolding placed_def by (metis fun_upd_apply option.distinct(1))

lemma placed_snoc:
  assumes "placed P xs" and "P (op_ID c) = None" and "le_Command e = Some c"
  shows "placed (P(op_ID c \<mapsto> (length xs, c))) (xs @ [e])"
  using placed_upd [OF assms(1,2), of "(length xs, c)"] assms(3)
  by (auto simp: placed_def nth_append less_Suc_eq)

subsection \<open>Histories\<close>

lemma history_Nil [simp]: "history n C []"
  by (auto simp: history_def committed_def)

lemma history_step:
  assumes "cluster_step n C C'" and "log_inv n C" and "history n C h"
  shows "history n C' h"
proof -
  have "astep n (view C) (view C')" using cluster_refines [OF assms(1,2)] by (simp add: refines_def)
  from committed_grows [OF this log_invD(2) [OF assms(2)]] assms(3) show ?thesis
    unfolding history_def by blast
qed

lemma history_frame [simp]:
  "history n (deliver i msgs C) h = history n C h" "history n (C\<lparr>elections := E\<rparr>) h = history n C h"
  by (simp_all add: history_def)

lemma history_comparable:
  assumes "log_inv n C" and "history n C h" and "history n C h'" and "length h \<le> length h'"
  shows "prefix h h'"
proof -
  from assms(2,3) obtain T xs U ys where c: "committed n (view C) T xs" "map le_Command xs = map Some h"
    "committed n (view C) U ys" "map le_Command ys = map Some h'"
    unfolding history_def by blast
  have len: "length xs = length h" "length ys = length h'" using c(2,4) map_eq_imp_length_eq by blast+
  have "h ! k = h' ! k" if k: "k < length h" for k
  proof -
    have "xs ! k = ys ! k"
      by (rule committed_commands [OF log_invD(2) [OF assms(1)] c(1,3)]) (use k len assms(4) in simp_all)
    moreover have "le_Command (xs ! k) = Some (h ! k)" "le_Command (ys ! k) = Some (h' ! k)"
      using c(2,4) k len assms(4) by (metis nth_map order_less_le_trans)+
    ultimately show ?thesis by simp
  qed
  then have "h = take (length h) h'" by (intro nth_equalityI) (use assms(4) in simp_all)
  then show ?thesis by (metis take_is_prefix)
qed

lemma history_placed:
  assumes "log_inv n C" and "all_placed P (leaderLog C)" and "history n C h" and "k < length h"
  shows "P (op_ID (h ! k)) = Some (k, h ! k)"
proof -
  from assms(3) obtain T xs where c: "committed n (view C) T xs" "map le_Command xs = map Some h"
    unfolding history_def by blast
  have len: "length xs = length h" using c(2) map_eq_imp_length_eq by blast
  with c(1) assms(4) obtain t where "agree (length xs) xs (leaderLog C t)"
    by (auto simp: committed_def)
  then have "placed P xs" using assms(2) placed_agree unfolding all_placed_def by blast
  moreover have "le_Command (xs ! k) = Some (h ! k)" using c(2) assms(4) len by (metis nth_map)
  ultimately show ?thesis using assms(4) len by (auto simp: placed_def)
qed

lemma history_distinct:
  assumes "log_inv n C" and "all_placed P (leaderLog C)" and "history n C h"
  shows "distinct (map op_ID h)"
proof -
  have inj: "op_ID (h ! i) \<noteq> op_ID (h ! j)" if "i < length h" "j < length h" "i \<noteq> j" for i j
    using history_placed [OF assms that(1)] history_placed [OF assms that(2)] that(3) by auto
  show ?thesis
    unfolding distinct_conv_nth length_map
  proof (intro allI impI)
    fix i j
    assume "i < length h" "j < length h" "i \<noteq> j"
    with inj [OF this] show "map op_ID h ! i \<noteq> map op_ID h ! j" by simp
  qed
qed

text \<open>What a peer considers committed is a history.\<close>

lemma history_commit:
  assumes "log_inv n C" and "all_placed P (leaderLog C)" and "i < n"
  obtains h where "history n C h" and "length h = nat (commitIndex (nodes C i))"
    and "\<And>k. k < length h \<Longrightarrow> le_Command (wholeLog (leaderLog C) (nodes C i) ! k) = Some (h ! k)"
proof -
  let ?w = "wholeLog (leaderLog C) (nodes C i)" and ?c = "nat (commitIndex (nodes C i))"
  let ?h = "map (\<lambda>e. the (le_Command e)) (take ?c ?w)"
  note cm = commitD(1,2) [OF log_invD(2) [OF assms(1)] assms(3)]
  have some: "le_Command (?w ! k) = Some (the (le_Command (?w ! k)))" if "k < length ?w" for k
    using placed_whole [OF assms] that unfolding placed_def by force
  show ?thesis
  proof
    have "map le_Command (take ?c ?w) = map Some ?h"
      using some by (intro nth_equalityI) simp_all
    with cm(2) show "history n C ?h"
      unfolding history_def view_simps by (intro exI conjI)
    show "length ?h = ?c" using cm(1) by simp
    show "le_Command (?w ! k) = Some (?h ! k)" if "k < length ?h" for k using that some by simp
  qed
qed

end
