(* ===== verification/GroupInvariant.thy ===== *)
theory GroupInvariant
  imports GroupHistory
begin

section \<open>The invariant of a replica group\<close>

text \<open>
  As long as no peer with a compacted log has restarted, there is a committed history that explains
  everything: each replica's state machine is in the state the first \<open>lastApplied\<close> operations of it
  compute, what is on its way through \<open>applyCh\<close> and the Raft peer's waiting snapshot continues from
  there up to the index the peer has applied, every snapshot saved or sent is the state of the
  history at its index, and every reply is the one \<open>DoOp\<close> gives at the operation's place.
\<close>

subsection \<open>The parts that do not depend on the state machine\<close>

text \<open>The snapshot the applier sends before anything else.\<close>

definition waiting :: "'c raft \<Rightarrow> 'c ApplyMsg list" where
  "waiting rf = (if pendingSnapshotValid rf
     then [SnapshotMsg (pendingSnapshot rf) (pendingSnapshotTerm rf) (pendingSnapshotIndex rf)] else [])"

definition ids_ok :: "'s group \<Rightarrow> bool" where
  "ids_ok S \<longleftrightarrow> (\<forall>u k c. g_place S u = Some (k, c) \<longrightarrow> op_ID c = u \<and> g_ops S u = Some (op_Payload c))"

definition calls_ok :: "nat \<Rightarrow> 's group \<Rightarrow> bool" where
  "calls_ok n S \<longleftrightarrow>
     (\<forall>i<n. answers_ok (g_applied S) (g_rsm S i) \<and>
        (\<forall>p c. (p, c) \<in> g_calls S i \<longrightarrow> 0 \<le> pd_id p \<and>
           (\<forall>ch. c = Some ch \<longrightarrow> ch < length (rsm_chans (g_rsm S i))))) \<and>
     (\<forall>u rep. (u, rep) \<in> g_answers S \<longrightarrow> (\<exists>k op. (k, op, rep) \<in> g_applied S \<and> op_ID op = u))"

text \<open>An operation answered before another was submitted has its place, and the other is not at or
  before that place.\<close>

definition before_ok :: "Op list \<Rightarrow> 's group \<Rightarrow> bool" where
  "before_ok h S \<longleftrightarrow> (\<forall>a b. (a, b) \<in> g_before S \<longrightarrow>
     (\<exists>k c. g_place S a = Some (k, c) \<and> k < length h \<and> (\<forall>j\<le>k. op_ID (h ! j) \<noteq> b)))"

lemma waiting_snap: "snapState rf' = snapState rf \<Longrightarrow> waiting rf' = waiting rf"
  by (simp add: snapState_def waiting_def)

lemma before_ok_mono:
  assumes "prefix h h'" and "before_ok h S"
  shows "before_ok h' S"
proof -
  obtain zs where z: "h' = h @ zs" using assms(1) by (auto simp: prefix_def)
  have "\<exists>k c. g_place S a = Some (k, c) \<and> k < length h' \<and> (\<forall>j\<le>k. op_ID (h' ! j) \<noteq> b)"
    if ab: "(a, b) \<in> g_before S" for a b
  proof -
    obtain k c where k: "g_place S a = Some (k, c)" "k < length h" "\<forall>j\<le>k. op_ID (h ! j) \<noteq> b"
      using assms(2) ab unfolding before_ok_def by blast
    then have "\<forall>j\<le>k. op_ID (h' ! j) \<noteq> b" by (auto simp: z nth_append)
    with k z show ?thesis by auto
  qed
  then show ?thesis unfolding before_ok_def by blast
qed

lemma applier_waiting:
  assumes "log_inv n C" and "i < n" and "applier (nodes C i) = Some (msgs, rf)"
  obtains (kept) "msgs @ waiting rf = waiting (nodes C i)" "lastApplied rf = lastApplied (nodes C i)"
  | (commands) "waiting (nodes C i) = []" "waiting rf = []"
      "msgs = deliveries (lastApplied (nodes C i) + 1) (commitIndex (nodes C i)) (nodes C i)"
      "lastApplied rf = commitIndex (nodes C i)"
proof -
  from assms(3) node_okD(2,3) [OF assms(1)] commit_in_log [OF assms(1,2)] show ?thesis
  proof (cases rule: applier_cases)
    case idle
    then show ?thesis by (intro kept) simp_all
  next
    case snapshot
    then show ?thesis by (intro kept) (simp_all add: waiting_def)
  next
    case commands
    show ?thesis
    proof (cases "pendingSnapshotValid (nodes C i)")
      case True
      then show ?thesis using assms(3)
        by (intro kept) (auto simp: applier_def waiting_def split: if_splits)
    next
      case False
      with commands show ?thesis by (intro that(2)) (simp_all add: waiting_def)
    qed
  qed
qed

lemma applier_fields:
  assumes "log_inv n C" and "i < n" and "applier (nodes C i) = Some (msgs, rf)"
  shows "lastIncludedIndex rf = lastIncludedIndex (nodes C i)" "persister rf = persister (nodes C i)"
    "pendingSnapshotIndex rf = pendingSnapshotIndex (nodes C i)"
    "pendingSnapshotValid rf \<Longrightarrow> pendingSnapshotValid (nodes C i)"
  using applier_shape [OF assms] by auto

context state_machine
begin

subsection \<open>The parts that do\<close>

definition snap_ok :: "Op list \<Rightarrow> 's \<Rightarrow> int \<Rightarrow> Op bytes option \<Rightarrow> bool" where
  "snap_ok h s0 k d \<longleftrightarrow> 0 \<le> k \<and> nat k \<le> length h \<and> (\<exists>m. after h s0 k = Some m \<and> d = Some (snapshot m))"

definition replica_ok :: "Op list \<Rightarrow> 's \<Rightarrow> Op raft \<Rightarrow> 's rsm \<Rightarrow> Op ApplyMsg list \<Rightarrow> bool" where
  "replica_ok h s0 rf r q \<longleftrightarrow> in_step h s0 r \<and> follows h s0 (rsm_lastApplied r) (q @ waiting rf) \<and>
     reached (rsm_lastApplied r) (q @ waiting rf) = lastApplied rf \<and>
     (pendingSnapshotValid rf \<longrightarrow> pendingSnapshotIndex rf \<le> lastIncludedIndex rf) \<and>
     (0 < lastIncludedIndex rf \<longrightarrow>
        snap_ok h s0 (lastIncludedIndex rf) (Mem_ReadSnapshot (persister rf)))"

definition sent_ok :: "Op list \<Rightarrow> 's \<Rightarrow> Op cluster \<Rightarrow> bool" where
  "sent_ok h s0 C \<longleftrightarrow> (\<forall>i j args. SnapReq i j args \<in> net C \<and> 0 < is_LastIncludedIndex args \<longrightarrow>
     snap_ok h s0 (is_LastIncludedIndex args) (is_Data args))"

definition applied_ok :: "Op list \<Rightarrow> 's \<Rightarrow> (int \<times> Op \<times> result) set \<Rightarrow> bool" where
  "applied_ok h s0 A \<longleftrightarrow> (\<forall>k op rep. (k, op, rep) \<in> A \<longrightarrow> 0 < k \<and> nat k \<le> length h \<and> h ! nat (k - 1) = op \<and>
     (\<exists>m m'. after h s0 (k - 1) = Some m \<and> doop (op_Payload op) m = Some (rep, m')))"

definition explains :: "nat \<Rightarrow> 's \<Rightarrow> 's group \<Rightarrow> Op list \<Rightarrow> bool" where
  "explains n s0 S h \<longleftrightarrow> history n (g_raft S) h \<and> all_placed (g_place S) (leaderLog (g_raft S)) \<and>
     ids_ok S \<and> calls_ok n S \<and> before_ok h S \<and> applied_ok h s0 (g_applied S) \<and> sent_ok h s0 (g_raft S) \<and>
     (\<forall>i<n. replica_ok h s0 (nodes (g_raft S) i) (g_rsm S i) (g_applyCh S i))"

definition group_inv :: "nat \<Rightarrow> 's \<Rightarrow> 's group \<Rightarrow> bool" where
  "group_inv n s0 S \<longleftrightarrow> (\<not> g_lost S \<longrightarrow> reachable n (g_raft S) \<and> (\<exists>h. explains n s0 S h))"

lemma explainsD:
  assumes "explains n s0 S h"
  shows "history n (g_raft S) h" "all_placed (g_place S) (leaderLog (g_raft S))" "ids_ok S" "calls_ok n S"
    "before_ok h S" "applied_ok h s0 (g_applied S)" "sent_ok h s0 (g_raft S)"
    "i < n \<Longrightarrow> replica_ok h s0 (nodes (g_raft S) i) (g_rsm S i) (g_applyCh S i)"
  using assms unfolding explains_def by blast+

lemma replica_okD:
  assumes "replica_ok h s0 rf r q"
  shows "in_step h s0 r" "follows h s0 (rsm_lastApplied r) (q @ waiting rf)"
    "reached (rsm_lastApplied r) (q @ waiting rf) = lastApplied rf"
    "pendingSnapshotValid rf \<Longrightarrow> pendingSnapshotIndex rf \<le> lastIncludedIndex rf"
    "0 < lastIncludedIndex rf \<Longrightarrow> snap_ok h s0 (lastIncludedIndex rf) (Mem_ReadSnapshot (persister rf))"
  using assms unfolding replica_ok_def by blast+

lemma replica_ok_cong: "snapState rf' = snapState rf \<Longrightarrow> replica_ok h s0 rf' r q = replica_ok h s0 rf r q"
  by (simp add: replica_ok_def waiting_def snapState_def)

subsection \<open>A longer history explains the same\<close>

lemma in_step_mono: "prefix h h' \<Longrightarrow> in_step h s0 r \<Longrightarrow> in_step h' s0 r"
  using after_mono [of h h' "rsm_lastApplied r" s0] prefix_length_le [of h h'] by (simp add: in_step_def)

lemma snap_ok_mono: "prefix h h' \<Longrightarrow> snap_ok h s0 k d \<Longrightarrow> snap_ok h' s0 k d"
  using after_mono [of h h' k s0] prefix_length_le [of h h'] by (auto simp: snap_ok_def)

lemma replica_ok_mono: "prefix h h' \<Longrightarrow> replica_ok h s0 rf r q \<Longrightarrow> replica_ok h' s0 rf r q"
  using in_step_mono snap_ok_mono follows_mono unfolding replica_ok_def by blast

lemma applied_ok_mono:
  assumes "prefix h h'" and "applied_ok h s0 A"
  shows "applied_ok h' s0 A"
proof -
  have "0 < k \<and> nat k \<le> length h' \<and> h' ! nat (k - 1) = op \<and>
      (\<exists>m m'. after h' s0 (k - 1) = Some m \<and> doop (op_Payload op) m = Some (rep, m'))"
    if "(k, op, rep) \<in> A" for k op rep
  proof -
    have o: "0 < k" "nat k \<le> length h" "h ! nat (k - 1) = op"
      "\<exists>m m'. after h s0 (k - 1) = Some m \<and> doop (op_Payload op) m = Some (rep, m')"
      using assms(2) that unfolding applied_ok_def by blast+
    then have k: "nat (k - 1) < length h" by linarith
    then have "after h' s0 (k - 1) = after h s0 (k - 1)" by (intro after_mono [OF assms(1)]) simp
    moreover have "h' ! nat (k - 1) = h ! nat (k - 1)" using assms(1) k by (auto simp: prefix_def nth_append)
    ultimately show ?thesis using o prefix_length_le [OF assms(1)] by simp
  qed
  then show ?thesis unfolding applied_ok_def by blast
qed

lemma explains_longer:
  assumes "explains n s0 S h" and "prefix h h'" and "history n (g_raft S) h'"
  shows "explains n s0 S h'"
proof -
  note e = explainsD [OF assms(1)]
  have "sent_ok h' s0 (g_raft S)" using e(7) snap_ok_mono [OF assms(2)] unfolding sent_ok_def by blast
  with e assms(3) before_ok_mono [OF assms(2)] applied_ok_mono [OF assms(2)] replica_ok_mono [OF assms(2)]
  show ?thesis unfolding explains_def by blast
qed

end

end
