(* ===== verification/GroupSafety.thy ===== *)
theory GroupSafety
  imports GroupInvariant
begin

section \<open>Every step of a replica group keeps its history\<close>

subsection \<open>What Submit leaves alone\<close>

lemma Submit_register_fields:
  assumes "Submit_register p r = (ch, r')"
  shows "ch = length (rsm_chans r)" "length (rsm_chans r') = Suc (length (rsm_chans r))"
    "rsm_sm r' = rsm_sm r" "rsm_lastApplied r' = rsm_lastApplied r"
  using assms by (auto simp: Submit_register_def Let_def)

lemma Submit_leave_fields [simp]:
  "rsm_sm (Submit_leave p r) = rsm_sm r" "rsm_lastApplied (Submit_leave p r) = rsm_lastApplied r"
  "rsm_chans (Submit_leave p r) = rsm_chans r"
  by (simp_all add: Submit_leave_def)

lemma Submit_receive_fields:
  assumes "Submit_receive p ch r = Some (ans, r')"
  shows "rsm_sm r' = rsm_sm r" "rsm_lastApplied r' = rsm_lastApplied r"
    "length (rsm_chans r') = length (rsm_chans r)"
    "ans = Inr rep \<Longrightarrow> rsm_chans r ! ch = Some (pd_id p, rep)"
  using assms by (auto simp: Submit_receive_def split: option.splits prod.splits if_splits)

lemma Submit_tick_fields:
  assumes "Submit_tick p rf r = Some (ans, r')"
  shows "rsm_sm r' = rsm_sm r" "rsm_lastApplied r' = rsm_lastApplied r" "rsm_chans r' = rsm_chans r"
    "\<exists>e. ans = Inl e"
  using assms by (auto simp: Submit_tick_def split: prod.splits if_splits)

lemma reader_msg_fields:
  assumes "reader_msg doop snapshot restore blen m (r, rf) = Some (r', rf')"
  shows "length (rsm_chans r') = length (rsm_chans r)"
proof (cases m)
  case (CommandMsg c i)
  then show ?thesis
    using assms by (cases c) (auto simp: reader_msg_def elim: reader_command_cases)
next
  case (SnapshotMsg d t i)
  with assms show ?thesis
    by (auto simp: reader_msg_def reader_snapshot_def split: if_splits Option.bind_splits)
qed

lemma Submit_start_cases:
  assumes "Submit_start u op (Some rf) = (ans, Some rf')"
  obtains (refused) e where "ans = Inl e" "rf' = rf" "role rf \<noteq> Leader"
  | (accepted) p where "ans = Inr p" "role rf = Leader" "pd_id p = u" "pd_index p = getLastLogIndex rf + 1"
      "rf' = persist (rf\<lparr>rlog := rlog rf @ [\<lparr>le_Term = currentTerm rf, le_Index = getLastLogIndex rf + 1,
         le_Command = Some \<lparr>op_ID = u, op_Payload = op\<rparr>\<rparr>]\<rparr>)"
proof (cases "role rf = Leader")
  case True
  then show ?thesis
    by (intro accepted) (use assms in \<open>auto simp: Submit_start_def Start_def Let_def\<close>)
next
  case False
  then show ?thesis
    by (intro refused) (use assms in \<open>auto simp: Submit_start_def Start_def Let_def\<close>)
qed

lemma Submit_start_Start:
  "Submit_start u op (Some rf) = (ans, Some rf') \<Longrightarrow> \<exists>res. Start \<lparr>op_ID = u, op_Payload = op\<rparr> rf = (res, rf')"
  by (auto simp: Submit_start_def split: prod.splits if_splits)

lemma answers_ok_msg:
  assumes "answers_ok H r" and rd: "reader_msg doop snapshot restore blen m (r, rf) = Some (r', rf')"
  shows "answers_ok (H \<union> applied_by doop (rsm_sm r) m) r'"
proof (cases m)
  case (CommandMsg c i)
  show ?thesis
  proof (cases c)
    case None
    with CommandMsg assms show ?thesis by (simp add: reader_msg_def)
  next
    case (Some op)
    with CommandMsg rd have rc: "reader_command doop snapshot blen op i (r, rf) = Some (r', rf')"
      by (simp add: reader_msg_def)
    then obtain rep sm where d: "doop (op_Payload op) (rsm_sm r) = Some (rep, sm)" by (rule reader_command_cases)
    from answers_ok_command [OF assms(1) rc d] CommandMsg Some d show ?thesis by simp
  qed
next
  case (SnapshotMsg d t i)
  with assms answers_ok_snapshot show ?thesis by (fastforce simp: reader_msg_def)
qed

lemma Raft_Snapshot_snap:
  assumes "Raft_Snapshot i (Some d) rf = Some rf'"
  shows "snapState rf' = (if i \<le> lastIncludedIndex rf then snapState rf
    else (i, Some d, lastApplied rf, pendingSnapshotValid rf, pendingSnapshotIndex rf, pendingSnapshotTerm rf,
      pendingSnapshot rf))"
  using assms by (auto simp: Raft_Snapshot_def snapState_def Let_def Mem_defs split: if_splits Option.bind_splits)

lemma Raft_Snapshot_idle: "Raft_Snapshot (lastIncludedIndex rf) d rf = Some rf"
  by (simp add: Raft_Snapshot_def)

lemma reached_append: "reached k (ms @ ns) = reached (reached k ms) ns"
  by (induction k ms rule: reached.induct) simp_all

context state_machine
begin

lemma replica_ok_rsm:
  "rsm_sm r' = rsm_sm r \<Longrightarrow> rsm_lastApplied r' = rsm_lastApplied r \<Longrightarrow>
     replica_ok h s0 rf r' q = replica_ok h s0 rf r q"
  by (simp add: replica_ok_def in_step_def)

subsection \<open>A step of the Raft peers\<close>

lemma replica_installed:
  assumes ok: "replica_ok h s0 rf r q" and sn: "snap_ok h s0 i d" and lt: "lastIncludedIndex rf < i"
    and s: "snapState rf' = (i, (if d = None then x else d), max (lastApplied rf) i, True, i, t, d)"
  shows "replica_ok h s0 rf' r q"
proof -
  from sn obtain m where m: "0 \<le> i" "nat i \<le> length h" "after h s0 i = Some m" "d = Some (snapshot m)"
    by (auto simp: snap_ok_def)
  have s': "lastIncludedIndex rf' = i" "Mem_ReadSnapshot (persister rf') = d" "lastApplied rf' = max (lastApplied rf) i"
    "waiting rf' = [SnapshotMsg d t i]" "pendingSnapshotIndex rf' = i"
    using s m(4) by (simp_all add: snapState_def waiting_def)
  note o = replica_okD [OF ok]
  let ?k = "rsm_lastApplied r"
  have q: "follows h s0 ?k q" using o(2) follows_append by blast
  have "max (reached ?k q) i = max (lastApplied rf) i"
  proof (cases "pendingSnapshotValid rf")
    case True
    from True o(3) have "max (reached ?k q) (pendingSnapshotIndex rf) = lastApplied rf"
      by (simp add: waiting_def reached_append)
    then show ?thesis using o(4) [OF True] lt by linarith
  next
    case False
    then show ?thesis using o(3) by (simp add: waiting_def)
  qed
  moreover have "reached ?k (q @ [SnapshotMsg d t i]) = max (reached ?k q) i" by (simp add: reached_append)
  moreover have "follows h s0 ?k (q @ [SnapshotMsg d t i])"
    using q m by (simp add: follows_append slice_def)
  ultimately show ?thesis using o(1) s' sn unfolding replica_ok_def by simp
qed

lemma raft_explains:
  assumes st: "net_step n (g_raft S) C" and re: "reachable n (g_raft S)" and ex: "explains n s0 S h"
  shows "explains n s0 (S\<lparr>g_raft := C\<rparr>) h"
proof -
  note inv = log_inv_reachable [OF re] and e = explainsD [OF ex]
  have "all_placed (g_place S) (leaderLog C)"
    using net_step_logs [OF st inv] placed_whole [OF inv e(2)] e(2) unfolding all_placed_def by metis
  moreover have "sent_ok h s0 C \<and> (\<forall>i<n. replica_ok h s0 (nodes C i) (g_rsm S i) (g_applyCh S i))"
    using st inv
  proof (cases rule: net_step_kinds)
    case kept
    then show ?thesis using e(7,8) replica_ok_cong [OF kept(1)] by (simp add: sent_ok_def same_snaps_def)
  next
    case (merged j rf)
    then show ?thesis using e(7,8) replica_ok_cong [OF merged(4)] by (simp add: sent_ok_def same_snaps_def)
  next
    case (sent i j args)
    have "snap_ok h s0 (is_LastIncludedIndex args) (is_Data args)" if "0 < is_LastIncludedIndex args"
      using replica_okD(5) [OF e(8) [OF sent(1)]] that sent(4,5) by simp
    with sent e(7,8) show ?thesis by (auto simp: sent_ok_def)
  next
    case (installed i j args rf)
    have "0 \<le> lastIncludedIndex (nodes (g_raft S) j)" using node_okD(1) [OF inv, of j] by (simp add: based_def)
    with installed(1,6) e(7) have "snap_ok h s0 (is_LastIncludedIndex args) (is_Data args)"
      unfolding sent_ok_def by (metis order_le_less_trans)
    from replica_installed [OF e(8) [OF installed(2)] this installed(6,7)] installed(3,4) e(7,8)
    show ?thesis by (simp add: sent_ok_def same_snaps_def)
  qed
  moreover have "history n C h" by (rule history_step [OF cluster_step.network [OF st] inv e(1)])
  moreover have "calls_ok n (S\<lparr>g_raft := C\<rparr>)" "ids_ok (S\<lparr>g_raft := C\<rparr>)" "before_ok h (S\<lparr>g_raft := C\<rparr>)"
    using e(3-5) by (simp_all add: calls_ok_def ids_ok_def before_ok_def)
  ultimately show ?thesis using e(6) unfolding explains_def by simp
qed

subsection \<open>Submitting and leaving\<close>

lemma lost_frame [simp]:
  "g_lost (submitted i u op ans rf S) = g_lost S" "g_lost (answered i call a r S) = g_lost S"
  by (simp_all add: submitted_def answered_def)

lemma place_fresh: "ids_ok S \<Longrightarrow> g_ops S u = None \<Longrightarrow> g_place S u = None"
  unfolding ids_ok_def by (metis option.collapse option.distinct(1) prod.collapse)

lemma answered_placed:
  assumes ex: "explains n s0 S h" and re: "reachable n (g_raft S)" and a: "(a, rep) \<in> g_answers S"
  obtains k c where "g_place S a = Some (k, c)" "k < length h" "h ! k = c" "op_ID c = a"
    "\<exists>m m'. after h s0 (int k) = Some m \<and> doop (op_Payload c) m = Some (rep, m')"
proof -
  note inv = log_inv_reachable [OF re] and e = explainsD [OF ex]
  obtain k op where k: "(k, op, rep) \<in> g_applied S" "op_ID op = a"
    using a e(4) unfolding calls_ok_def by blast
  with e(6) have o: "0 < k" "nat k \<le> length h" "h ! nat (k - 1) = op"
    "\<exists>m m'. after h s0 (k - 1) = Some m \<and> doop (op_Payload op) m = Some (rep, m')"
    unfolding applied_ok_def by blast+
  then have lt: "nat (k - 1) < length h" "int (nat (k - 1)) = k - 1" by linarith+
  show ?thesis
    by (rule that [of "nat (k - 1)" op])
      (use history_placed [OF inv e(2,1) lt(1)] o(3,4) lt k(2) in simp_all)
qed

lemma submit_placed:
  assumes inv: "log_inv n C" and i: "i < n" and al: "all_placed P (leaderLog C)" and fr: "P u = None"
    and st: "Submit_start u op (Some (nodes C i)) = (ans, Some rf)"
  shows "all_placed (case ans of Inl e \<Rightarrow> P
      | Inr p \<Rightarrow> P(u \<mapsto> (nat (pd_index p - 1), \<lparr>op_ID = u, op_Payload = op\<rparr>)))
    (leaderLog (moveTo i rf ms C))"
  using st
proof (cases rule: Submit_start_cases)
  case (refused e)
  then show ?thesis using al by simp
next
  case (accepted p)
  let ?w = "wholeLog (leaderLog C) (nodes C i)" and ?c = "\<lparr>op_ID = u, op_Payload = op\<rparr>"
  let ?e = "\<lparr>le_Term = currentTerm (nodes C i), le_Index = getLastLogIndex (nodes C i) + 1, le_Command = Some ?c\<rparr>"
  have b: "based (leaderLog C) (nodes C i)" by (rule node_okD(1) [OF inv])
  then have w: "wholeLog (leaderLog C) rf = ?w @ [?e]"
    unfolding accepted(5) by (intro whole_propose) (simp add: based_def)
  have pos: "nat (pd_index p - 1) = length ?w" using accepted(4) wholeLog_last [OF b] by simp
  have rf: "role rf = Leader" using accepted(2,5) by (simp add: frame_simps)
  have new: "placed (P(u \<mapsto> (length ?w, ?c))) (?w @ [?e])"
    using placed_snoc [of P ?w ?c ?e] placed_whole [OF inv al i] fr by simp
  have old: "placed (P(u \<mapsto> (length ?w, ?c))) (leaderLog C t)" for t
    using placed_upd [of P "leaderLog C t" u] al fr by (simp add: all_placed_def)
  show ?thesis using new old by (simp add: accepted(1) pos all_placed_def w rf)
qed

lemma submit_explains:
  assumes i: "i < n" and u: "0 \<le> u" "g_ops S u = None"
    and st: "Submit_start u op (Some (nodes (g_raft S) i)) = (ans, Some rf)"
    and re: "reachable n (g_raft S)" and ex: "explains n s0 S h"
  shows "explains n s0 (submitted i u op ans rf S) h"
proof -
  note inv = log_inv_reachable [OF re] and e = explainsD [OF ex]
  let ?S = "submitted i u op ans rf S" and ?C = "moveTo i rf {} (g_raft S)"
  have fields: "g_raft ?S = ?C" "g_rsm ?S = g_rsm S" "g_applyCh ?S = g_applyCh S" "g_applied ?S = g_applied S"
    "g_answers ?S = g_answers S"
    by (simp_all add: submitted_def)
  obtain res where start: "Start \<lparr>op_ID = u, op_Payload = op\<rparr> (nodes (g_raft S) i) = (res, rf)"
    using Submit_start_Start [OF st] by blast
  have fr: "g_place S u = None" by (rule place_fresh [OF e(3) u(2)])
  have pid: "pd_id p = u" if "ans = Inr p" for p
    using st that by (cases rule: Submit_start_cases) auto
  have "history n ?C h" by (rule history_step [OF cluster_step.propose [OF i start] inv e(1)])
  moreover have "all_placed (g_place ?S) (leaderLog ?C)"
    using submit_placed [OF inv i e(2) fr st, of "{}"] by (simp add: submitted_def)
  moreover have "ids_ok ?S"
  proof -
    have "op_ID c = v \<and> g_ops ?S v = Some (op_Payload c)" if "g_place ?S v = Some (k, c)" for v k c
    proof (cases "v = u")
      case True
      with that fr show ?thesis by (auto simp: submitted_def split: sum.splits)
    next
      case False
      with that have "g_place S v = Some (k, c)" by (simp add: submitted_def split: sum.splits)
      with e(3) False show ?thesis by (simp add: ids_ok_def submitted_def)
    qed
    then show ?thesis unfolding ids_ok_def by blast
  qed
  moreover have "calls_ok n ?S"
    using e(4) u(1) pid unfolding calls_ok_def fields by (auto simp: submitted_def split: sum.splits if_splits)
  moreover have "before_ok h ?S"
  proof -
    have "\<exists>k c. g_place ?S a = Some (k, c) \<and> k < length h \<and> (\<forall>j\<le>k. op_ID (h ! j) \<noteq> b)"
      if ab: "(a, b) \<in> g_before ?S" for a b
    proof -
      have keep: "g_place ?S a = g_place S a" if "g_place S a \<noteq> None"
        using that fr by (auto simp: submitted_def split: sum.splits)
      show ?thesis
      proof (cases "(a, b) \<in> g_before S")
        case True
        with e(5) obtain k c where "g_place S a = Some (k, c)" "k < length h" "\<forall>j\<le>k. op_ID (h ! j) \<noteq> b"
          unfolding before_ok_def by blast
        with keep show ?thesis by auto
      next
        case False
        with ab obtain rep where b: "b = u" "(a, rep) \<in> g_answers S" by (auto simp: submitted_def)
        obtain k c where k: "g_place S a = Some (k, c)" "k < length h" by (rule answered_placed [OF ex re b(2)])
        have "op_ID (h ! j) \<noteq> u" if "j \<le> k" for j
          using history_placed [OF inv e(2,1), of j] that k(2) fr by auto
        with k keep b(1) show ?thesis by auto
      qed
    qed
    then show ?thesis unfolding before_ok_def by blast
  qed
  moreover have "sent_ok h s0 ?C" using e(7) by (simp add: sent_ok_def)
  moreover have "\<forall>k<n. replica_ok h s0 (nodes ?C k) (g_rsm S k) (g_applyCh S k)"
    using e(8) replica_ok_cong [OF snapState_Start [OF start]] by simp
  ultimately show ?thesis using e(6) unfolding explains_def fields by blast
qed

lemma register_explains:
  assumes i: "i < n" and c: "(p, None) \<in> g_calls S i"
    and rg: "Submit_register p (g_rsm S i) = (ch, r)" and ex: "explains n s0 S h"
  shows "explains n s0 (S\<lparr>g_rsm := (g_rsm S)(i := r),
    g_calls := (g_calls S)(i := insert (p, Some ch) (g_calls S i - {(p, None)}))\<rparr>) h" (is "explains n s0 ?S h")
proof -
  note e = explainsD [OF ex] and f = Submit_register_fields [OF rg]
  have "answers_ok (g_applied S) r"
    using answers_ok_register [of "g_applied S" "g_rsm S i" p] e(4) i rg by (simp add: calls_ok_def)
  then have "calls_ok n ?S" using e(4) i c f(1,2) unfolding calls_ok_def by (auto simp: less_SucI)
  moreover have "\<forall>k<n. replica_ok h s0 (nodes (g_raft S) k) (g_rsm ?S k) (g_applyCh S k)"
    using e(8) replica_ok_rsm [OF f(3,4)] by simp
  moreover have "ids_ok ?S" "before_ok h ?S" using e(3,5) by (simp_all add: ids_ok_def before_ok_def)
  ultimately show ?thesis using e unfolding explains_def by simp
qed

lemma answered_explains:
  assumes i: "i < n" and c: "(p, Some ch) \<in> g_calls S i"
    and same: "rsm_sm r = rsm_sm (g_rsm S i)" "rsm_lastApplied r = rsm_lastApplied (g_rsm S i)"
      "length (rsm_chans r) = length (rsm_chans (g_rsm S i))" "answers_ok (g_applied S) r"
    and ans: "\<And>rep. ans = Inr rep \<Longrightarrow> rsm_chans (g_rsm S i) ! ch = Some (pd_id p, rep)"
    and ex: "explains n s0 S h"
  shows "explains n s0 (answered i (p, Some ch) ans r S) h" (is "explains n s0 ?S h")
proof -
  note e = explainsD [OF ex]
  have p: "0 \<le> pd_id p" "ch < length (rsm_chans (g_rsm S i))" "answers_ok (g_applied S) (g_rsm S i)"
    using e(4) i c unfolding calls_ok_def by blast+
  have fields: "g_raft ?S = g_raft S" "g_applied ?S = g_applied S" "g_rsm ?S = (g_rsm S)(i := r)"
    "g_place ?S = g_place S" "g_ops ?S = g_ops S" "g_before ?S = g_before S" "g_applyCh ?S = g_applyCh S"
    "g_calls ?S = (g_calls S)(i := g_calls S i - {(p, Some ch)})"
    by (simp_all add: answered_def)
  have "\<exists>k op. (k, op, rep) \<in> g_applied S \<and> op_ID op = u" if "(u, rep) \<in> g_answers ?S" for u rep
  proof (cases "(u, rep) \<in> g_answers S")
    case True
    with e(4) show ?thesis unfolding calls_ok_def by blast
  next
    case False
    with that have "u = pd_id p" "ans = Inr rep" by (auto simp: answered_def split: sum.splits)
    with answers_okD [OF p(3,2) ans] p(1) show ?thesis by auto
  qed
  then have "calls_ok n ?S" using e(4) same(3,4) unfolding calls_ok_def fields by auto
  moreover have "\<forall>k<n. replica_ok h s0 (nodes (g_raft S) k) (g_rsm ?S k) (g_applyCh S k)"
    using e(8) replica_ok_rsm [OF same(1,2)] by (simp add: fields)
  moreover have "ids_ok ?S" "before_ok h ?S" using e(3,5) by (simp_all add: ids_ok_def before_ok_def fields)
  ultimately show ?thesis using e unfolding explains_def by (simp add: fields)
qed

lemma receive_explains:
  assumes "i < n" and "(p, Some ch) \<in> g_calls S i"
    and rc: "Submit_receive p ch (g_rsm S i) = Some (ans, r)" and ex: "explains n s0 S h"
  shows "explains n s0 (answered i (p, Some ch) ans r S) h"
proof (rule answered_explains [OF assms(1,2) Submit_receive_fields(1-3) [OF rc] _ _ ex])
  show "answers_ok (g_applied S) r"
    using answers_ok_receive [OF _ rc] explainsD(4) [OF ex] assms(1) by (simp add: calls_ok_def)
qed (use Submit_receive_fields(4) [OF rc] in simp)

lemma tick_explains:
  assumes "i < n" and "(p, Some ch) \<in> g_calls S i"
    and tk: "Submit_tick p rf (g_rsm S i) = Some (ans, r)" and ex: "explains n s0 S h"
  shows "explains n s0 (answered i (p, Some ch) ans r S) h"
proof (rule answered_explains [OF assms(1,2) Submit_tick_fields(1,2) [OF tk] _ _ _ ex])
  show "answers_ok (g_applied S) r"
    using answers_ok_tick [OF _ tk] explainsD(4) [OF ex] assms(1) by (simp add: calls_ok_def)
qed (use Submit_tick_fields(3,4) [OF tk] in auto)

subsection \<open>The applier\<close>

lemma deliveries_whole:
  assumes "based L rf" and "lastIncludedIndex rf \<le> a" and "b \<le> getLastLogIndex rf"
  shows "deliveries (a + 1) b rf = map (\<lambda>i. CommandMsg (le_Command (wholeLog L rf ! nat (i - 1))) i) [a + 1..b]"
  using nth_whole [OF assms(1)] assms(2,3) by (auto simp: deliveries_def)

lemma apply_explains:
  assumes i: "i < n" and ap: "applier (nodes (g_raft S) i) = Some (msgs, rf)"
    and re: "reachable n (g_raft S)" and ex: "explains n s0 S h"
  shows "\<exists>h'. explains n s0 (S\<lparr>g_raft := deliver i msgs (moveTo i rf {} (g_raft S)),
    g_applyCh := (g_applyCh S)(i := g_applyCh S i @ msgs)\<rparr>) h'" (is "\<exists>h'. explains n s0 ?S h'")
proof -
  let ?C = "g_raft S" and ?C' = "deliver i msgs (moveTo i rf {} (g_raft S))" and ?rf = "nodes (g_raft S) i"
  note inv = log_inv_reachable [OF re] and e0 = explainsD [OF ex]
  obtain hc where hc: "history n ?C hc" "length hc = nat (commitIndex ?rf)"
    "\<And>k. k < length hc \<Longrightarrow> le_Command (wholeLog (leaderLog ?C) ?rf ! k) = Some (hc ! k)"
    using history_commit [OF inv e0(2) i] by blast
  define h' where "h' = (if length h \<le> length hc then hc else h)"
  have h': "prefix h h'" "history n ?C h'" "prefix hc h'"
    using history_comparable [OF inv e0(1) hc(1)] history_comparable [OF inv hc(1) e0(1)] e0(1) hc(1)
    by (auto simp: h'_def)
  note e = explainsD [OF explains_longer [OF ex h'(1,2)]] and b = node_okD(1) [OF inv, of i]
  have la: "lastIncludedIndex ?rf \<le> lastApplied ?rf" "0 \<le> lastApplied ?rf" "lastApplied ?rf \<le> commitIndex ?rf"
    using node_okD(2,3) [OF inv, of i] b by (simp_all add: based_def)
  have st: "cluster_step n ?C ?C'" by (rule cluster_step.deliver_msgs [OF i ap])
  note fl = applier_fields [OF inv i ap]
  let ?k = "rsm_lastApplied (g_rsm S i)" and ?q = "g_applyCh S i"
  note o = replica_okD [OF e(8) [OF i]]
  have "follows h' s0 ?k ((?q @ msgs) @ waiting rf) \<and> reached ?k ((?q @ msgs) @ waiting rf) = lastApplied rf"
    using inv i ap
  proof (cases rule: applier_waiting)
    case kept
    with o(2,3) show ?thesis by simp
  next
    case commands
    have "le_Command (wholeLog (leaderLog ?C) ?rf ! nat (j - 1)) = Some (h' ! nat (j - 1))"
      if "lastApplied ?rf < j" "j \<le> commitIndex ?rf" for j
    proof -
      have "nat (j - 1) < length hc" using that la(2) hc(2) by linarith
      with hc(3) h'(3) show ?thesis by (auto simp: prefix_def nth_append)
    qed
    moreover have "nat (commitIndex ?rf) \<le> length h'" using hc(2) prefix_length_le [OF h'(3)] by simp
    ultimately have "follows h' s0 (lastApplied ?rf) msgs" "reached (lastApplied ?rf) msgs = commitIndex ?rf"
      using follows_commands [of "lastApplied ?rf" "commitIndex ?rf" h'] la
        deliveries_whole [OF b la(1) commit_in_log [OF inv i]] commands(3) by simp_all
    with commands o(2,3) show ?thesis by (simp add: follows_append reached_append)
  qed
  with o(1,4,5) fl have "replica_ok h' s0 rf (g_rsm S i) (?q @ msgs)" unfolding replica_ok_def by simp
  then have "\<forall>k<n. replica_ok h' s0 (nodes ?C' k) (g_rsm S k) (((g_applyCh S)(i := ?q @ msgs)) k)"
    using e(8) by simp
  moreover have "history n ?C' h'" by (rule history_step [OF st inv h'(2)])
  moreover have "all_placed (g_place S) (leaderLog ?C')"
  proof -
    have "wholeLog (leaderLog ?C) rf = wholeLog (leaderLog ?C) ?rf"
      using applier_shape [OF inv i ap] by (intro whole_cong(1)) (auto simp: keeps_log_def)
    with placed_whole [OF inv e(2) i] e(2) show ?thesis by (simp add: all_placed_def)
  qed
  moreover have "sent_ok h' s0 ?C'" using e(7) by (simp add: sent_ok_def)
  moreover have "ids_ok ?S" "calls_ok n ?S" "before_ok h' ?S"
    using e(3-5) by (simp_all add: ids_ok_def calls_ok_def before_ok_def)
  ultimately have "explains n s0 ?S h'" using e(6) unfolding explains_def by simp
  then show ?thesis by blast
qed

subsection \<open>The reader\<close>

lemma applied_by_ok:
  assumes "follows h s0 (rsm_lastApplied r) (m # ms)" and "in_step h s0 r" and "applied_ok h s0 A"
  shows "applied_ok h s0 (A \<union> applied_by doop (rsm_sm r) m)"
proof -
  let ?k = "rsm_lastApplied r"
  have "0 < k \<and> nat k \<le> length h \<and> h ! nat (k - 1) = op \<and>
      (\<exists>s s'. after h s0 (k - 1) = Some s \<and> doop (op_Payload op) s = Some (rep, s'))"
    if "(k, op, rep) \<in> applied_by doop (rsm_sm r) m" for k op rep
  proof (cases m)
    case (CommandMsg c i)
    with assms(1) have c: "i = ?k + 1" "nat ?k < length h" "c = Some (h ! nat ?k)" by auto
    from that CommandMsg c(3) obtain s' where "k = i" "op = h ! nat ?k" "doop (op_Payload op) (rsm_sm r) = Some (rep, s')"
      by (auto split: option.splits)
    moreover have "0 \<le> ?k" "after h s0 ?k = Some (rsm_sm r)" using assms(2) by (simp_all add: in_step_def)
    ultimately show ?thesis using c(1,2) by auto
  qed (use that in simp)
  with assms(3) show ?thesis unfolding applied_ok_def by blast
qed

lemma read_replica:
  assumes "wf s0" and ok: "replica_ok h s0 rf r (m # ms)"
    and rd: "reader_msg doop snapshot restore blen m (r, rf) = Some (r', rf')"
  shows "replica_ok h s0 rf' r' ms" and "rsm_lastApplied r' \<le> lastApplied rf"
    and "rf' = rf \<or> Raft_Snapshot (rsm_lastApplied r') (Some (snapshot (rsm_sm r'))) rf = Some rf'"
proof -
  note o = replica_okD [OF ok]
  have fol: "follows h s0 (rsm_lastApplied r) (m # ms @ waiting rf)" using o(2) by simp
  note s = reader_msg_in_step [OF assms(1) fol o(1) rd]
  have f: "follows h s0 (rsm_lastApplied r') (ms @ waiting rf)"
    "reached (rsm_lastApplied r') (ms @ waiting rf) = lastApplied rf"
    using fol o(3) follows_append [of h s0 "rsm_lastApplied r" "[m]" "ms @ waiting rf"]
      reached_append [of "rsm_lastApplied r" "[m]" "ms @ waiting rf"] s(2) by simp_all
  show "rsm_lastApplied r' \<le> lastApplied rf" using follows_reached [OF f(1)] f(2) by simp
  show c: "rf' = rf \<or> Raft_Snapshot (rsm_lastApplied r') (Some (snapshot (rsm_sm r'))) rf = Some rf'" by (rule s(3))
  have same: "replica_ok h s0 rf r' ms" using s(1) f o(4,5) unfolding replica_ok_def by blast
  from c show "replica_ok h s0 rf' r' ms"
  proof
    assume "Raft_Snapshot (rsm_lastApplied r') (Some (snapshot (rsm_sm r'))) rf = Some rf'"
    note sn = Raft_Snapshot_snap [OF this]
    show ?thesis
    proof (cases "rsm_lastApplied r' \<le> lastIncludedIndex rf")
      case True
      with sn have "snapState rf' = snapState rf" by simp
      from replica_ok_cong [OF this] same show ?thesis by simp
    next
      case False
      with sn have n: "lastIncludedIndex rf' = rsm_lastApplied r'" "waiting rf' = waiting rf"
        "Mem_ReadSnapshot (persister rf') = Some (snapshot (rsm_sm r'))" "lastApplied rf' = lastApplied rf"
        "pendingSnapshotValid rf' = pendingSnapshotValid rf" "pendingSnapshotIndex rf' = pendingSnapshotIndex rf"
        by (simp_all add: snapState_def waiting_def)
      have "snap_ok h s0 (rsm_lastApplied r') (Some (snapshot (rsm_sm r')))"
        using s(1) by (simp add: in_step_def snap_ok_def)
      with same False n show ?thesis unfolding replica_ok_def by auto
    qed
  qed (use same in simp)
qed

lemma read_explains:
  assumes wf: "wf s0" and i: "i < n" and q: "g_applyCh S i = m # ms"
    and rd: "reader_msg doop snapshot restore blen m (g_rsm S i, nodes (g_raft S) i) = Some (r, rf)"
    and re: "reachable n (g_raft S)" and ex: "explains n s0 S h"
  shows "cluster_step n (g_raft S) (moveTo i rf {} (g_raft S))"
    and "explains n s0 (S\<lparr>g_raft := moveTo i rf {} (g_raft S), g_rsm := (g_rsm S)(i := r),
      g_applyCh := (g_applyCh S)(i := ms),
      g_applied := g_applied S \<union> applied_by doop (rsm_sm (g_rsm S i)) m\<rparr>) h" (is "explains n s0 ?S h")
proof -
  let ?C = "g_raft S" and ?C' = "moveTo i rf {} (g_raft S)" and ?rf = "nodes (g_raft S) i"
  note inv = log_inv_reachable [OF re] and e = explainsD [OF ex]
  have ok: "replica_ok h s0 ?rf (g_rsm S i) (m # ms)" using e(8) [OF i] q by simp
  note rr = read_replica [OF wf ok rd]
  have "\<exists>k d. k \<le> lastApplied ?rf \<and> Raft_Snapshot k d ?rf = Some rf"
    using rr(2,3) node_okD(2) [OF inv, of i] Raft_Snapshot_idle [of ?rf] by blast
  then obtain k d where kd: "k \<le> lastApplied ?rf" "Raft_Snapshot k d ?rf = Some rf" by blast
  show st: "cluster_step n ?C ?C'" by (rule cluster_step.compact [OF i kd])
  have "wholeLog (leaderLog ?C) rf = wholeLog (leaderLog ?C) ?rf"
    by (rule whole_compact(1) [OF node_okD(1) [OF inv] goods(1) [OF inv i] kd(2)])
  with placed_whole [OF inv e(2) i] e(2) have "all_placed (g_place S) (leaderLog ?C')" by (simp add: all_placed_def)
  moreover have "history n ?C' h" by (rule history_step [OF st inv e(1)])
  moreover have "applied_ok h s0 (g_applied ?S)"
    using applied_by_ok [OF _ replica_okD(1) [OF ok] e(6)] replica_okD(2) [OF ok] by simp
  moreover have "sent_ok h s0 ?C'" using e(7) by (simp add: sent_ok_def)
  moreover have "calls_ok n ?S"
  proof -
    have "answers_ok (g_applied ?S) r"
      using answers_ok_msg [OF _ rd] e(4) i by (simp add: calls_ok_def)
    moreover have "answers_ok (g_applied ?S) (g_rsm S k)" if "k < n" for k
      using answers_ok_mono [of "g_applied S" "g_rsm S k" "g_applied ?S"] e(4) that by (simp add: calls_ok_def)
    ultimately show ?thesis
      using e(4) reader_msg_fields [OF rd] unfolding calls_ok_def by (simp, blast)
  qed
  moreover have "\<forall>k<n. replica_ok h s0 (nodes ?C' k) (g_rsm ?S k) (g_applyCh ?S k)" using e(8) rr(1) by simp
  moreover have "ids_ok ?S" "before_ok h ?S" using e(3,5) by (simp_all add: ids_ok_def before_ok_def)
  ultimately show "explains n s0 ?S h" unfolding explains_def by simp
qed

subsection \<open>Crashes\<close>

lemma in_step_New: "in_step h s0 (RSM_New s0 mx)"
  by (simp add: in_step_def RSM_New_def after_def)

lemma crash_explains:
  assumes i: "i < n"
    and mk: "Make ck (peers (nodes (g_raft S) i)) (int i) (persister (nodes (g_raft S) i)) = Some rf"
    and kept: "\<not> 0 < lastIncludedIndex rf" and re: "reachable n (g_raft S)" and ex: "explains n s0 S h"
  shows "explains n s0 (S\<lparr>g_raft := (moveTo i rf {} (g_raft S))\<lparr>elections := (elections (g_raft S))(i := (\<lambda>_. None))\<rparr>,
      g_rsm := (g_rsm S)(i := RSM_New s0 mx), g_applyCh := (g_applyCh S)(i := []),
      g_calls := (g_calls S)(i := {}), g_lost := b\<rparr>) h" (is "explains n s0 ?S h")
proof -
  let ?C = "g_raft S" and ?rf = "nodes (g_raft S) i"
  let ?C' = "(moveTo i rf {} (g_raft S))\<lparr>elections := (elections (g_raft S))(i := (\<lambda>_. None))\<rparr>"
  note inv = log_inv_reachable [OF re] and e = explainsD [OF ex]
  have "persisted ?rf" using election_inv_wfD(1) [OF log_invD(1) [OF inv] i] by (simp add: wf_raft_def)
  from Make_persisted [OF this, of ck "peers ?rf" "int i"] mk
  have f: "lastApplied rf = lastIncludedIndex rf" "role rf = Follower" "\<not> pendingSnapshotValid rf"
    "lastIncludedIndex rf = lastIncludedIndex ?rf"
    by auto
  have "0 \<le> lastIncludedIndex ?rf" using node_okD(1) [OF inv, of i] by (simp add: based_def)
  with kept f(4) have "lastIncludedIndex rf = 0" by simp
  then have "replica_ok h s0 rf (RSM_New s0 mx) []"
    using f in_step_New by (simp add: replica_ok_def waiting_def RSM_New_def)
  with e(8) have "\<forall>k<n. replica_ok h s0 (nodes ?C' k) (g_rsm ?S k) (g_applyCh ?S k)" by simp
  moreover have "history n ?C' h" by (rule history_step [OF cluster_step.crash [OF i mk] inv e(1)])
  moreover have "all_placed (g_place S) (leaderLog ?C')" using e(2) f(2) by simp
  moreover have "sent_ok h s0 ?C'" using e(7) by (simp add: sent_ok_def)
  moreover have "calls_ok n ?S" using e(4) unfolding calls_ok_def by simp
  moreover have "ids_ok ?S" "before_ok h ?S" using e(3,5) by (simp_all add: ids_ok_def before_ok_def)
  ultimately show ?thesis using e(6) unfolding explains_def by simp
qed

subsection \<open>The invariant\<close>

lemma group_inv_start:
  assumes "group_start n s0 mx S"
  shows "group_inv n s0 S"
proof -
  from assms have C: "initial n (g_raft S)" by (simp add: group_start_def)
  then obtain addrs cks where mk: "\<And>i. Make (cks i) addrs (int i) NewMemoryPersister = Some (nodes (g_raft S) i)"
    by (auto simp: initial_def)
  note m = Make_empty [OF mk]
  have "replica_ok [] s0 (nodes (g_raft S) i) (RSM_New s0 mx) []" for i
    using m(4,8,14) [of i] in_step_New by (simp add: replica_ok_def waiting_def RSM_New_def)
  with assms C have "explains n s0 S []"
    by (simp add: explains_def group_start_def ids_ok_def calls_ok_def before_ok_def applied_ok_def sent_ok_def
        all_placed_def placed_def initial_def)
  with C show ?thesis unfolding group_inv_def by (blast intro: reachable.start)
qed

lemma group_step_lost: "group_step doop snapshot restore blen n s0 mx S S' \<Longrightarrow> g_lost S \<Longrightarrow> g_lost S'"
  by (cases rule: group_step.cases) auto

lemma group_step_explained:
  assumes st: "group_step doop snapshot restore blen n s0 mx S S'" and wf: "wf s0" and re: "reachable n (g_raft S)"
    and ex: "explains n s0 S h" and kept: "\<not> g_lost S'"
  shows "cluster_step n (g_raft S) (g_raft S') \<or> g_raft S' = g_raft S" and "\<exists>h'. explains n s0 S' h'"
proof -
  have "(cluster_step n (g_raft S) (g_raft S') \<or> g_raft S' = g_raft S) \<and> (\<exists>h'. explains n s0 S' h')"
    using st
  proof cases
    case (raft C)
    with raft_explains [OF _ re ex] cluster_step.network [of n "g_raft S" C] show ?thesis by auto
  next
    case (submit i u op ans rf)
    obtain res where "Start \<lparr>op_ID = u, op_Payload = op\<rparr> (nodes (g_raft S) i) = (res, rf)"
      using Submit_start_Start [OF submit(5)] by blast
    from cluster_step.propose [OF submit(2) this] submit submit_explains [OF submit(2-5) re ex]
    show ?thesis by (auto simp: submitted_def)
  next
    case (register i p ch r)
    with register_explains [OF register(2-4) ex] show ?thesis by auto
  next
    case (receive i p ch ans r)
    with receive_explains [OF receive(2-4) ex] show ?thesis by (auto simp: answered_def)
  next
    case (tick i p ch ans r)
    with tick_explains [OF tick(2-4) ex] show ?thesis by (auto simp: answered_def)
  next
    case (apply_committed i msgs rf)
    with apply_explains [OF apply_committed(2,3) re ex] cluster_step.deliver_msgs [OF apply_committed(2,3)]
    show ?thesis by simp
  next
    case (read i m ms r rf)
    with read_explains [OF wf read(2-4) re ex] show ?thesis by auto
  next
    case (crash i ck rf)
    with kept crash_explains [OF crash(2,3) _ re ex] cluster_step.crash [OF crash(2,3)] show ?thesis by auto
  qed
  then show "cluster_step n (g_raft S) (g_raft S') \<or> g_raft S' = g_raft S" and "\<exists>h'. explains n s0 S' h'" by blast+
qed

theorem group_inv_reachable:
  assumes "group_reachable doop snapshot restore blen n s0 mx S" and "wf s0"
  shows "group_inv n s0 S"
  using assms(1)
proof (induction rule: group_reachable.induct)
  case (start S)
  then show ?case by (rule group_inv_start)
next
  case (step S S')
  show ?case
    unfolding group_inv_def
  proof
    assume kept: "\<not> g_lost S'"
    then have "\<not> g_lost S" using group_step_lost [OF step.hyps(2)] by blast
    with step.IH obtain h where h: "reachable n (g_raft S)" "explains n s0 S h" by (auto simp: group_inv_def)
    from group_step_explained [OF step.hyps(2) assms(2) h kept] reachable.step [OF h(1)] h(1)
    show "reachable n (g_raft S') \<and> (\<exists>h. explains n s0 S' h)" by auto
  qed
qed

subsection \<open>What the history shows\<close>

lemma replicas_equal:
  assumes "explains n s0 S h" and "i < n" and "j < n"
    and "rsm_lastApplied (g_rsm S i) = rsm_lastApplied (g_rsm S j)"
  shows "rsm_sm (g_rsm S i) = rsm_sm (g_rsm S j)"
  using replica_okD(1) [OF explainsD(8) [OF assms(1,2)]] replica_okD(1) [OF explainsD(8) [OF assms(1,3)]] assms(4)
  by (simp add: in_step_def)

lemma group_linearizable:
  assumes "group_reachable doop snapshot restore blen n s0 mx S" and "wf s0" and "\<not> g_lost S"
  obtains h where "distinct (map op_ID h)"
    and "\<And>k. k < length h \<Longrightarrow> g_ops S (op_ID (h ! k)) = Some (op_Payload (h ! k))"
    and "\<And>i. i < n \<Longrightarrow> after h s0 (rsm_lastApplied (g_rsm S i)) = Some (rsm_sm (g_rsm S i))"
    and "\<And>u rep. (u, rep) \<in> g_answers S \<Longrightarrow>
      \<exists>k<length h. op_ID (h ! k) = u \<and> g_ops S u = Some (op_Payload (h ! k)) \<and>
        (\<exists>m m'. after h s0 (int k) = Some m \<and> doop (op_Payload (h ! k)) m = Some (rep, m'))"
    and "\<And>j k. j < length h \<Longrightarrow> k < length h \<Longrightarrow> (op_ID (h ! j), op_ID (h ! k)) \<in> g_before S \<Longrightarrow> j < k"
proof -
  obtain h where re: "reachable n (g_raft S)" and ex: "explains n s0 S h"
    using group_inv_reachable [OF assms(1,2)] assms(3) unfolding group_inv_def by blast
  note inv = log_inv_reachable [OF re] and e = explainsD [OF ex]
  show ?thesis
  proof
    show "distinct (map op_ID h)" by (rule history_distinct [OF inv e(2,1)])
    show "g_ops S (op_ID (h ! k)) = Some (op_Payload (h ! k))" if "k < length h" for k
      using history_placed [OF inv e(2,1) that] e(3) unfolding ids_ok_def by blast
    show "after h s0 (rsm_lastApplied (g_rsm S i)) = Some (rsm_sm (g_rsm S i))" if "i < n" for i
      using replica_okD(1) [OF e(8) [OF that]] by (simp add: in_step_def)
    show "\<exists>k<length h. op_ID (h ! k) = u \<and> g_ops S u = Some (op_Payload (h ! k)) \<and>
        (\<exists>m m'. after h s0 (int k) = Some m \<and> doop (op_Payload (h ! k)) m = Some (rep, m'))"
      if u: "(u, rep) \<in> g_answers S" for u rep
    proof -
      obtain k c where k: "g_place S u = Some (k, c)" "k < length h" "h ! k = c" "op_ID c = u"
        "\<exists>m m'. after h s0 (int k) = Some m \<and> doop (op_Payload c) m = Some (rep, m')"
        by (rule answered_placed [OF ex re u])
      with e(3) show ?thesis unfolding ids_ok_def by blast
    qed
    show "j < k" if jk: "j < length h" "k < length h" "(op_ID (h ! j), op_ID (h ! k)) \<in> g_before S" for j k
    proof -
      have "g_place S (op_ID (h ! j)) = Some (j, h ! j)" by (rule history_placed [OF inv e(2,1) jk(1)])
      with e(5) jk(3) have "\<forall>l\<le>j. op_ID (h ! l) \<noteq> op_ID (h ! k)" unfolding before_ok_def by fastforce
      then have "\<not> k \<le> j" by blast
      then show ?thesis by simp
    qed
  qed
qed

end

end
