(* ===== verification/GroupProperties.thy ===== *)
theory GroupProperties
  imports GroupSafety ShardProperties RaftDemo
begin

section \<open>A replica group of the shard group is linearizable\<close>

abbreviation shard_group_run :: "(Op bytes \<Rightarrow> int) \<Rightarrow> nat \<Rightarrow> int \<Rightarrow> int \<Rightarrow> ShardGroup group \<Rightarrow> bool" where
  "shard_group_run blen n gid mx \<equiv>
     group_reachable ShardGroup_DoOp ShardGroup_Snapshot ShardGroup_Restore blen n (ShardGroup_New gid) mx"

text \<open>The reply of the operation at a place of a history, when the history runs on a new shard group.\<close>

definition reply_at :: "int \<Rightarrow> Op list \<Rightarrow> nat \<Rightarrow> result option" where
  "reply_at gid h k = do {
     m \<leftarrow> run_ops ShardGroup_DoOp (map op_Payload (take k h)) (ShardGroup_New gid);
     (rep, m') \<leftarrow> ShardGroup_DoOp (op_Payload (h ! k)) m;
     Some rep
   }"

text \<open>C2: A group of replicas is linearizable, as long as no peer with a compacted log restarts: whatever
  messages are lost, repeated or late and whichever peers crash, there is one order of submitted
  operations, each at most once, in which every answered call of \<open>Submit\<close> has the reply that its operation gives
  at its place, and a call submitted after another was answered comes later.\<close>

theorem linearizable:
  assumes "shard_group_run blen n gid mx S" and "\<not> g_lost S"
  shows "\<exists>h. distinct (map op_ID h) \<and>
    (\<forall>k<length h. g_ops S (op_ID (h ! k)) = Some (op_Payload (h ! k))) \<and>
    (\<forall>u rep. (u, rep) \<in> g_answers S \<longrightarrow>
       (\<exists>k<length h. op_ID (h ! k) = u \<and> g_ops S u = Some (op_Payload (h ! k)) \<and> reply_at gid h k = Some rep)) \<and>
    (\<forall>j k. j < length h \<and> k < length h \<and> (op_ID (h ! j), op_ID (h ! k)) \<in> g_before S \<longrightarrow> j < k)"
proof -
  obtain h where h: "distinct (map op_ID h)"
    "\<And>k. k < length h \<Longrightarrow> g_ops S (op_ID (h ! k)) = Some (op_Payload (h ! k))"
    "\<And>u rep. (u, rep) \<in> g_answers S \<Longrightarrow>
      \<exists>k<length h. op_ID (h ! k) = u \<and> g_ops S u = Some (op_Payload (h ! k)) \<and>
        (\<exists>m m'. sg_sm.after h (ShardGroup_New gid) (int k) = Some m \<and>
           ShardGroup_DoOp (op_Payload (h ! k)) m = Some (rep, m'))"
    "\<And>j k. j < length h \<Longrightarrow> k < length h \<Longrightarrow> (op_ID (h ! j), op_ID (h ! k)) \<in> g_before S \<Longrightarrow> j < k"
    using sg_sm.group_linearizable [OF assms(1) wf_group_New assms(2)] by metis
  have "\<exists>k<length h. op_ID (h ! k) = u \<and> g_ops S u = Some (op_Payload (h ! k)) \<and> reply_at gid h k = Some rep"
    if "(u, rep) \<in> g_answers S" for u rep
    using h(3) [OF that] by (auto simp: reply_at_def sg_sm.after_def)
  with h(1,2,4) show ?thesis by blast
qed

text \<open>The run of \<open>RaftDemo\<close> with an installation of a shard, submitted to the leader and answered.\<close>

definition demo_op :: Op where
  "demo_op = \<lparr>op_ID = 5, op_Payload = demo_install\<rparr>"

definition demo_pending :: pending where
  "demo_pending = \<lparr>pd_id = 5, pd_index = 1, pd_term = 1\<rparr>"

definition demo_group_start :: "ShardGroup group" where
  "demo_group_start = \<lparr>g_raft = demo_start, g_rsm = (\<lambda>_. RSM_New (ShardGroup_New 7) (-1)),
     g_applyCh = (\<lambda>_. []), g_calls = (\<lambda>_. {}), g_ops = Map.empty, g_place = Map.empty,
     g_applied = {}, g_answers = {}, g_before = {}, g_lost = False\<rparr>"

lemma group_raft_steps:
  assumes "rtranclp (net_step n) C C'" and "group_reachable doop snapshot restore blen n s0 mx S" and "g_raft S = C"
  shows "group_reachable doop snapshot restore blen n s0 mx (S\<lparr>g_raft := C'\<rparr>)"
  using assms
proof (induction rule: rtranclp_induct)
  case base
  show ?case using base(1) unfolding base(2) [symmetric] by simp
next
  case (step C1 C2)
  from group_step.raft [where S = "S\<lparr>g_raft := C1\<rparr>" and C = C2 and n = n] step(2)
    group_reachable.step [OF step.IH [OF step.prems]]
  show ?case by simp
qed

lemma demo_group_reachable_start: "shard_group_run (\<lambda>_. 0) 3 7 (-1) demo_group_start"
proof (rule group_reachable.start)
  have "initial 3 (demo_start :: Op cluster)" by (rule demo_initial)
  then show "group_start 3 (ShardGroup_New 7) (-1) demo_group_start"
    by (simp add: group_start_def demo_group_start_def)
qed

lemma demo_submit_start:
  "Submit_start 5 demo_install (Some demo_leader) = (Inr demo_pending, Some (run_proposer demo_op))"
  using demo_propose [of demo_op] by (simp add: Submit_start_def demo_pending_def demo_op_def)

lemma demo_group_read:
  assumes "rsm_sm r = ShardGroup_New 7" and "rsm_maxraftstate r = -1" and "rsm_chans r = [None]"
    and "rsm_notify r = [(1, 0)]"
  shows "reader_msg ShardGroup_DoOp ShardGroup_Snapshot ShardGroup_Restore (\<lambda>_. 0) (CommandMsg (Some demo_op) 1) (r, rf) =
    Some (r\<lparr>rsm_sm := demo_group, rsm_lastApplied := 1,
      rsm_chans := [Some (5, InstallRep \<lparr>ir_Err = OK\<rparr>)]\<rparr>, rf)"
  using assms by (simp add: reader_msg_def reader_command_def demo_op_def demo_ops trySend_def)

definition demo_waiting :: "ShardGroup rsm" where
  "demo_waiting = (RSM_New (ShardGroup_New 7) (-1))\<lparr>rsm_chans := [None], rsm_notify := [(1, 0)]\<rparr>"

lemma demo_group_committed:
  "\<exists>S. shard_group_run (\<lambda>_. 0) 3 7 (-1) S \<and> \<not> g_lost S \<and> g_answers S = {} \<and>
     g_rsm S = (\<lambda>_. RSM_New (ShardGroup_New 7) (-1))(0 := demo_waiting) \<and>
     g_calls S 0 = {(demo_pending, Some 0)} \<and> g_applyCh S = (\<lambda>_. []) \<and>
     nodes (g_raft S) 0 = run_committer demo_op \<and> nodes (g_raft S) 1 = run_store2 demo_op"
proof -
  let ?run = "shard_group_run (\<lambda>_. 0) 3 7 (-1)" and ?new = "RSM_New (ShardGroup_New 7) (-1)"
  let ?step = "group_step ShardGroup_DoOp ShardGroup_Snapshot ShardGroup_Restore (\<lambda>_. 0) 3 (ShardGroup_New 7) (-1)"
  obtain C1 :: "Op cluster" where c1: "rtranclp (net_step 3) demo_start C1" "nodes C1 0 = demo_leader" "nodes C1 1 = demo_voter"
    using run_elected by blast
  define S1 where "S1 = demo_group_start\<lparr>g_raft := C1\<rparr>"
  have r1: "?run S1"
    unfolding S1_def by (rule group_raft_steps [OF c1(1) demo_group_reachable_start]) (simp add: demo_group_start_def)
  have f1: "g_raft S1 = C1" "g_ops S1 = Map.empty" "g_rsm S1 = (\<lambda>_. ?new)" "g_calls S1 = (\<lambda>_. {})"
    "g_applyCh S1 = (\<lambda>_. [])" "g_answers S1 = {}" "\<not> g_lost S1"
    by (simp_all add: S1_def demo_group_start_def)
  define S2 where "S2 = submitted 0 5 demo_install (Inr demo_pending) (run_proposer demo_op) S1"
  have "?step S1 S2" unfolding S2_def by (rule group_step.submit) (simp_all add: f1 c1 demo_submit_start)
  with r1 have r2: "?run S2" by (rule group_reachable.step)
  have f2: "g_raft S2 = moveTo 0 (run_proposer demo_op) {} C1" "g_rsm S2 = (\<lambda>_. ?new)"
    "g_calls S2 = (\<lambda>_. {})(0 := {(demo_pending, None)})" "g_applyCh S2 = (\<lambda>_. [])" "g_answers S2 = {}" "\<not> g_lost S2"
    by (simp_all add: S2_def submitted_def f1)
  define S3 where "S3 = S2\<lparr>g_rsm := (g_rsm S2)(0 := demo_waiting),
      g_calls := (g_calls S2)(0 := insert (demo_pending, Some 0) (g_calls S2 0 - {(demo_pending, None)}))\<rparr>"
  have "?step S2 S3"
    unfolding S3_def
    by (rule group_step.register)
      (simp_all add: f2 Submit_register_def RSM_New_def Let_def demo_pending_def demo_waiting_def)
  with r2 have r3: "?run S3" by (rule group_reachable.step)
  have f3: "g_raft S3 = moveTo 0 (run_proposer demo_op) {} C1" "g_rsm S3 = (\<lambda>_. ?new)(0 := demo_waiting)"
    "g_calls S3 0 = {(demo_pending, Some 0)}" "g_applyCh S3 = (\<lambda>_. [])" "g_answers S3 = {}" "\<not> g_lost S3"
    by (simp_all add: S3_def f2)
  obtain C4 where c4: "rtranclp (net_step 3) (g_raft S3) C4" "nodes C4 0 = run_committer demo_op"
    "nodes C4 1 = run_store demo_op"
    using run_committed [of "g_raft S3" demo_op] c1 by (auto simp: f3(1))
  obtain C6 where c6: "rtranclp (net_step 3) C4 C6" "nodes C6 0 = run_committer demo_op"
    "nodes C6 1 = run_store2 demo_op"
    using run_followed [OF c4(2,3)] by blast
  have "rtranclp (net_step 3) (g_raft S3) C6" using c4(1) c6(1) by (rule rtranclp_trans)
  then have "?run (S3\<lparr>g_raft := C6\<rparr>)" by (rule group_raft_steps [OF _ r3 refl])
  then show ?thesis using f3 c6 by (intro exI [where x = "S3\<lparr>g_raft := C6\<rparr>"]) simp
qed

lemma demo_group_applied:
  assumes "shard_group_run (\<lambda>_. 0) 3 7 (-1) S" and "i < 3" and "g_applyCh S i = []"
    and ap: "applier (nodes (g_raft S) i) = Some ([m], rf)"
    and rd: "reader_msg ShardGroup_DoOp ShardGroup_Snapshot ShardGroup_Restore (\<lambda>_. 0) m (g_rsm S i, rf) = Some (r, rf)"
  shows "\<exists>S'. shard_group_run (\<lambda>_. 0) 3 7 (-1) S' \<and> g_lost S' = g_lost S \<and> g_answers S' = g_answers S \<and>
    g_calls S' = g_calls S \<and> g_rsm S' = (g_rsm S)(i := r) \<and> g_applyCh S' = g_applyCh S \<and>
    nodes (g_raft S') = (nodes (g_raft S))(i := rf)"
proof -
  let ?step = "group_step ShardGroup_DoOp ShardGroup_Snapshot ShardGroup_Restore (\<lambda>_. 0) 3 (ShardGroup_New 7) (-1)"
  define S1 where "S1 = S\<lparr>g_raft := deliver i [m] (moveTo i rf {} (g_raft S)), g_applyCh := (g_applyCh S)(i := g_applyCh S i @ [m])\<rparr>"
  have "?step S S1" unfolding S1_def by (rule group_step.apply_committed [OF assms(2) ap])
  with assms(1) have r1: "shard_group_run (\<lambda>_. 0) 3 7 (-1) S1" by (rule group_reachable.step)
  define S2 where "S2 = S1\<lparr>g_raft := moveTo i rf {} (g_raft S1), g_rsm := (g_rsm S1)(i := r), g_applyCh := (g_applyCh S1)(i := []),
      g_applied := g_applied S1 \<union> applied_by ShardGroup_DoOp (rsm_sm (g_rsm S1 i)) m\<rparr>"
  have "?step S1 S2"
    unfolding S2_def by (rule group_step.read [OF assms(2)]) (simp_all add: S1_def assms(3) rd)
  with r1 have "shard_group_run (\<lambda>_. 0) 3 7 (-1) S2" by (rule group_reachable.step)
  then show ?thesis using assms(3) by (intro exI [where x = S2]) (auto simp: S2_def S1_def fun_eq_iff)
qed

lemma demo_group_answered:
  "\<exists>S. shard_group_run (\<lambda>_. 0) 3 7 (-1) S \<and> \<not> g_lost S \<and> g_answers S = {(5, InstallRep \<lparr>ir_Err = OK\<rparr>)} \<and>
     rsm_lastApplied (g_rsm S 0) = 1 \<and> rsm_lastApplied (g_rsm S 1) = 1 \<and> rsm_sm (g_rsm S 1) = demo_group"
proof -
  let ?new = "RSM_New (ShardGroup_New 7) (-1)" and ?m = "CommandMsg (Some demo_op) 1"
    and ?rep = "InstallRep \<lparr>ir_Err = OK\<rparr>"
  obtain S where S: "shard_group_run (\<lambda>_. 0) 3 7 (-1) S" "\<not> g_lost S" "g_answers S = {}"
     "g_rsm S = (\<lambda>_. ?new)(0 := demo_waiting)" "g_calls S 0 = {(demo_pending, Some 0)}" "g_applyCh S = (\<lambda>_. [])"
     "nodes (g_raft S) 0 = run_committer demo_op" "nodes (g_raft S) 1 = run_store2 demo_op"
    using demo_group_committed by blast
  let ?r0 = "demo_waiting\<lparr>rsm_sm := demo_group, rsm_lastApplied := 1, rsm_chans := [Some (5, ?rep)]\<rparr>"
    and ?r1 = "?new\<lparr>rsm_sm := demo_group, rsm_lastApplied := 1\<rparr>"
    and ?rf0 = "(run_committer demo_op)\<lparr>lastApplied := 1\<rparr>" and ?rf1 = "(run_store2 demo_op)\<lparr>lastApplied := 1\<rparr>"
  have a0: "applier (nodes (g_raft S) 0) = Some ([?m], ?rf0)" by (simp add: S(7) demo_apply)
  have d0: "reader_msg ShardGroup_DoOp ShardGroup_Snapshot ShardGroup_Restore (\<lambda>_. 0) ?m (g_rsm S 0, ?rf0) = Some (?r0, ?rf0)"
    using demo_group_read [of demo_waiting ?rf0] by (simp add: S(4) demo_waiting_def RSM_New_def)
  obtain T where T: "shard_group_run (\<lambda>_. 0) 3 7 (-1) T" "\<not> g_lost T" "g_answers T = {}" "g_calls T = g_calls S"
    "g_rsm T = (g_rsm S)(0 := ?r0)" "g_applyCh T = (\<lambda>_. [])" "nodes (g_raft T) = (nodes (g_raft S))(0 := ?rf0)"
    using demo_group_applied [OF S(1) _ _ a0 d0] S(2,3,6) by auto
  have a1: "applier (nodes (g_raft T) 1) = Some ([?m], ?rf1)" by (simp add: T(7) S(8) demo_apply del: One_nat_def)
  have d1: "reader_msg ShardGroup_DoOp ShardGroup_Snapshot ShardGroup_Restore (\<lambda>_. 0) ?m (g_rsm T 1, ?rf1) = Some (?r1, ?rf1)"
    by (simp add: T(5) S(4) reader_msg_def reader_command_def demo_op_def demo_ops RSM_New_def)
  obtain U where U: "shard_group_run (\<lambda>_. 0) 3 7 (-1) U" "\<not> g_lost U" "g_answers U = {}" "g_calls U = g_calls S"
    "g_rsm U = (g_rsm T)(1 := ?r1)"
    using demo_group_applied [OF T(1) _ _ a1 d1] T(2-4,6) by auto
  define V where "V = answered 0 (demo_pending, Some 0) (Inr ?rep)
      (Submit_leave demo_pending (?r0\<lparr>rsm_chans := [None]\<rparr>)) U"
  have "group_step ShardGroup_DoOp ShardGroup_Snapshot ShardGroup_Restore (\<lambda>_. 0) 3 (ShardGroup_New 7) (-1) U V"
    unfolding V_def
    by (rule group_step.receive) (simp_all add: U T S(5) Submit_receive_def demo_pending_def)
  with U(1) have "shard_group_run (\<lambda>_. 0) 3 7 (-1) V" by (rule group_reachable.step)
  moreover have "\<not> g_lost V" "g_answers V = {(5, ?rep)}" "rsm_lastApplied (g_rsm V 0) = 1"
    "rsm_lastApplied (g_rsm V 1) = 1" "rsm_sm (g_rsm V 1) = demo_group"
    by (simp_all add: V_def answered_def U T demo_pending_def Submit_leave_def)
  ultimately show ?thesis by blast
qed

theorem linearizable_witness:
  "\<exists>S h. shard_group_run (\<lambda>_. 0) 3 7 (-1) S \<and> g_answers S = {(5, InstallRep \<lparr>ir_Err = OK\<rparr>)} \<and>
     distinct (map op_ID h) \<and> (\<exists>k<length h. op_ID (h ! k) = 5 \<and> reply_at 7 h k = Some (InstallRep \<lparr>ir_Err = OK\<rparr>))"
proof -
  obtain S where S: "shard_group_run (\<lambda>_. 0) 3 7 (-1) S" "\<not> g_lost S" "g_answers S = {(5, InstallRep \<lparr>ir_Err = OK\<rparr>)}"
    using demo_group_answered by blast
  from linearizable [OF S(1,2)] S(1,3) show ?thesis by (intro exI [where x = S]) auto
qed

text \<open>C12: Replicas agree: as long as no peer with a compacted log restarts, two replicas of a group that
  have applied equally much are in the same state, whatever mixture of commands and snapshots brought
  them there.\<close>

theorem replicas_agree:
  assumes "shard_group_run blen n gid mx S" and "\<not> g_lost S" and "i < n" and "j < n"
    and "rsm_lastApplied (g_rsm S i) = rsm_lastApplied (g_rsm S j)"
  shows "rsm_sm (g_rsm S i) = rsm_sm (g_rsm S j)"
proof -
  obtain h where "sg_sm.explains n (ShardGroup_New gid) S h"
    using sg_sm.group_inv_reachable [OF assms(1) wf_group_New] assms(2) unfolding sg_sm.group_inv_def by blast
  from sg_sm.replicas_equal [OF this assms(3-5)] show ?thesis .
qed

theorem replicas_agree_witness:
  "\<exists>S. shard_group_run (\<lambda>_. 0) 3 7 (-1) S \<and> rsm_lastApplied (g_rsm S 0) = 1 \<and> rsm_lastApplied (g_rsm S 1) = 1 \<and>
     rsm_sm (g_rsm S 0) = rsm_sm (g_rsm S 1) \<and> rsm_sm (g_rsm S 0) = demo_group"
proof -
  obtain S where S: "shard_group_run (\<lambda>_. 0) 3 7 (-1) S" "\<not> g_lost S" "rsm_lastApplied (g_rsm S 0) = 1"
    "rsm_lastApplied (g_rsm S 1) = 1" "rsm_sm (g_rsm S 1) = demo_group"
    using demo_group_answered by blast
  have "rsm_sm (g_rsm S 0) = rsm_sm (g_rsm S 1)"
    by (rule replicas_agree [OF S(1,2)]) (use S(3,4) in simp_all)
  with S show ?thesis by metis
qed

end
