(* ===== verification/ControllerProperties.thy ===== *)
theory ControllerProperties
  imports ShardProperties
begin

section \<open>What a start of the shard controller does\<close>

text \<open>
  The controller process over the lossy deployment of \<open>ShardWorld\<close>: the first start of a deployment,
  a start after the groups of the flags changed, and a start that finds everything up to date.
\<close>

subsection \<open>A start with nothing to do\<close>

lemma startup_idle:
  assumes "wf_config c" and "ctl_kvsrv ctl = dw_kvaddr w" and "sc_Num c \<noteq> -1"
    and "store (dw_kv w) ''config'' = Some \<lparr>vv_Value = json_Marshal c, vv_Version = ver\<rparr>"
  shows "\<exists>fs. startup dkv_call ctl rnd elapsed (sc_Groups c) w = Some (None, [], w\<lparr>dw_script := fs\<rparr>)"
  using Query_world [OF assms(1,2,4)] assms(3) by (auto simp: startup_def groupsDiffer_iff)

subsection \<open>The first start\<close>

text \<open>
  A deployment without a configuration: \<open>InitConfig\<close> does what a change from a configuration
  without groups would do.
\<close>

definition unconfigured :: ShardConfig where
  "unconfigured = \<lparr>sc_Num = -1, sc_Shards = replicate NShards 0, sc_Groups = fmempty\<rparr>"

lemma unconfigured_target:
  "rebalanceTarget unconfigured groups =
     \<lparr>sc_Num = 0, sc_Shards = assignShards (sortedGids groups), sc_Groups = groups\<rparr>"
  by (simp add: rebalanceTarget_def unconfigured_def)

lemma unconfigured_wf: "wf_config unconfigured"
  by (simp add: unconfigured_def wf_config_def)

lemma unconfigured_moves:
  "length shards = NShards \<Longrightarrow> sc_Shards target = shards \<Longrightarrow>
     moves unconfigured target = map (\<lambda>(s, dst). (s, 0, dst)) (zip shardIndexes shards)"
  by (rule nth_equalityI) (simp_all add: moves_def unconfigured_def)

lemma installInitial_moves:
  assumes "moveShards Call current target (map (\<lambda>(s, dst). (s, 0, dst)) ms) w = Some (None, w')"
    and "sc_Num target = 0"
  shows "installInitial Call (sc_Groups target) ms w = Some (None, w')"
  using assms(1)
proof (induction ms arbitrary: w)
  case (Cons m ms)
  obtain s dst where m: "m = (s, dst)" by (cases m)
  show ?case
    using Cons.prems Cons.IH assms(2)
    by (auto simp: m moveShard_def split: Option.bind_splits if_splits)
qed simp

definition ready_to_init :: "ShardController \<Rightarrow> (int, string list) fmap \<Rightarrow> dkv_world \<Rightarrow> bool" where
  "ready_to_init ctl groups w \<longleftrightarrow>
     ctl_kvsrv ctl = dw_kvaddr w \<and> lock_free ''config_lock'' (store (dw_kv w)) \<and>
     store (dw_kv w) ''config'' = None \<and> wf_config (rebalanceTarget unconfigured groups) \<and>
     groups_ok 0 (dw_group w) \<and>
     (\<forall>gid\<in>set (assignShards (sortedGids groups)). gid \<noteq> 0 \<longrightarrow> reachable_gid w groups gid)"

definition initialised :: "(int, string list) fmap \<Rightarrow> dkv_world \<Rightarrow> error \<Rightarrow> dkv_world \<Rightarrow> kvmap \<Rightarrow> bool" where
  "initialised groups w err w1 m1 \<longleftrightarrow>
     err \<in> {None, Some ''failed to write initial config''} \<and>
     dw_group w1 = moveAll 0 (moves unconfigured (rebalanceTarget unconfigured groups)) (dw_group w) \<and>
     m1 ''config'' = Some \<lparr>vv_Value = json_Marshal (rebalanceTarget unconfigured groups), vv_Version = 1\<rparr>"

lemma init_body_world:
  assumes "ready_to_init ctl groups w" and m: "m = store (dw_kv w)"
  shows "\<exists>err w1 m1 f2. initConfigBody dkv_call ctl groups (withStore w (m(''config_lock'' \<mapsto> x)) f1) =
      Some (err, withStore w1 (m1(''config_lock'' \<mapsto> x)) f2) \<and> dw_kvaddr w1 = dw_kvaddr w \<and>
      initialised groups w err w1 m1"
proof -
  let ?t = "rebalanceTarget unconfigured groups" and ?m = "m(''config_lock'' \<mapsto> x)"
  let ?G = "moveAll 0 (moves unconfigured ?t) (dw_group w)"
  let ?new = "m(''config'' \<mapsto> \<lparr>vv_Value = json_Marshal ?t, vv_Version = 1\<rparr>)"
  from assms have r: "ctl_kvsrv ctl = dw_kvaddr w" "m ''config'' = None" "wf_config ?t" "groups_ok 0 (dw_group w)"
    "\<forall>gid\<in>set (assignShards (sortedGids groups)). gid \<noteq> 0 \<longrightarrow> reachable_gid w groups gid"
    by (auto simp: ready_to_init_def)
  obtain f3 where get: "KVClerk_Get dkv_call (dw_kvaddr w) ''config'' (withStore w ?m f1) =
      (let r = get_view ''config'' ?m in Some ((gr_Value r, gr_Version r, gr_Err r), withStore w ?m f3))"
    by (rule Get_store)
  have at: "withStore w ?m f3 = inWorld (withStore w ?m f3) (dw_group w) f3"
    by (simp add: inWorld_def withStore_def)
  have mv: "\<forall>i<NShards. movable (withStore w ?m f3) unconfigured ?t (sc_Shards unconfigured ! i) (sc_Shards ?t ! i)"
  proof -
    have "reachable_gid (withStore w ?m f3) = reachable_gid w"
      by (simp add: reachable_gid_def replicas_def leads_def fun_eq_iff)
    moreover have "assignShards (sortedGids groups) ! i \<in> set (assignShards (sortedGids groups))" if "i < NShards" for i
      using that by (intro nth_mem) simp
    ultimately show ?thesis using r(5) by (simp add: movable_def rebalanceTarget_def unconfigured_def)
  qed
  have "\<exists>fs'. moveShards dkv_call unconfigured ?t (moves unconfigured ?t)
      (inWorld (withStore w ?m f3) (dw_group w) f3) = Some (None, inWorld (withStore w ?m f3) ?G fs')"
    using moveShards_world [OF moves_valid [OF unconfigured_wf r(3) mv], of "dw_group w" f3] r(4)
    by (simp add: unconfigured_target)
  then obtain f4 where move: "moveShards dkv_call unconfigured ?t (moves unconfigured ?t) (withStore w ?m f3) =
      Some (None, withStore (inWorld w ?G f3) ?m f4)"
    unfolding at [symmetric] withStore_inWorld by (auto simp: withStore_def inWorld_def)
  have inst: "installInitial dkv_call groups (zip shardIndexes (sc_Shards ?t)) (withStore w ?m f3) =
      Some (None, withStore (inWorld w ?G f3) ?m f4)"
    using installInitial_moves [of dkv_call unconfigured ?t "zip shardIndexes (sc_Shards ?t)"] move
      unconfigured_moves [of "sc_Shards ?t" ?t] by (simp add: unconfigured_target)
  have put: "put_view \<lparr>pa_Key = ''config'', pa_Value = json_Marshal ?t, pa_Version = 0\<rparr> ?m =
      (OK, ?new(''config_lock'' \<mapsto> x))"
    using r(2) by (auto simp: put_view_def fun_upd_twist)
  obtain f5 e where pub: "e \<in> {OK, ErrMaybe}"
    "KVClerk_Put dkv_call (dw_kvaddr w) ''config'' (json_Marshal ?t) 0 (withStore (inWorld w ?G f3) ?m f4) =
      Some (e, withStore (inWorld w ?G f3) (?new(''config_lock'' \<mapsto> x)) f5)"
    using Put_store [of "''config''" "json_Marshal ?t" 0 ?m "inWorld w ?G f3" f4] put by auto
  have "initConfigBody dkv_call ctl groups (withStore w ?m f1) =
      Some (if e \<noteq> OK then Some ''failed to write initial config'' else None,
        withStore (inWorld w ?G f3) (?new(''config_lock'' \<mapsto> x)) f5)"
    using get r(1,2) inst pub(2)
    by (simp add: initConfigBody_def Let_def get_view_def unconfigured_target)
  then show ?thesis
    by (intro exI [where x = "if e \<noteq> OK then Some ''failed to write initial config'' else None"]
        exI [where x = "inWorld w ?G f3"] exI [where x = ?new] exI [where x = f5])
      (simp add: initialised_def)
qed

text \<open>What every start leaves: the published configuration and who owns what.\<close>

lemma InitConfig_world:
  assumes "ready_to_init ctl groups w" and "rnd \<noteq> []"
  shows "\<exists>err w'. InitConfig dkv_call ctl rnd groups w = Some (err, w') \<and>
    err \<in> {None, Some ''failed to write initial config''} \<and>
    store (dw_kv w') ''config'' =
      Some \<lparr>vv_Value = json_Marshal (rebalanceTarget unconfigured groups), vv_Version = 1\<rparr> \<and>
    (\<forall>i<NShards. handed_over unconfigured (rebalanceTarget unconfigured groups) (dw_group w) (dw_group w') i) \<and>
    dw_kvaddr w' = dw_kvaddr w"
proof -
  let ?m = "store (dw_kv w)" and ?t = "rebalanceTarget unconfigured groups"
  from assms(1) have r: "lock_free ''config_lock'' ?m" "ctl_kvsrv ctl = dw_kvaddr w" "wf_config ?t" "groups_ok 0 (dw_group w)"
    by (simp_all add: ready_to_init_def)
  from lock_brackets [where P = "initialised groups w" and fs = "dw_script w",
      OF r(1) assms(2) r(2) init_body_world [OF assms(1) refl]]
  obtain err w1 m1 u f3 where c: "withConfigLock dkv_call ctl rnd (initConfigBody dkv_call ctl groups) w =
      Some (err, withStore w1 (m1(''config_lock'' \<mapsto> \<lparr>vv_Value = [], vv_Version = u\<rparr>)) f3)"
    "initialised groups w err w1 m1" "dw_kvaddr w1 = dw_kvaddr w"
    unfolding withStore_id by blast
  let ?w' = "withStore w1 (m1(''config_lock'' \<mapsto> \<lparr>vv_Value = [], vv_Version = u\<rparr>)) f3"
  have "\<forall>i<NShards. handed_over unconfigured ?t (dw_group w) (dw_group ?w') i"
    using moveAll_handed_over [OF r(4) unconfigured_wf r(3)] c(2) by (simp add: initialised_def)
  with c show ?thesis
    by (intro exI [where x = err] exI [where x = ?w']) (simp add: InitConfig_def initialised_def)
qed

text \<open>The shards of the first configuration go to groups of the flags.\<close>

lemma initial_owners:
  assumes "groups \<noteq> fmempty" and "0 |\<notin>| fmdom groups" and "i < NShards"
    and "handed_over unconfigured (rebalanceTarget unconfigured groups) G G' i"
    and "gid = sc_Shards (rebalanceTarget unconfigured groups) ! i"
  shows "gid |\<in>| fmdom groups \<and> ownedOf (G' gid) (int i) \<and> mapOf (G' gid) (int i) = Map.empty"
proof -
  have "fmdom groups \<noteq> {||}" using assms(1) by (metis fmrestrict_fset_dom fmrestrict_fset_null)
  moreover have set: "set (sortedGids groups) = fset (fmdom groups)" by (simp add: sortedGids_def)
  ultimately have "sortedGids groups \<noteq> []" by (metis bot_fset.rep_eq fset_inject list.set(1))
  from assignShards_mem [OF this assms(3)] have gid: "gid |\<in>| fmdom groups"
    using set assms(5) by (simp add: rebalanceTarget_def)
  then have "gid \<noteq> 0" using assms(2) by metis
  moreover have "sc_Shards unconfigured ! i = 0" using assms(3) by (simp add: unconfigured_def)
  ultimately show ?thesis using gid assms(4,5) unfolding handed_over_def Let_def by simp
qed

lemma Query_unconfigured:
  assumes "store (dw_kv w) ''config'' = None" and "ctl_kvsrv ctl = dw_kvaddr w"
  shows "\<exists>fs. Query dkv_call ctl w = Some (Inr unconfigured, w\<lparr>dw_script := fs\<rparr>)"
proof -
  obtain fs where "KVClerk_Get dkv_call (dw_kvaddr w) ''config'' w =
      (let r = KVServer_Get \<lparr>ga_Key = ''config''\<rparr> (dw_kv w) in
        Some ((gr_Value r, gr_Version r, gr_Err r), w\<lparr>dw_script := fs\<rparr>))"
    using KVClerk_Get_world by blast
  with assms show ?thesis by (intro exI [where x = fs]) (simp add: Query_def KVServer_Get_def unconfigured_def)
qed

lemma ready_to_init_script: "ready_to_init ctl groups (w\<lparr>dw_script := fs\<rparr>) = ready_to_init ctl groups w"
  by (simp add: ready_to_init_def reachable_gid_def replicas_def leads_def)

text \<open>C26: The first start of the controller process in a deployment without a configuration: whatever
  calls are lost, it returns, configuration 0 is published with every shard dealt to one of the groups
  of the flags, which owns it and holds nothing under it; or it dies with \<open>failed to write\<close> although it
  wrote. Either way a second start finds nothing to do. The groups may have served configuration 0
  before: a start after \<open>kvsrvd\<close> lost its memory takes all their data away.\<close>

theorem controller_initialises:
  assumes "parseGroups flag = Inr groups" and "ready_to_init (ShardController_New addr groups) groups w"
    and "groups \<noteq> fmempty" and "0 |\<notin>| fmdom groups" and "rnd \<noteq> []"
  shows "\<exists>err w'. shardctrlrd dkv_call rnd elapsed addr flag w = Some (err, [], w') \<and>
    err \<in> {None, Some ''failed to init config: failed to write initial config''} \<and>
    (\<exists>c. store (dw_kv w') ''config'' = Some \<lparr>vv_Value = json_Marshal c, vv_Version = 1\<rparr> \<and>
      sc_Num c = 0 \<and> sc_Groups c = groups \<and>
      (\<forall>i<NShards. sc_Shards c ! i |\<in>| fmdom groups \<and> ownedOf (dw_group w' (sc_Shards c ! i)) (int i) \<and>
        mapOf (dw_group w' (sc_Shards c ! i)) (int i) = Map.empty)) \<and>
    (\<exists>w2. shardctrlrd dkv_call rnd2 elapsed2 addr flag w' = Some (None, [], w2) \<and>
      dw_kv w2 = dw_kv w' \<and> dw_group w2 = dw_group w')"
proof -
  let ?t = "rebalanceTarget unconfigured groups" and ?ctl = "ShardController_New addr groups"
  obtain fs where q: "Query dkv_call ?ctl w = Some (Inr unconfigured, w\<lparr>dw_script := fs\<rparr>)"
    using Query_unconfigured [of w ?ctl] assms(2) by (auto simp: ready_to_init_def)
  have "ready_to_init ?ctl groups (w\<lparr>dw_script := fs\<rparr>)" using assms(2) by (simp only: ready_to_init_script)
  from InitConfig_world [OF this assms(5)] obtain err w' where init:
    "InitConfig dkv_call ?ctl rnd groups (w\<lparr>dw_script := fs\<rparr>) = Some (err, w')"
    "err \<in> {None, Some ''failed to write initial config''}"
    "store (dw_kv w') ''config'' = Some \<lparr>vv_Value = json_Marshal ?t, vv_Version = 1\<rparr>"
    "\<forall>i<NShards. handed_over unconfigured ?t (dw_group w) (dw_group w') i" "dw_kvaddr w' = dw_kvaddr w"
    by auto
  have owned: "\<forall>i<NShards. sc_Shards ?t ! i |\<in>| fmdom groups \<and> ownedOf (dw_group w' (sc_Shards ?t ! i)) (int i) \<and>
      mapOf (dw_group w' (sc_Shards ?t ! i)) (int i) = Map.empty"
    using init(4) initial_owners [OF assms(3,4) _ _ refl] by blast
  have t: "wf_config ?t" "ctl_kvsrv ?ctl = dw_kvaddr w'" "sc_Num ?t \<noteq> -1" "sc_Groups ?t = groups" "sc_Num ?t = 0"
    using assms(2) init(5) by (simp_all add: ready_to_init_def unconfigured_target)
  obtain fs2 where "startup dkv_call ?ctl rnd2 elapsed2 groups w' = Some (None, [], w'\<lparr>dw_script := fs2\<rparr>)"
    using startup_idle [OF t(1-3) init(3)] t(4) by auto
  then have second: "\<exists>w2. shardctrlrd dkv_call rnd2 elapsed2 addr flag w' = Some (None, [], w2) \<and>
      dw_kv w2 = dw_kv w' \<and> dw_group w2 = dw_group w'"
    using assms(1) by (simp add: shardctrlrd_def)
  have first: "shardctrlrd dkv_call rnd elapsed addr flag w =
      Some (map_option (\<lambda>e. ''failed to init config: '' @ e) err, [], w')"
    using q init(1) assms(1) by (simp add: shardctrlrd_def startup_def unconfigured_def del: append_Cons)
  show ?thesis
    using first second owned init(2,3) t(4,5)
    by (intro exI [where x = "map_option (\<lambda>e. ''failed to init config: '' @ e) err"] exI [where x = w'])
      auto
qed

text \<open>A deployment whose \<open>kvsrvd\<close> was restarted while the groups served configuration 0.\<close>

definition demo_forgotten :: "fate list \<Rightarrow> dkv_world" where
  "demo_forgotten script = (demo_dkv script)\<lparr>dw_kv := KVServer_New,
     dw_group := (\<lambda>g. withShard 1 [''Q'' \<mapsto> \<lparr>vv_Value = ''x'', vv_Version = 1\<rparr>] True False 0 (ShardGroup_New g))\<rparr>"

theorem controller_initialises_witness:
  "\<exists>err w' w2. shardctrlrd dkv_call [1] 3 ''kv'' ''1=a'' (demo_forgotten [RequestLost]) = Some (err, [], w') \<and>
    mapOf (dw_group (demo_forgotten [RequestLost]) 1) 1 \<noteq> Map.empty \<and>
    ownedOf (dw_group w' 1) 1 \<and> mapOf (dw_group w' 1) 1 = Map.empty \<and>
    shardctrlrd dkv_call [1] 3 ''kv'' ''1=a'' w' = Some (None, [], w2)"
proof -
  let ?groups = "fmap_of_list [(1 :: int, [''a''])]"
  have parse: "parseGroups ''1=a'' = Inr ?groups" by code_simp
  have t: "rebalanceTarget unconfigured ?groups = demo_config 0 1 ''a''" by code_simp
  have shards: "assignShards (sortedGids ?groups) = replicate NShards 1" by code_simp
  have "groups_ok 0 (dw_group (demo_forgotten [RequestLost]))"
    by (simp add: groups_ok_def demo_forgotten_def withShard_wf withShard_at valid_nat)
  then have ready: "ready_to_init (ShardController_New ''kv'' ?groups) ?groups (demo_forgotten [RequestLost])"
    unfolding ready_to_init_def t shards
    by (auto simp: ShardController_New_def demo_forgotten_def demo_dkv_def demo_config_def lock_free_def
        wf_config_def int64_def reachable_gid_def replicas_def leads_def serversOf_def
        fmlookup_of_list KVServer_New_def)
  have ne: "?groups \<noteq> fmempty" by (metis fmap_of_list_simps(2) fmempty_lookup fmupd_lookup option.distinct(1))
  have held: "mapOf (dw_group (demo_forgotten [RequestLost]) 1) 1 \<noteq> Map.empty"
    using withShard_at [of "ShardGroup_New 1" 1 1] by (simp add: demo_forgotten_def)
  have rnd: "[1 :: nat] \<noteq> []" and zero: "0 |\<notin>| fmdom ?groups" by simp_all
  obtain err w' and c :: ShardConfig and w2 where s: "shardctrlrd dkv_call [1] 3 ''kv'' ''1=a'' (demo_forgotten [RequestLost]) = Some (err, [], w')"
    "sc_Groups c = ?groups" "\<forall>i<NShards. sc_Shards c ! i |\<in>| fmdom ?groups \<and>
      ownedOf (dw_group w' (sc_Shards c ! i)) (int i) \<and> mapOf (dw_group w' (sc_Shards c ! i)) (int i) = Map.empty"
    "shardctrlrd dkv_call [1] 3 ''kv'' ''1=a'' w' = Some (None, [], w2)"
    using controller_initialises [OF parse ready ne zero rnd, of 3 "[1]" 3] by blast
  have "1 < NShards" by (simp add: NShards_def)
  note at1 = s(3) [rule_format, OF this]
  have "sc_Shards c ! 1 = 1" using at1 by simp
  with at1 have "ownedOf (dw_group w' 1) 1 \<and> mapOf (dw_group w' 1) 1 = Map.empty" by (metis of_nat_1)
  with s(1,4) held show ?thesis by blast
qed

subsection \<open>A start with other groups\<close>

lemma ready_to_change_script:
  "ready_to_change ctl current target ver (w\<lparr>dw_script := fs\<rparr>) = ready_to_change ctl current target ver w"
  by (simp add: ready_to_change_def movable_def reachable_gid_def replicas_def leads_def)

text \<open>A configuration change from the start-up step, and the metrics it leaves.\<close>

lemma startup_change:
  assumes "ready_to_change ctl cur (rebalanceTarget cur groups) ver w" and "rnd \<noteq> []"
    and "sc_Num cur \<noteq> -1" and "sc_Groups cur \<noteq> groups"
  shows "\<exists>err evs w'. startup dkv_call ctl rnd elapsed groups w = Some (err, evs, w') \<and>
    (err, evs) \<in>
      {(None, [Inc ShardMigrations [''freeze''], Observe ShardMigrationDuration elapsed,
         Inc ShardMigrations [''complete'']]),
       (Some ''failed to change config: failed to publish new config'',
         [Inc ShardMigrations [''freeze''], Inc RPCErrors [''ChangeConfigTo'', ''migration_error'']])} \<and>
    store (dw_kv w') ''config'' = Some \<lparr>vv_Value = json_Marshal (rebalanceTarget cur groups), vv_Version = ver + 1\<rparr> \<and>
    (\<forall>i<NShards. handed_over cur (rebalanceTarget cur groups) (dw_group w) (dw_group w') i) \<and>
    dw_kvaddr w' = dw_kvaddr w"
proof -
  let ?t = "rebalanceTarget cur groups"
  from assms(1) have r: "wf_config cur" "ctl_kvsrv ctl = dw_kvaddr w"
    "store (dw_kv w) ''config'' = Some \<lparr>vv_Value = json_Marshal cur, vv_Version = ver\<rparr>"
    by (simp_all add: ready_to_change_def)
  obtain fs where q: "Query dkv_call ctl w = Some (Inr cur, w\<lparr>dw_script := fs\<rparr>)"
    using Query_world [OF r] by blast
  have "ready_to_change ctl cur ?t ver (w\<lparr>dw_script := fs\<rparr>)" using assms(1) by (simp only: ready_to_change_script)
  from ChangeConfigTo_world [OF this assms(2)] obtain err w' where ch:
    "ChangeConfigTo dkv_call ctl rnd ?t (w\<lparr>dw_script := fs\<rparr>) = Some (err, w')"
    "err \<in> {None, Some ''failed to publish new config''}"
    "store (dw_kv w') ''config'' = Some \<lparr>vv_Value = json_Marshal ?t, vv_Version = ver + 1\<rparr>"
    "\<forall>i<NShards. handed_over cur ?t (dw_group w) (dw_group w') i" "dw_kvaddr w' = dw_kvaddr w"
    by auto
  have "groupsDiffer (sc_Groups cur) groups" using assms(4) by (simp add: groupsDiffer_iff)
  with q ch assms(3) show ?thesis by (auto simp: startup_def)
qed

text \<open>C25: A start of the controller process after its groups changed: whatever calls are lost, it
  returns, the new configuration with the shards dealt out over the new groups is published and every shard
  that changed hands is at its new group with its data. It counts the migration as complete, or
  it dies with \<open>failed to publish\<close> although it published; either way a second start finds
  nothing to do, changes nothing and updates no metric.\<close>

theorem controller_settles:
  assumes "parseGroups flag = Inr groups"
    and "ready_to_change (ShardController_New addr groups) cur (rebalanceTarget cur groups) ver w"
    and "0 \<le> sc_Num cur" and "sc_Groups cur \<noteq> groups" and "rnd \<noteq> []"
  shows "\<exists>err evs w'. shardctrlrd dkv_call rnd elapsed addr flag w = Some (err, evs, w') \<and>
    (err, evs) \<in>
      {(None, [Inc ShardMigrations [''freeze''], Observe ShardMigrationDuration elapsed,
         Inc ShardMigrations [''complete'']]),
       (Some ''failed to change config: failed to publish new config'',
         [Inc ShardMigrations [''freeze''], Inc RPCErrors [''ChangeConfigTo'', ''migration_error'']])} \<and>
    store (dw_kv w') ''config'' = Some \<lparr>vv_Value = json_Marshal (rebalanceTarget cur groups), vv_Version = ver + 1\<rparr> \<and>
    (\<forall>i<NShards. handed_over cur (rebalanceTarget cur groups) (dw_group w) (dw_group w') i) \<and>
    (\<exists>w2. shardctrlrd dkv_call rnd2 elapsed2 addr flag w' = Some (None, [], w2) \<and>
      dw_kv w2 = dw_kv w' \<and> dw_group w2 = dw_group w')"
proof -
  let ?t = "rebalanceTarget cur groups" and ?ctl = "ShardController_New addr groups"
  have num: "sc_Num cur \<noteq> -1" using assms(3) by simp
  obtain err evs w' where first: "startup dkv_call ?ctl rnd elapsed groups w = Some (err, evs, w')"
    "(err, evs) \<in>
      {(None, [Inc ShardMigrations [''freeze''], Observe ShardMigrationDuration elapsed,
         Inc ShardMigrations [''complete'']]),
       (Some ''failed to change config: failed to publish new config'',
         [Inc ShardMigrations [''freeze''], Inc RPCErrors [''ChangeConfigTo'', ''migration_error'']])}"
    "store (dw_kv w') ''config'' = Some \<lparr>vv_Value = json_Marshal ?t, vv_Version = ver + 1\<rparr>"
    "\<forall>i<NShards. handed_over cur ?t (dw_group w) (dw_group w') i" "dw_kvaddr w' = dw_kvaddr w"
    using startup_change [OF assms(2,5) num assms(4)] by blast
  have t: "wf_config ?t" "ctl_kvsrv ?ctl = dw_kvaddr w'" "sc_Num ?t \<noteq> -1" "sc_Groups ?t = groups"
    using assms(2,3) first(5) by (simp_all add: ready_to_change_def rebalanceTarget_def)
  obtain fs where "startup dkv_call ?ctl rnd2 elapsed2 groups w' = Some (None, [], w'\<lparr>dw_script := fs\<rparr>)"
    using startup_idle [OF t(1-3) first(3)] t(4) by auto
  then have second: "\<exists>w2. shardctrlrd dkv_call rnd2 elapsed2 addr flag w' = Some (None, [], w2) \<and>
      dw_kv w2 = dw_kv w' \<and> dw_group w2 = dw_group w'"
    using assms(1) by (simp add: shardctrlrd_def)
  show ?thesis
    using first second assms(1) by (intro exI [where x = err] exI [where x = evs] exI [where x = w'])
      (simp add: shardctrlrd_def)
qed

theorem controller_settles_witness:
  "\<exists>err evs w' w2. shardctrlrd dkv_call [1] 3 ''kv'' ''2=b'' (demo_dkv [ReplyLost]) = Some (err, evs, w') \<and>
    store (dw_kv w') ''config'' = Some \<lparr>vv_Value = json_Marshal (demo_config 1 2 ''b''), vv_Version = 2\<rparr> \<and>
    shardctrlrd dkv_call [1] 3 ''kv'' ''2=b'' w' = Some (None, [], w2)"
proof -
  let ?groups = "fmap_of_list [(2 :: int, [''b''])]"
  have parse: "parseGroups ''2=b'' = Inr ?groups"
    by code_simp
  have t: "rebalanceTarget (demo_config 0 1 ''a'') ?groups = demo_config 1 2 ''b''"
    by code_simp
  have "fmlookup (sc_Groups (demo_config 0 1 ''a'')) 1 \<noteq> fmlookup ?groups 1"
    by (simp add: demo_config_def fmlookup_of_list)
  then have ne: "sc_Groups (demo_config 0 1 ''a'') \<noteq> ?groups" by metis
  have ready: "ready_to_change (ShardController_New ''kv'' ?groups) (demo_config 0 1 ''a'')
      (rebalanceTarget (demo_config 0 1 ''a'') ?groups) 1 (demo_dkv [ReplyLost])"
    using demo_ready [of "[ReplyLost]"] unfolding t by (simp add: ready_to_change_def ShardController_New_def)
  show ?thesis
    using controller_settles [OF parse ready _ ne, of "[1]" 3 "[1]" 3, unfolded t] by (auto simp: demo_config_def)
qed

subsection \<open>A controller that dies\<close>

text \<open>A lock that someone else holds and nobody releases is never acquired.\<close>

lemma Acquire_held:
  assumes "store (dw_kv w) (lk_lockName l) = Some x" and "vv_Value x \<noteq> []" and "vv_Value x \<noteq> lk_clientID l"
  shows "Lock_Acquire dkv_call (dw_kvaddr w) l w = None"
proof -
  have "\<not> (Call = dkv_call \<and> server = dw_kvaddr w \<and> store (dw_kv w) (lk_lockName l) = Some x \<and>
      vv_Value x \<noteq> [] \<and> vv_Value x \<noteq> lk_clientID l)" if "Lock_Acquire Call server l w = Some y" for Call server l w y
  proof (rule Lock_Acquire.raw_induct [where P = "\<lambda>Call server l w y. \<not> (Call = dkv_call \<and> server = dw_kvaddr w \<and>
      store (dw_kv w) (lk_lockName l) = Some x \<and> vv_Value x \<noteq> [] \<and> vv_Value x \<noteq> lk_clientID l)", OF _ that])
    fix acq Call server l w y
    assume IH: "\<And>Call server l w y. acq Call server l w = Some y \<Longrightarrow> \<not> (Call = dkv_call \<and> server = dw_kvaddr w \<and>
      store (dw_kv w) (lk_lockName l) = Some x \<and> vv_Value x \<noteq> [] \<and> vv_Value x \<noteq> lk_clientID l)"
      and step: "Option.bind (KVClerk_Get Call server (lk_lockName l) w) (\<lambda>(g, w). case acquireDecide (lk_clientID l) g of
         TryPut ver \<Rightarrow> Option.bind (KVClerk_Put Call server (lk_lockName l) (lk_clientID l) ver w)
          (\<lambda>(putErr, w). if putHappened putErr then Option.bind (KVClerk_Get Call server (lk_lockName l) w)
             (\<lambda>(g, w). if acquireCheck (lk_clientID l) g then Some w else acq Call server l w)
            else acq Call server l w)
       | Again \<Rightarrow> acq Call server l w | Done \<Rightarrow> Some w) = Some y"
    show "\<not> (Call = dkv_call \<and> server = dw_kvaddr w \<and>
      store (dw_kv w) (lk_lockName l) = Some x \<and> vv_Value x \<noteq> [] \<and> vv_Value x \<noteq> lk_clientID l)"
    proof
      assume h: "Call = dkv_call \<and> server = dw_kvaddr w \<and>
        store (dw_kv w) (lk_lockName l) = Some x \<and> vv_Value x \<noteq> [] \<and> vv_Value x \<noteq> lk_clientID l"
      obtain fs where "KVClerk_Get dkv_call (dw_kvaddr w) (lk_lockName l) w =
          (let r = KVServer_Get \<lparr>ga_Key = lk_lockName l\<rparr> (dw_kv w) in
            Some ((gr_Value r, gr_Version r, gr_Err r), w\<lparr>dw_script := fs\<rparr>))"
        using KVClerk_Get_world by blast
      with h step have "acq dkv_call (dw_kvaddr w) l (w\<lparr>dw_script := fs\<rparr>) = Some y"
        by (simp add: KVServer_Get_def)
      from IH [OF this] h show False by simp
    qed
  qed
  with assms show ?thesis by (cases "Lock_Acquire dkv_call (dw_kvaddr w) l w") auto
qed



subsection \<open>A start without groups\<close>

lemma moveShards_first_None:
  "ms = (s, src, dst) # rest \<Longrightarrow> moveShard Call cur target s src dst w = None \<Longrightarrow> moveShards Call cur target ms w = None"
  by simp

text \<open>A shard with data cannot go to group 0: it is frozen, and the install never returns.\<close>

lemma moveShard_nowhere:
  assumes "reachable_gid w (sc_Groups cur) src" and "src \<noteq> 0" and "fmlookup (sc_Groups target) 0 = None"
    and "groups_ok (sc_Num target) (dw_group w)" and "valid_shard s"
  shows "moveShard dkv_call cur target s src 0 w = None"
proof -
  let ?N = "sc_Num target" and ?G = "dw_group w"
  have w: "inWorld w ?G (dw_script w) = w" by (simp add: inWorld_def)
  have src: "replicas w src (serversOf (sc_Groups cur) src)" "\<exists>a\<in>set (serversOf (sc_Groups cur) src). leads w src a"
    using assms(1) by (simp_all add: reachable_gid_def)
  obtain f1 where "ShardClerk_FreezeShard dkv_call (serversOf (sc_Groups cur) src)
      \<lparr>fa_Shard = s, fa_ConfigNum = ?N\<rparr> (inWorld w ?G (dw_script w)) =
      Some (\<lparr>fr_Err = OK, fr_Data = mapOf (?G src) s\<rparr>, inWorld w (?G(src := withShard s (mapOf (?G src) s) False True ?N (?G src))) f1)"
    unfolding ShardClerk_defs
    by (rule callGroup_inWorld [where gid = src and G = ?G,
        OF freeze_repeatable [OF groups_okD(1) [OF assms(4)] assms(5) groups_okD(2) [OF assms(4,5)]] src])
  moreover have "ShardClerk_InstallShard dkv_call (serversOf (sc_Groups target) 0) a u = None" for a u
    using assms(3) by (simp add: serversOf_def ShardClerk_defs callGroup_no_servers)
  ultimately show ?thesis using assms(2) unfolding w by (simp add: moveShard_def Let_def)
qed

lemma first_move:
  assumes "wf_config cur" and "wf_config target"
  shows "moves cur target = (0, sc_Shards cur ! 0, sc_Shards target ! 0) # tl (moves cur target)"
proof -
  have "length (moves cur target) = NShards" "moves cur target ! 0 = (0, sc_Shards cur ! 0, sc_Shards target ! 0)"
    using assms by (simp_all add: moves_def wf_config_def NShards_def)
  then show ?thesis by (cases "moves cur target") (simp_all add: NShards_def)
qed

lemma lock_body_stuck:
  assumes "lock_free ''config_lock'' (store (dw_kv w))" and "rnd \<noteq> []" and "ctl_kvsrv ctl = dw_kvaddr w"
    and "\<And>x f. body (withStore w ((store (dw_kv w))(''config_lock'' \<mapsto> x)) f) = None"
  shows "withConfigLock dkv_call ctl rnd body w = None"
proof -
  let ?l = "NewLock rnd ''config_lock''" and ?m = "store (dw_kv w)"
  have "lk_clientID ?l \<noteq> []" using assms(2) by (cases rnd) (simp_all add: NewLock_def)
  then obtain f x where "Lock_Acquire dkv_call (dw_kvaddr w) ?l (withStore w ?m (dw_script w)) =
      Some (withStore w (?m(''config_lock'' \<mapsto> x)) f)"
    using Acquire_world [of ?l ?m w "dw_script w"] assms(1) by (auto simp: NewLock_def)
  with assms(3,4) show ?thesis unfolding withStore_id by (simp add: withConfigLock_def Let_def)
qed

text \<open>A change whose first shard cannot arrive never returns.\<close>

lemma change_stuck:
  assumes "wf_config cur" and "wf_config target" and "sc_Num cur < sc_Num target" and "ctl_kvsrv ctl = dw_kvaddr w"
    and "store (dw_kv w) ''config'' = Some \<lparr>vv_Value = json_Marshal cur, vv_Version = ver\<rparr>"
    and "lock_free ''config_lock'' (store (dw_kv w))" and "rnd \<noteq> []" and "groups_ok (sc_Num target) (dw_group w)"
    and "sc_Shards cur ! 0 \<noteq> 0" and "reachable_gid w (sc_Groups cur) (sc_Shards cur ! 0)"
    and "sc_Shards target ! 0 = 0" and "fmlookup (sc_Groups target) 0 = None"
  shows "ChangeConfigTo dkv_call ctl rnd target w = None"
  unfolding ChangeConfigTo_def
proof (rule lock_body_stuck [OF assms(6,7,4)])
  fix x f
  let ?m = "(store (dw_kv w))(''config_lock'' \<mapsto> x)"
  obtain f2 where get: "KVClerk_Get dkv_call (dw_kvaddr w) ''config'' (withStore w ?m f) =
      (let r = get_view ''config'' ?m in Some ((gr_Value r, gr_Version r, gr_Err r), withStore w ?m f2))"
    by (rule Get_store)
  have json: "json_Unmarshal (json_Marshal cur) = Some cur"
    using assms(1) by (intro json_roundtrip) (auto simp: wf_config_def)
  have "reachable_gid (withStore w ?m f2) = reachable_gid w"
    by (simp add: reachable_gid_def replicas_def leads_def fun_eq_iff)
  then have "moveShard dkv_call cur target 0 (sc_Shards cur ! 0) 0 (withStore w ?m f2) = None"
    using assms(8-10,12) by (intro moveShard_nowhere) (simp_all add: valid_shard_def NShards_def)
  then have "moveShards dkv_call cur target (moves cur target) (withStore w ?m f2) = None"
    using first_move [OF assms(1,2)] assms(11) by (intro moveShards_first_None) simp_all
  with get json assms(3-5) show "changeConfigBody dkv_call ctl target (withStore w ?m f) = None"
    by (simp add: changeConfigBody_def get_view_def moves_def [symmetric] Let_def)
qed



end
