(* ===== verification/Processes.thy ===== *)
theory Processes
  imports ReplicaGroup Transport
begin

section \<open>The server processes (cmd/kvraftd, cmd/kvsrvd, transport.StartServer)\<close>

text \<open>
  How a process is put together from its flags and what it serves. \<open>register\<close> is
  \<open>server.RegisterName\<close> and \<open>listen\<close> is \<open>net.Listen\<close>, arguments that answer an error text or none.
  \<open>kvraftd_stop\<close> and \<open>kvsrvd_stop\<close> are what follows a signal. Of the HTTP server for the metrics only
  the address is kept.
\<close>

subsection \<open>StartServer (transport/grpc.go)\<close>

record 'svc listener =
  ls_addr :: string
  ls_services :: "string \<rightharpoonup> 'svc"

text \<open>The services are a Go map; the list is the order in which the loop meets them.\<close>

fun registerServices ::
  "(string \<Rightarrow> 'svc \<Rightarrow> string option) \<Rightarrow> (string \<times> 'svc) list \<Rightarrow> (string \<rightharpoonup> 'svc) \<Rightarrow> string + (string \<rightharpoonup> 'svc)" where
  "registerServices register [] m = Inr m"
| "registerServices register ((name, svc) # services) m =
     (case register name svc of
        Some err \<Rightarrow> Inl err
      | None \<Rightarrow> registerServices register services (m(name \<mapsto> svc)))"

definition StartServer ::
  "(string \<Rightarrow> 'svc \<Rightarrow> string option) \<Rightarrow> (string \<Rightarrow> string option) \<Rightarrow> string \<Rightarrow> (string \<times> 'svc) list \<Rightarrow>
   string + 'svc listener" where
  "StartServer register listen addr services =
     (case registerServices register services Map.empty of
        Inl err \<Rightarrow> Inl err
      | Inr m \<Rightarrow>
          (case listen addr of
             Some err \<Rightarrow> Inl err
           | None \<Rightarrow> Inr \<lparr>ls_addr = addr, ls_services = m\<rparr>))"

text \<open>The accept loop: the connections it serves, from what \<open>l.Accept()\<close> answers (\<open>None\<close> is an error).\<close>

fun acceptLoop :: "'conn option list \<Rightarrow> 'conn list" where
  "acceptLoop [] = []"
| "acceptLoop (None # _) = []"
| "acceptLoop (Some conn # rest) = conn # acceptLoop rest"

text \<open>The first error of \<open>Accept\<close>, a passing one too, ends the service while the process goes on.\<close>

lemma acceptLoop_eq: "acceptLoop cs = map the (takeWhile (\<lambda>c. c \<noteq> None) cs)"
  by (induction cs rule: acceptLoop.induct) simp_all

lemma registerServices_ok:
  assumes "\<forall>(name, svc)\<in>set services. register name svc = None"
  shows "registerServices register services m = Inr (m ++ map_of (rev services))"
  using assms
proof (induction services arbitrary: m)
  case (Cons s services)
  obtain name svc where s: "s = (name, svc)" by (cases s)
  with Cons show ?case by (simp add: map_add_assoc [symmetric])
qed simp

subsection \<open>kvraftd\<close>

datatype service =
    RaftService             \<comment> \<open>the Raft peer of the process\<close>
  | ShardGroupService       \<comment> \<open>its shard group\<close>
  | KVService               \<comment> \<open>the key/value server of \<open>kvsrvd\<close>\<close>

record kvraftd_flags =
  fl_me :: int              \<comment> \<open>-1 when not given\<close>
  fl_peers :: string
  fl_gid :: int
  fl_persistDir :: path
  fl_maxState :: int
  fl_metricsAddr :: string

definition kvraftd_defaults :: kvraftd_flags where
  "kvraftd_defaults = \<lparr>fl_me = -1, fl_peers = [], fl_gid = 0, fl_persistDir = [], fl_maxState = 10000,
     fl_metricsAddr = []\<rparr>"

text \<open>The address of the metrics endpoint, when it is configured.\<close>

definition metricsEndpoint :: "string \<Rightarrow> string option" where
  "metricsEndpoint metricsAddr = (if metricsAddr \<noteq> [] then Some metricsAddr else None)"

record kvraftd =
  kp_raft :: "Op raft"
  kp_rsm :: "ShardGroup rsm"
  kp_applyCh :: "Op ApplyMsg list"
  kp_net :: "unit grpc"
  kp_metrics :: "string option"
  kp_listener :: "service listener option"    \<comment> \<open>\<open>None\<close> when closed\<close>

text \<open>
  \<open>Inl\<close> is the text of \<open>log.Fatalf\<close> in \<open>main\<close>; no result is the one in \<open>Make\<close>, for a state file that
  does not decode. \<open>fs\<close> is the file system the process starts on.
\<close>

definition kvraftd_main ::
  "(string \<Rightarrow> service \<Rightarrow> string option) \<Rightarrow> (string \<Rightarrow> string option) \<Rightarrow> clock \<Rightarrow> kvraftd_flags \<Rightarrow>
   Op gob fs \<Rightarrow> (string + kvraftd) option" where
  "kvraftd_main register listen ck fl fs =
     (if fl_me fl = -1 \<or> fl_peers fl = [] \<or> fl_persistDir fl = []
      then Some (Inl ''missing required flags: --me, --peers, and --persist-dir are required'')
      else
        let peers = splitOn (CHR '','') (fl_peers fl) in
        if fl_me fl < 0 \<or> fl_me fl \<ge> int (length peers)
        then Some (Inl (''invalid index --me: '' @ itoa (fl_me fl) @ '' (must be between 0 and '' @
               itoa (int (length peers) - 1) @ '')''))
        else do {
          let pers = NewDiskPersister (fl_persistDir fl);
          rf \<leftarrow> Make ck peers (fl_me fl) (disk_contents pers fs);
          let sg = ShardGroup_New (fl_gid fl);
          let r = RSM_New sg (fl_maxState fl);
          let addr = peers ! nat (fl_me fl);
          case StartServer register listen addr
              [(''Raft'', RaftService), (''ShardGroup'', ShardGroupService)] of
            Inl err \<Rightarrow> Some (Inl (''failed to start RPC server on '' @ addr @ '': '' @ err))
          | Inr l \<Rightarrow> Some (Inr \<lparr>kp_raft = rf, kp_rsm = r, kp_applyCh = [],
              kp_net = NewGRPCNetwork (), kp_metrics = metricsEndpoint (fl_metricsAddr fl), kp_listener = Some l\<rparr>)
        })"

text \<open>\<open>Kill\<close>, then the deferred calls.\<close>

definition kvraftd_stop :: "kvraftd \<Rightarrow> kvraftd" where
  "kvraftd_stop p = p\<lparr>kp_raft := Kill (kp_raft p), kp_listener := None, kp_net := GRPC_Close (kp_net p)\<rparr>"

text \<open>Without flags the process ends at once.\<close>

lemma kvraftd_needs_flags:
  "kvraftd_main register listen ck kvraftd_defaults fs =
     Some (Inl ''missing required flags: --me, --peers, and --persist-dir are required'')"
  by (simp add: kvraftd_main_def kvraftd_defaults_def)

lemma kvraftd_started:
  assumes "kvraftd_main register listen ck fl fs = Some (Inr p)"
  shows "0 \<le> fl_me fl" and "fl_me fl < int (length (splitOn (CHR '','') (fl_peers fl)))"
    and "Make ck (splitOn (CHR '','') (fl_peers fl)) (fl_me fl)
      (disk_contents (NewDiskPersister (fl_persistDir fl)) fs) = Some (kp_raft p)"
    and "kp_rsm p = RSM_New (ShardGroup_New (fl_gid fl)) (fl_maxState fl)" and "kp_applyCh p = []"
    and "map_option ls_addr (kp_listener p) = Some (splitOn (CHR '','') (fl_peers fl) ! nat (fl_me fl))"
  using assms by (auto simp: kvraftd_main_def StartServer_def Let_def split: if_splits Option.bind_splits sum.splits option.splits)

subsection \<open>kvsrvd\<close>

record kvsrvd =
  ks_kv :: KVServer
  ks_metrics :: "string option"
  ks_listener :: "service listener option"

definition kvsrvd_main ::
  "(string \<Rightarrow> service \<Rightarrow> string option) \<Rightarrow> (string \<Rightarrow> string option) \<Rightarrow> string \<Rightarrow> string \<Rightarrow> string + kvsrvd" where
  "kvsrvd_main register listen addr metricsAddr =
     (let kv = KVServer_New in
      case StartServer register listen addr [(''KVServer'', KVService)] of
        Inl err \<Rightarrow> Inl (''failed to start server: '' @ err)
      | Inr l \<Rightarrow> Inr \<lparr>ks_kv = kv, ks_metrics = metricsEndpoint metricsAddr, ks_listener = Some l\<rparr>)"

definition kvsrvd_stop :: "kvsrvd \<Rightarrow> kvsrvd" where
  "kvsrvd_stop p = p\<lparr>ks_listener := None\<rparr>"

text \<open>The store lives in memory: a restarted \<open>kvsrvd\<close> knows no configuration and no lock.\<close>

lemma kvsrvd_started:
  "kvsrvd_main register listen addr metricsAddr = Inr p \<Longrightarrow> store (ks_kv p) = Map.empty"
  by (auto simp: kvsrvd_main_def KVServer_New_def Let_def split: sum.splits)

end
