(* ===== verification/ProcessProperties.thy ===== *)
theory ProcessProperties
  imports Processes GroupProperties
begin

section \<open>The processes and the group they form\<close>

abbreviation raftd_flags :: "nat \<Rightarrow> string \<Rightarrow> int \<Rightarrow> path \<Rightarrow> int \<Rightarrow> kvraftd_flags" where
  "raftd_flags i peersFlag gid dir mx \<equiv>
     \<lparr>fl_me = int i, fl_peers = peersFlag, fl_gid = gid, fl_persistDir = dir, fl_maxState = mx,
      fl_metricsAddr = []\<rparr>"

text \<open>C13: Processes started with one list of peers, an index each and empty directories are a replica
  group in its initial state, so that everything proved of the states a group reaches holds of them.\<close>

theorem processes_form_group:
  assumes "\<forall>i<n. kvraftd_main register listen (cks i) (raftd_flags i peersFlag gid (dir i) mx) (fs i) = Some (Inr (ps i))"
    and "n = length (splitOn (CHR '','') peersFlag)"
    and "\<forall>i<n. fs i (statePath (dir i)) = None \<and> fs i (snapPath (dir i)) = None"
  shows "\<exists>S. group_start n (ShardGroup_New gid) mx S \<and> shard_group_run blen n gid mx S \<and>
    (\<forall>i<n. nodes (g_raft S) i = kp_raft (ps i) \<and> g_rsm S i = kp_rsm (ps i) \<and> g_applyCh S i = kp_applyCh (ps i))"
proof -
  let ?peers = "splitOn (CHR '','') peersFlag"
  have made: "Make (cks i) ?peers (int i) NewMemoryPersister = Some (kp_raft (ps i))"
    and rest: "kp_rsm (ps i) = RSM_New (ShardGroup_New gid) mx" "kp_applyCh (ps i) = []" if "i < n" for i
  proof -
    note k = kvraftd_started [OF assms(1) [rule_format, OF that]]
    have "disk_contents (NewDiskPersister (dir i)) (fs i) = NewMemoryPersister"
      using assms(3) that by (intro disk_contents_empty) (simp_all add: NewDiskPersister_def)
    with k(3) show "Make (cks i) ?peers (int i) NewMemoryPersister = Some (kp_raft (ps i))" by simp
    from k(4,5) show "kp_rsm (ps i) = RSM_New (ShardGroup_New gid) mx" "kp_applyCh (ps i) = []" by simp_all
  qed
  define N where "N i = (if i < n then kp_raft (ps i) else the (Make (cks i) ?peers (int i) NewMemoryPersister))" for i
  define S where "S = \<lparr>g_raft = \<lparr>nodes = N, net = {}, elections = (\<lambda>_ _. None), cast = {}, elected = {},
       leaderLog = (\<lambda>_. []), delivered = {}\<rparr>, g_rsm = (\<lambda>_. RSM_New (ShardGroup_New gid) mx),
     g_applyCh = (\<lambda>_. []), g_calls = (\<lambda>_. {}), g_ops = Map.empty, g_place = Map.empty,
     g_applied = {}, g_answers = {}, g_before = {}, g_lost = False\<rparr>"
  have "Make (cks i) ?peers (int i) NewMemoryPersister = Some (N i)" for i
  proof (cases "i < n")
    case False
    have "Make (cks i) ?peers (int i) (NewMemoryPersister :: Op gob MemoryPersister) \<noteq> None"
      by (simp add: Make_def Mem_defs NewMemoryPersister_def readPersist_def)
    with False show ?thesis by (auto simp: N_def)
  qed (simp add: N_def made)
  then have "initial n (g_raft S)"
    unfolding initial_def using assms(2) by (intro conjI exI [where x = ?peers] exI [where x = cks]) (simp_all add: S_def)
  then have start: "group_start n (ShardGroup_New gid) mx S" by (simp add: group_start_def S_def)
  moreover have "shard_group_run blen n gid mx S" using start by (rule group_reachable.start)
  ultimately show ?thesis using rest by (intro exI [where x = S]) (simp add: S_def N_def)
qed

theorem processes_form_group_witness:
  "\<exists>ps S. group_start 3 (ShardGroup_New 7) 10000 S \<and>
    (\<forall>i<3. kvraftd_main (\<lambda>_ _. None) (\<lambda>_. None) demo_clock (raftd_flags i ''a:1,b:1,c:1'' 7 ''/data'' 10000) Map.empty =
      Some (Inr (ps i)) \<and> nodes (g_raft S) i = kp_raft (ps i))"
proof -
  have split: "splitOn (CHR '','') ''a:1,b:1,c:1'' = [''a:1'', ''b:1'', ''c:1'']" by simp
  have "\<exists>p. kvraftd_main (\<lambda>_ _. None) (\<lambda>_. None) demo_clock (raftd_flags i ''a:1,b:1,c:1'' 7 ''/data'' 10000) Map.empty =
      Some (Inr p)" if "i < 3" for i
    using that unfolding kvraftd_main_def
    by (simp add: split StartServer_def Make_def Mem_defs readPersist_def disk_contents_def Disk_defs)
  then obtain ps where ps: "\<forall>i<3. kvraftd_main (\<lambda>_ _. None) (\<lambda>_. None) demo_clock
      (raftd_flags i ''a:1,b:1,c:1'' 7 ''/data'' 10000) Map.empty = Some (Inr (ps i))"
    by metis
  have "\<exists>S. group_start 3 (ShardGroup_New 7) 10000 S \<and> shard_group_run (\<lambda>_. 0) 3 7 10000 S \<and>
    (\<forall>i<3. nodes (g_raft S) i = kp_raft (ps i) \<and> g_rsm S i = kp_rsm (ps i) \<and> g_applyCh S i = kp_applyCh (ps i))"
    by (rule processes_form_group [OF ps]) (simp_all add: split)
  with ps show ?thesis by blast
qed


lemma demo_peer_persister: "persister (demo_peer i) = NewMemoryPersister"
  by (simp add: demo_peer_def Make_def readPersist_def Mem_defs NewMemoryPersister_def slice_def
      resetElectionTimeout_def)


end
