(* ===== verification/RestartDemo.thy ===== *)
theory RestartDemo
  imports GroupProperties
begin

section \<open>A run in which a restarted replica loses its snapshot\<close>

text \<open>
  The run of \<open>RaftDemo\<close> with two commands that are sent together. Peer 1 applies the first, compacts
  it away and is restarted; it then applies only the second.
\<close>

subsection \<open>Two commands are committed\<close>

definition two_entry :: "'c \<Rightarrow> 'c LogEntry" where
  "two_entry d = \<lparr>le_Term = 1, le_Index = 2, le_Command = Some d\<rparr>"

definition two_log :: "'c \<Rightarrow> 'c \<Rightarrow> 'c LogEntry list" where
  "two_log c d = [dummyEntry 0 0, run_entry c, two_entry d]"

definition two_proposer :: "'c \<Rightarrow> 'c \<Rightarrow> 'c raft" where
  "two_proposer c d = snd (Start d (run_proposer c))"

definition two_append :: "'c \<Rightarrow> 'c \<Rightarrow> 'c AppendEntriesArgs" where
  "two_append c d = demo_append 0 [run_entry c, two_entry d]"

definition two_beat :: "'c AppendEntriesArgs" where
  "two_beat = \<lparr>ae_Term = 1, ae_LeaderID = 0, ae_PrevLogIndex = 2, ae_PrevLogTerm = 1,
     ae_Entries = [], ae_LeaderCommit = 2\<rparr>"

definition two_store :: "'c \<Rightarrow> 'c \<Rightarrow> 'c raft" where
  "two_store c d = (case AppendEntries demo_clock (two_append c d) demo_voter of Some (r, rf) \<Rightarrow> rf)"

definition two_committer :: "'c \<Rightarrow> 'c \<Rightarrow> 'c raft" where
  "two_committer c d = the (handleAppendReply demo_clock 1 1 (two_append c d) demo_stored (two_proposer c d))"

definition two_store2 :: "'c \<Rightarrow> 'c \<Rightarrow> 'c raft" where
  "two_store2 c d = (case AppendEntries demo_clock two_beat (two_store c d) of Some (r, rf) \<Rightarrow> rf)"

lemma two_propose: "Start d (run_proposer c) = ((2, 1, True), two_proposer c d)"
  by (simp add: two_proposer_def Start_def getLastLogIndex_def run_log_def)

lemma two_proposer_eq [simp]:
  "role (two_proposer c d) = Leader" "currentTerm (two_proposer c d) = 1" "rlog (two_proposer c d) = two_log c d"
  "lastIncludedIndex (two_proposer c d) = 0" "lastIncludedTerm (two_proposer c d) = 0"
  "peers (two_proposer c d) = demo_addrs" "me (two_proposer c d) = 0" "nextIndex (two_proposer c d) = [1, 1, 1]"
  "matchIndex (two_proposer c d) = [0, 0, 0]" "commitIndex (two_proposer c d) = 0" "lastApplied (two_proposer c d) = 0"
  "dead (two_proposer c d) = False" "pendingSnapshotValid (two_proposer c d) = False"
  by (simp_all add: two_proposer_def Start_def getLastLogIndex_def frame_simps run_log_def two_log_def two_entry_def)

lemma two_send: "sendAppendEntriesToPeer 1 1 (two_proposer c d) = Some (Some (two_append c d))"
  by (simp add: sendAppendEntriesToPeer_def Let_def getLogTerm_def getLastLogIndex_def go_simps demo_append_def
      two_append_def two_log_def)

lemma two_accept: "AppendEntries demo_clock (two_append c d) demo_voter = Some (demo_stored, two_store c d)"
  by (simp add: two_store_def AppendEntries_def Let_def two_append_def demo_append_def demo_stored_def observeTerm_def
      getLastLogIndex_def getLogTerm_def frame_simps)

lemma two_store_eq [simp]:
  "role (two_store c d) = Follower" "currentTerm (two_store c d) = 1" "rlog (two_store c d) = two_log c d"
  "lastIncludedIndex (two_store c d) = 0" "lastIncludedTerm (two_store c d) = 0" "commitIndex (two_store c d) = 0"
  "lastApplied (two_store c d) = 0" "dead (two_store c d) = False" "pendingSnapshotValid (two_store c d) = False"
  by (simp_all add: two_store_def AppendEntries_def Let_def two_append_def demo_append_def observeTerm_def
      getLastLogIndex_def getLogTerm_def frame_simps two_log_def resetElectionTimeout_def persist_def)

lemma two_commit: "handleAppendReply demo_clock 1 1 (two_append c d) demo_stored (two_proposer c d) = Some (two_committer c d)"
  by (simp add: two_committer_def handleAppendReply_def Let_def two_append_def demo_append_def demo_stored_def
      getLastLogIndex_def two_log_def advanceCommit.simps getLogTerm_def go_simps run_entry_def two_entry_def
      demo_addrs_def upt_rec numeral_3_eq_3)

lemma two_committer_eq [simp]:
  "role (two_committer c d) = Leader" "currentTerm (two_committer c d) = 1" "rlog (two_committer c d) = two_log c d"
  "lastIncludedIndex (two_committer c d) = 0" "lastIncludedTerm (two_committer c d) = 0"
  "nextIndex (two_committer c d) = [1, 3, 1]" "commitIndex (two_committer c d) = 2" "lastApplied (two_committer c d) = 0"
  "dead (two_committer c d) = False" "pendingSnapshotValid (two_committer c d) = False" "me (two_committer c d) = 0"
  by (simp_all add: two_committer_def handleAppendReply_def Let_def two_append_def demo_append_def demo_stored_def
      getLastLogIndex_def two_log_def advanceCommit.simps getLogTerm_def go_simps run_entry_def two_entry_def
      demo_addrs_def upt_rec numeral_3_eq_3)

lemma two_heartbeat: "sendAppendEntriesToPeer 1 1 (two_committer c d) = Some (Some two_beat)"
  by (simp add: sendAppendEntriesToPeer_def Let_def getLogTerm_def getLastLogIndex_def go_simps two_beat_def
      two_log_def two_entry_def run_entry_def numeral_3_eq_3)

lemma two_follow: "AppendEntries demo_clock two_beat (two_store c d) = Some (demo_stored, two_store2 c d)"
  by (simp add: two_store2_def AppendEntries_def Let_def two_beat_def demo_stored_def observeTerm_def
      getLastLogIndex_def getLogTerm_def frame_simps go_simps two_log_def run_entry_def two_entry_def)

lemma two_store2_eq [simp]:
  "role (two_store2 c d) = Follower" "currentTerm (two_store2 c d) = 1" "rlog (two_store2 c d) = two_log c d"
  "lastIncludedIndex (two_store2 c d) = 0" "lastIncludedTerm (two_store2 c d) = 0" "commitIndex (two_store2 c d) = 2"
  "lastApplied (two_store2 c d) = 0" "dead (two_store2 c d) = False" "pendingSnapshotValid (two_store2 c d) = False"
  by (simp_all add: two_store2_def AppendEntries_def Let_def two_beat_def observeTerm_def go_simps
      getLastLogIndex_def getLogTerm_def frame_simps two_log_def run_entry_def two_entry_def resetElectionTimeout_def)

lemma two_apply:
  assumes "rlog rf = two_log c d" and "lastIncludedIndex rf = 0" and "commitIndex rf = 2" and "lastApplied rf = 0"
    and "\<not> dead rf" and "\<not> pendingSnapshotValid rf"
  shows "applier rf = Some ([CommandMsg (Some c) 1, CommandMsg (Some d) 2], rf\<lparr>lastApplied := 2\<rparr>)"
  using assms
  by (simp add: applier_def applier_ready_def applyLoop.simps getLogEntry_def two_log_def two_entry_def
      run_entry_def go_simps Let_def)

lemma two_run:
  fixes S1 :: "'c cluster"
  assumes "nodes S1 0 = two_proposer c d" and "nodes S1 1 = demo_voter"
  shows "\<exists>S. rtranclp (net_step 3) S1 S \<and> nodes S 0 = two_committer c d \<and> nodes S 1 = two_store2 c d \<and>
    AppendReq 0 1 two_beat \<in> net S"
proof -
  define S2 where "S2 = S1\<lparr>net := net S1 \<union> {AppendReq 0 1 (two_append c d)}\<rparr>"
  have "net_step 3 S1 S2"
    unfolding S2_def by (rule net_step.send_append) (use two_send assms in simp_all)
  then have r2: "rtranclp (net_step 3) S1 S2" by (rule r_into_rtranclp)
  define S3 where "S3 = moveTo 1 (two_store c d) {AppendRep 0 1 (two_append c d) demo_stored} S2"
  have "net_step 3 S2 S3"
    unfolding S3_def
    by (rule net_step.append [where ck = demo_clock]) (use two_accept assms in \<open>simp_all add: S2_def\<close>)
  with r2 have r3: "rtranclp (net_step 3) S1 S3" by (rule rtranclp.rtrancl_into_rtrancl)
  define S4 where "S4 = moveTo 0 (two_committer c d) {} S3"
  have "net_step 3 S3 S4"
    unfolding S4_def
    by (rule net_step.append_reply [where ck = demo_clock and j = 1 and args = "two_append c d" and r = demo_stored])
       (use two_commit assms in \<open>simp_all add: S2_def S3_def two_append_def demo_append_def\<close>)
  with r3 have r4: "rtranclp (net_step 3) S1 S4" by (rule rtranclp.rtrancl_into_rtrancl)
  define S5 where "S5 = S4\<lparr>net := net S4 \<union> {AppendReq 0 1 two_beat}\<rparr>"
  have "net_step 3 S4 S5"
    unfolding S5_def by (rule net_step.send_append) (use two_heartbeat in \<open>simp_all add: S4_def\<close>)
  with r4 have r5: "rtranclp (net_step 3) S1 S5" by (rule rtranclp.rtrancl_into_rtrancl)
  define S6 where "S6 = moveTo 1 (two_store2 c d) {AppendRep 0 1 two_beat demo_stored} S5"
  have "net_step 3 S5 S6"
    unfolding S6_def
    by (rule net_step.append [where ck = demo_clock]) (use two_follow in \<open>simp_all add: S5_def S4_def S3_def\<close>)
  with r5 have "rtranclp (net_step 3) S1 S6" by (rule rtranclp.rtrancl_into_rtrancl)
  moreover have "nodes S6 0 = two_committer c d" "nodes S6 1 = two_store2 c d" "AppendReq 0 1 two_beat \<in> net S6"
    by (simp_all add: S6_def S5_def S4_def S3_def)
  ultimately show ?thesis by blast
qed

subsection \<open>A compaction and a restart\<close>

text \<open>The reader applies the first command and compacts it away.\<close>

lemma two_compact:
  assumes "rlog rf = two_log c d" and "lastIncludedIndex rf = 0"
  shows "\<exists>rf'. Raft_Snapshot 1 d0 rf = Some rf' \<and> rlog rf' = [dummyEntry 1 1, two_entry d] \<and>
    lastIncludedIndex rf' = 1 \<and> lastIncludedTerm rf' = 1 \<and> persisted rf' \<and> currentTerm rf' = currentTerm rf"
  using assms
  by (simp add: Raft_Snapshot_def getLogTerm_def go_simps two_log_def run_entry_def Let_def)

lemma two_compact2:
  assumes "rlog rf = [dummyEntry 1 1, two_entry d]" and "lastIncludedIndex rf = 1"
  shows "\<exists>rf'. Raft_Snapshot 2 d0 rf = Some rf'"
  using assms by (simp add: Raft_Snapshot_def getLogTerm_def go_simps two_entry_def Let_def)

text \<open>The restarted peer takes a late copy of the heartbeat and applies the second command only.\<close>

lemma restarted_follows:
  fixes rf :: "'c raft"
  assumes "rlog rf = [dummyEntry 1 1, two_entry d]" and "lastIncludedIndex rf = 1" and "lastIncludedTerm rf = 1"
    and "currentTerm rf = 1" and "commitIndex rf = 1" and "lastApplied rf = 1" and "role rf = Follower"
    and "\<not> dead rf" and "\<not> pendingSnapshotValid rf"
  shows "\<exists>r rf2. AppendEntries demo_clock two_beat rf = Some (r, rf2) \<and>
    applier rf2 = Some ([CommandMsg (Some d) 2], rf2\<lparr>lastApplied := 2\<rparr>) \<and>
    rlog rf2 = [dummyEntry 1 1, two_entry d] \<and> lastIncludedIndex rf2 = 1"
  using assms
  by (simp add: AppendEntries_def Let_def two_beat_def observeTerm_def getLastLogIndex_def getLogTerm_def frame_simps
      go_simps two_entry_def resetElectionTimeout_def applier_def applier_ready_def applyLoop.simps getLogEntry_def)

subsection \<open>The group\<close>

lemma const_upd [simp]: "(\<lambda>_. x)(i := x) = (\<lambda>_. x)"
  by auto

text \<open>Steps of a group with what they change.\<close>

lemma group_applies:
  assumes "shard_group_run blen n gid mx S" and "i < n" and "applier (nodes (g_raft S) i) = Some (ms, rf)"
  shows "\<exists>S'. shard_group_run blen n gid mx S' \<and> nodes (g_raft S') = (nodes (g_raft S))(i := rf) \<and>
    net (g_raft S') = net (g_raft S) \<and> g_rsm S' = g_rsm S \<and> g_applyCh S' = (g_applyCh S)(i := g_applyCh S i @ ms)"
  using group_reachable.step [OF assms(1) group_step.apply_committed [OF assms(2,3)]]
  by (intro exI conjI) (assumption, simp_all)

lemma group_reads:
  assumes "shard_group_run blen n gid mx S" and "i < n" and "g_applyCh S i = m # ms"
    and "reader_msg ShardGroup_DoOp ShardGroup_Snapshot ShardGroup_Restore blen m (g_rsm S i, nodes (g_raft S) i) = Some (r, rf)"
  shows "\<exists>S'. shard_group_run blen n gid mx S' \<and> nodes (g_raft S') = (nodes (g_raft S))(i := rf) \<and>
    net (g_raft S') = net (g_raft S) \<and> g_rsm S' = (g_rsm S)(i := r) \<and> g_applyCh S' = (g_applyCh S)(i := ms)"
  using group_reachable.step [OF assms(1) group_step.read [OF assms(2-4)]]
  by (intro exI conjI) (assumption, simp_all)

lemma group_restarts:
  assumes "shard_group_run blen n gid mx S" and "i < n" and "persisted (nodes (g_raft S) i)"
  shows "\<exists>S' rf. shard_group_run blen n gid mx S' \<and> nodes (g_raft S') = (nodes (g_raft S))(i := rf) \<and>
    net (g_raft S') = net (g_raft S) \<and> g_rsm S' = (g_rsm S)(i := RSM_New (ShardGroup_New gid) mx) \<and>
    g_applyCh S' = (g_applyCh S)(i := []) \<and>
    Make demo_clock (peers (nodes (g_raft S) i)) (int i) (persister (nodes (g_raft S) i)) = Some rf"
proof -
  obtain rf where "Make demo_clock (peers (nodes (g_raft S) i)) (int i) (persister (nodes (g_raft S) i)) = Some rf"
    using Make_persisted [OF assms(3)] by blast
  from group_reachable.step [OF assms(1) group_step.crash [OF assms(2) this]] this show ?thesis
    by (intro exI conjI) (assumption, simp_all)
qed

lemma group_moves:
  assumes "shard_group_run blen n gid mx S" and "rtranclp (net_step n) (g_raft S) C"
  shows "\<exists>S'. shard_group_run blen n gid mx S' \<and> g_raft S' = C \<and> g_rsm S' = g_rsm S \<and> g_applyCh S' = g_applyCh S"
  using group_raft_steps [OF assms(2,1) refl] by (intro exI conjI) (assumption, simp_all)

definition second_op :: Op where
  "second_op = \<lparr>op_ID = 6, op_Payload = GetOp \<lparr>ga_Key = ''Q''\<rparr>\<rparr>"

lemma second_reads:
  assumes "wf_group sg"
  shows "\<exists>rep. ShardGroup_DoOp (op_Payload second_op) sg = Some (rep, sg)"
  using assms by (simp add: second_op_def ShardGroup_DoOp_def doGet_eq)

abbreviation demo_read :: "Op ApplyMsg \<Rightarrow> ShardGroup rsm \<times> Op raft \<Rightarrow> (ShardGroup rsm \<times> Op raft) option" where
  "demo_read \<equiv> reader_msg ShardGroup_DoOp ShardGroup_Snapshot ShardGroup_Restore (\<lambda>_. 0)"

lemma first_read:
  assumes "rsm_sm r = ShardGroup_New 7" and "rsm_maxraftstate r = 0" and "rsm_notify r = []"
    and "rlog rf = two_log c d" and "lastIncludedIndex rf = 0"
  shows "\<exists>rf'. demo_read (CommandMsg (Some demo_op) 1) (r, rf) = Some (r\<lparr>rsm_sm := demo_group, rsm_lastApplied := 1\<rparr>, rf') \<and>
    rlog rf' = [dummyEntry 1 1, two_entry d] \<and> lastIncludedIndex rf' = 1 \<and> lastIncludedTerm rf' = 1 \<and>
    persisted rf' \<and> currentTerm rf' = currentTerm rf"
  using two_compact [OF assms(4,5), of "Some (ShardGroup_Snapshot demo_group)"] assms(1-3)
  by (auto simp: reader_msg_def reader_command_def demo_op_def demo_ops PersistBytes_def)

lemma second_read:
  assumes "wf_group (rsm_sm r)" and "rsm_maxraftstate r = 0" and "rsm_notify r = []"
    and "rlog rf = [dummyEntry 1 1, two_entry d]" and "lastIncludedIndex rf = 1"
  shows "\<exists>rf'. demo_read (CommandMsg (Some second_op) 2) (r, rf) = Some (r\<lparr>rsm_lastApplied := 2\<rparr>, rf')"
proof -
  obtain rep where "ShardGroup_DoOp (op_Payload second_op) (rsm_sm r) = Some (rep, rsm_sm r)"
    using second_reads [OF assms(1)] by blast
  with two_compact2 [OF assms(4,5), of "Some (ShardGroup_Snapshot (rsm_sm r))"] assms(2,3) show ?thesis
    by (auto simp: reader_msg_def reader_command_def PersistBytes_def)
qed

text \<open>Both operations are submitted, committed and known to be committed at peer 1.\<close>

lemma two_submitted:
  "\<exists>S. shard_group_run (\<lambda>_. 0) 3 7 0 S \<and> nodes (g_raft S) 0 = two_committer demo_op second_op \<and>
     nodes (g_raft S) 1 = two_store2 demo_op second_op \<and> AppendReq 0 1 two_beat \<in> net (g_raft S) \<and>
     g_rsm S = (\<lambda>_. RSM_New (ShardGroup_New 7) 0) \<and> g_applyCh S = (\<lambda>_. [])"
proof -
  let ?step = "group_step ShardGroup_DoOp ShardGroup_Snapshot ShardGroup_Restore (\<lambda>_. 0) 3 (ShardGroup_New 7) 0"
  let ?new = "RSM_New (ShardGroup_New 7) 0"
  define S0 where "S0 = demo_group_start\<lparr>g_rsm := (\<lambda>_. ?new)\<rparr>"
  have "initial 3 (demo_start :: Op cluster)" by (rule demo_initial)
  then have "group_start 3 (ShardGroup_New 7) 0 S0"
    by (simp add: group_start_def S0_def demo_group_start_def)
  then have r0: "shard_group_run (\<lambda>_. 0) 3 7 0 S0" by (rule group_reachable.start)
  obtain C1 :: "Op cluster" where c1: "rtranclp (net_step 3) demo_start C1" "nodes C1 0 = demo_leader" "nodes C1 1 = demo_voter"
    using run_elected by blast
  define S1 where "S1 = S0\<lparr>g_raft := C1\<rparr>"
  have r1: "shard_group_run (\<lambda>_. 0) 3 7 0 S1"
    unfolding S1_def by (rule group_raft_steps [OF c1(1) r0]) (simp add: S0_def demo_group_start_def)
  have f1: "g_raft S1 = C1" "g_ops S1 = Map.empty" "g_rsm S1 = (\<lambda>_. ?new)" "g_applyCh S1 = (\<lambda>_. [])"
    by (simp_all add: S1_def S0_def demo_group_start_def)
  define S2 where "S2 = submitted 0 5 demo_install (Inr demo_pending) (run_proposer demo_op) S1"
  have "?step S1 S2" unfolding S2_def by (rule group_step.submit) (simp_all add: f1 c1 demo_submit_start)
  with r1 have r2: "shard_group_run (\<lambda>_. 0) 3 7 0 S2" by (rule group_reachable.step)
  have f2: "nodes (g_raft S2) 0 = run_proposer demo_op" "nodes (g_raft S2) 1 = demo_voter" "g_ops S2 6 = None"
    "g_rsm S2 = (\<lambda>_. ?new)" "g_applyCh S2 = (\<lambda>_. [])"
    by (simp_all add: S2_def submitted_def f1 c1 del: One_nat_def)
  have start: "Submit_start 6 (op_Payload second_op) (Some (run_proposer demo_op)) =
      (Inr \<lparr>pd_id = 6, pd_index = 2, pd_term = 1\<rparr>, Some (two_proposer demo_op second_op))"
    using two_propose [of second_op demo_op] by (simp add: Submit_start_def second_op_def)
  define S3 where "S3 = submitted 0 6 (op_Payload second_op) (Inr \<lparr>pd_id = 6, pd_index = 2, pd_term = 1\<rparr>)
      (two_proposer demo_op second_op) S2"
  have "?step S2 S3" unfolding S3_def by (rule group_step.submit) (simp_all add: f2 start)
  with r2 have r3: "shard_group_run (\<lambda>_. 0) 3 7 0 S3" by (rule group_reachable.step)
  have f3: "nodes (g_raft S3) 0 = two_proposer demo_op second_op" "nodes (g_raft S3) 1 = demo_voter"
    "g_rsm S3 = (\<lambda>_. ?new)" "g_applyCh S3 = (\<lambda>_. [])"
    by (simp_all add: S3_def submitted_def f2 del: One_nat_def)
  obtain C where "rtranclp (net_step 3) (g_raft S3) C" "nodes C 0 = two_committer demo_op second_op"
    "nodes C 1 = two_store2 demo_op second_op" "AppendReq 0 1 two_beat \<in> net C"
    using two_run [OF f3(1,2)] by blast
  with group_moves [OF r3] f3(3,4) show ?thesis by metis
qed

text \<open>Peer 1 applies the first operation, compacts it away, restarts and applies the second.\<close>

lemma peer1_restarted:
  "\<exists>S r1. shard_group_run (\<lambda>_. 0) 3 7 0 S \<and> nodes (g_raft S) 0 = two_committer demo_op second_op \<and>
     g_rsm S = (\<lambda>_. RSM_New (ShardGroup_New 7) 0)(1 := r1) \<and> g_applyCh S 0 = [] \<and>
     rsm_lastApplied r1 = 2 \<and> rsm_sm r1 = ShardGroup_New 7"
proof -
  let ?run = "shard_group_run (\<lambda>_. 0) 3 7 0" and ?new = "RSM_New (ShardGroup_New 7) 0"
  let ?m1 = "CommandMsg (Some demo_op) 1" and ?m2 = "CommandMsg (Some second_op) 2"
  note new = RSM_New_def
  obtain S0 where S0: "?run S0" "nodes (g_raft S0) 0 = two_committer demo_op second_op"
     "nodes (g_raft S0) 1 = two_store2 demo_op second_op" "AppendReq 0 1 two_beat \<in> net (g_raft S0)"
     "g_rsm S0 = (\<lambda>_. ?new)" "g_applyCh S0 = (\<lambda>_. [])"
    using two_submitted by blast
  let ?rf0 = "(two_store2 demo_op second_op)\<lparr>lastApplied := 2\<rparr>"
  have "applier (nodes (g_raft S0) 1) = Some ([?m1, ?m2], ?rf0)" by (simp only: S0(3)) (rule two_apply; simp)
  from group_applies [OF S0(1) _ this] obtain S1 where S1: "?run S1" "nodes (g_raft S1) = (nodes (g_raft S0))(1 := ?rf0)"
    "net (g_raft S1) = net (g_raft S0)" "g_rsm S1 = (\<lambda>_. ?new)" "g_applyCh S1 = (\<lambda>_. [])(1 := [?m1, ?m2])"
    using S0(5,6) by auto
  obtain rf1 where rf1: "demo_read ?m1 (?new, ?rf0) = Some (?new\<lparr>rsm_sm := demo_group, rsm_lastApplied := 1\<rparr>, rf1)"
    "rlog rf1 = [dummyEntry 1 1, two_entry second_op]" "lastIncludedIndex rf1 = 1" "lastIncludedTerm rf1 = 1"
    "persisted rf1" "currentTerm rf1 = 1"
    using first_read [of ?new ?rf0 demo_op second_op] by (auto simp: new)
  from S1(2,4,5) rf1(1) have "demo_read ?m1 (g_rsm S1 1, nodes (g_raft S1) 1) = Some (?new\<lparr>rsm_sm := demo_group, rsm_lastApplied := 1\<rparr>, rf1)"
    by simp
  from group_reads [OF S1(1) _ _ this, of "[?m2]"] obtain S2 where S2: "?run S2"
    "nodes (g_raft S2) = (nodes (g_raft S0))(1 := rf1)" "net (g_raft S2) = net (g_raft S0)"
    "g_rsm S2 = (\<lambda>_. ?new)(1 := ?new\<lparr>rsm_sm := demo_group, rsm_lastApplied := 1\<rparr>)" "g_applyCh S2 = (\<lambda>_. [])(1 := [?m2])"
    using S1(2-5) by auto
  from group_restarts [OF S2(1), of 1] rf1(5) S2(2-5) obtain S3 rf3 where S3: "?run S3"
    "nodes (g_raft S3) = (nodes (g_raft S0))(1 := rf3)" "net (g_raft S3) = net (g_raft S0)"
    "g_rsm S3 = (\<lambda>_. ?new)" "g_applyCh S3 = (\<lambda>_. [])" "Make demo_clock (peers rf1) 1 (persister rf1) = Some rf3"
    by auto
  have rf3: "rlog rf3 = [dummyEntry 1 1, two_entry second_op]" "lastIncludedIndex rf3 = 1" "lastIncludedTerm rf3 = 1"
    "currentTerm rf3 = 1" "commitIndex rf3 = 1" "lastApplied rf3 = 1" "role rf3 = Follower" "\<not> dead rf3"
    "\<not> pendingSnapshotValid rf3"
    using Make_persisted [OF rf1(5), of demo_clock "peers rf1" 1] S3(6) rf1(2-4,6) by auto
  obtain rep rf4 where rf4: "AppendEntries demo_clock two_beat rf3 = Some (rep, rf4)"
    "applier rf4 = Some ([?m2], rf4\<lparr>lastApplied := 2\<rparr>)" "rlog rf4 = [dummyEntry 1 1, two_entry second_op]"
    "lastIncludedIndex rf4 = 1"
    using restarted_follows [OF rf3] by blast
  have "net_step 3 (g_raft S3) (moveTo 1 rf4 {AppendRep 0 1 two_beat rep} (g_raft S3))"
    by (rule net_step.append [where ck = demo_clock]) (use S0(4) S3(2,3) rf4(1) in simp_all)
  from group_moves [OF S3(1) r_into_rtranclp, OF this] obtain S4 where S4: "?run S4"
    "nodes (g_raft S4) = (nodes (g_raft S0))(1 := rf4)" "g_rsm S4 = (\<lambda>_. ?new)" "g_applyCh S4 = (\<lambda>_. [])"
    using S3(2,4,5) by auto
  from group_applies [OF S4(1), of 1] rf4(2) S4(2-4) obtain S5 where S5: "?run S5"
    "nodes (g_raft S5) = (nodes (g_raft S0))(1 := rf4\<lparr>lastApplied := 2\<rparr>)" "g_rsm S5 = (\<lambda>_. ?new)" "g_applyCh S5 = (\<lambda>_. [])(1 := [?m2])"
    by auto
  obtain rf5 where "demo_read ?m2 (?new, rf4\<lparr>lastApplied := 2\<rparr>) = Some (?new\<lparr>rsm_lastApplied := 2\<rparr>, rf5)"
    using second_read [of ?new "rf4\<lparr>lastApplied := 2\<rparr>"] rf4(3,4) by (auto simp: new wf_group_New)
  then have "demo_read ?m2 (g_rsm S5 1, nodes (g_raft S5) 1) = Some (?new\<lparr>rsm_lastApplied := 2\<rparr>, rf5)"
    using S5(2,3) by simp
  from group_reads [OF S5(1) _ _ this, of "[]"] obtain S6 where "?run S6" "nodes (g_raft S6) = (nodes (g_raft S0))(1 := rf5)"
    "g_rsm S6 = (\<lambda>_. ?new)(1 := ?new\<lparr>rsm_lastApplied := 2\<rparr>)" "g_applyCh S6 = (\<lambda>_. [])"
    using S5(2-4) by auto
  with S0(2) show ?thesis
    by (intro exI [where x = S6] exI [where x = "?new\<lparr>rsm_lastApplied := 2\<rparr>"]) (simp add: new)
qed


end
