(* ===== verification/Spec2Isabelle.thy ===== *)
theory Spec2Isabelle
  imports KVProperties ShardProperties RaftProperties NoPanic GroupProperties ControllerProperties ProcessProperties RestartDemo
begin

text \<open>
  A model of the distributed key/value store under \<open>src/DistributedKeyValueStore\<close> and the theorems
  that make it correct.

  \<^bold>\<open>The program.\<close> A group of servers runs \<open>kvraftd\<close>: each process has a Raft peer (\<open>internal/raft\<close>), a
  shard group as its state machine (\<open>internal/shardgrp\<close>), and between them a replicated state
  machine (\<open>internal/rsm\<close>) that proposes operations, applies the committed ones in order and answers
  the waiting calls. A single \<open>kvsrvd\<close> (\<open>internal/kvsrv\<close>) holds the configuration: which group owns
  which of the ten shards. The shard controller (\<open>internal/shardctrler\<close>, \<open>cmd/shardctrlrd\<close>) changes it
  under a lock made of versioned puts, moving the data of a shard by freeze, install and delete. Clients
  (\<open>internal/shardkv\<close>, \<open>cmd/dkv-client\<close>) read the configuration and talk to the owning group through
  its clerk. Calls travel over \<open>internal/transport\<close>; Raft's state is kept by \<open>internal/persist\<close>.

  \<^bold>\<open>Conventions.\<close> A handler that runs under a mutex is a function from the state to the new state and its
  reply; the goroutines of the code are separate steps of a step relation. \<open>None\<close> is a panic of a
  handler, and, in a client's loop (\<open>partial_function\<close>), a loop that never returns. Go's \<open>int\<close> is
  \<open>int\<close>, its \<open>uint64\<close> versions are \<open>64 word\<close>. The network is a function argument of every client.

  \<^bold>\<open>The theories, and the code they translate.\<close>
  \<^item> \<open>Prelude\<close>: Go slices with their panics, clocks, majorities (\<open>quorum_system\<close>).
  \<^item> \<open>Core\<close>: the types of \<open>internal/core\<close>, gob streams as lists of values, the order of log positions.
  \<^item> \<open>Persist\<close>: the \<open>Persister\<close> interface as the locale \<open>persister_spec\<close>, and its two implementations.
  \<^item> \<open>StateMachine\<close>: the interface \<open>core.StateMachine\<close> as the locale \<open>state_machine\<close>: replaying a log is
    deterministic and a snapshot stands for the log before it.
  \<^item> \<open>KVServer\<close>: \<open>kvsrv/server.go\<close>, with the locale \<open>versioned_store\<close> (at-most-once puts);
    \<open>KVClerk\<close>: \<open>kvsrv/client.go\<close> and a network that loses, repeats and interleaves;
    \<open>KVLock\<close>: \<open>kvsrv/lock.go\<close> as code and as a system of many clients, with its invariant.
  \<^item> \<open>RaftNode\<close>, \<open>RaftElection\<close>, \<open>RaftReplication\<close>: \<open>raft/raft.go\<close>, \<open>election.go\<close>, \<open>replication.go\<close> and
    \<open>persist.go\<close>, one definition per critical section; \<open>RaftLocal\<close>, \<open>RaftLocalRepl\<close>: closed forms of
    their loops and the cases each section ends in; \<open>RaftCluster\<close>: any number of peers over a network
    that keeps every message, with crashes and restarts; \<open>ElectionSafety\<close>: the invariant behind one
    leader per term.
  \<^item> \<open>LogMatching\<close>: terms and agreement of logs; \<open>AbstractRaft\<close>, \<open>AbstractSafety\<close>: replicated logs with
    votes, acknowledgements and commit points as sets, and why they are safe; \<open>WholeLog\<close>: the log of a
    peer with its compacted part put back; \<open>LogRefinement\<close>: every step of \<open>RaftCluster\<close> is one of
    \<open>AbstractRaft\<close>; \<open>LogSafety\<close>: state machine safety, leader completeness, log matching; \<open>LogShape\<close>,
    \<open>NoPanic\<close>: the shape of a peer's state and that no slice index leaves its bounds; \<open>RaftDemo\<close>: a
    concrete run for the witnesses; \<open>RaftProperties\<close>: the claims about single sections.
  \<^item> \<open>RSM\<close>: \<open>rsm/rsm.go\<close>, channels as cells of a heap, every interleaving of its sections;
    \<open>RaftSnapshots\<close>: where the snapshots of a group come from; \<open>ReplicaGroup\<close>: Raft peers, their RSMs, the
    channels between them and the calls of \<open>Submit\<close> as one system; \<open>GroupHistory\<close>, \<open>GroupInvariant\<close>,
    \<open>GroupSafety\<close>: the one order of operations behind all replicas and answers; \<open>GroupProperties\<close>: that
    a group is linearizable.
  \<^item> \<open>ShardGroup\<close>: \<open>shardgrp/server.go\<close>; \<open>ShardClerk\<close>: \<open>shardgrp/client.go\<close>; \<open>ConfigJSON\<close>: the JSON text of
    a configuration; \<open>GoStrings\<close>: \<open>strings.Split\<close>, \<open>TrimSpace\<close>, \<open>strconv.Atoi\<close>; \<open>ShardController\<close>:
    \<open>shardctrler/controller.go\<close>; \<open>ShardKV\<close>: \<open>shardkv/client.go\<close> and \<open>cmd/dkv-client\<close>; \<open>Transport\<close>:
    \<open>transport/grpc.go\<close> and \<open>local.go\<close>.
  \<^item> \<open>ShardWorld\<close>: the configuration server and all groups behind a lossy network; \<open>ShardMigration\<close>: what
    a configuration change does to them.
  \<^item> The processes. \<open>Metrics\<close>: \<open>internal/metrics\<close>; \<open>Processes\<close>: \<open>cmd/kvraftd\<close>, \<open>cmd/kvsrvd\<close> and
    \<open>transport.StartServer\<close>; \<open>ShardCtrlrd\<close>: \<open>cmd/shardctrlrd\<close>; \<open>ProcessProperties\<close>: that processes form
    a group and that a restarted process is its crash step; \<open>ControllerProperties\<close>: what a start of the
    controller does to a deployment.
  \<^item> \<open>KVProperties\<close>, \<open>ShardProperties\<close> and this theory: the remaining claims, each after the sentence
    that states it and followed by a witness at a concrete input.

  \<^bold>\<open>What is proved.\<close> Of Raft: at most one leader per term, terms that never go back, votes that are never
  changed and durable before they are answered; every step refines replicated logs, so that logs match,
  a leader holds all that is committed and no two state machines are sent different commands for an
  index; no section panics, whatever messages it handles. Of a group of replicas: as long as no peer
  with a compacted log restarts, it is linearizable (one order of operations gives every answered call
  its reply and respects real time) and replicas that applied equally much are equal; without that
  proviso it is false, since a restarted peer does not restore its snapshot (\<open>RestartDemo\<close> is such a run). Processes started by
  \<open>kvraftd\<close> are such a group. Of the stores and clients: at-most-once puts, what a clerk's answer means,
  mutual exclusion of the lock, the invariant of a shard group and what freeze, install and delete
  promise. Of the controller: a configuration change over a lossy network moves all data and publishes
  the configuration, its process sets up an empty deployment, follows the flags and then rests, and it
  hangs when a predecessor died with the lock. Also the round trips of snapshots, of the persisters
  and of the configuration's text, and other places where the code does not do what its documentation
  says.

  \<^bold>\<open>Bounds and termination.\<close> The loops over indexes are total functions with a measure. The retry loops of
  clients are partial functions; the theorems about them say that they return for every finite
  script of lost calls, after which every call is delivered. No fuel is used.

  \<^bold>\<open>Not modelled.\<close> The parsing of flags, the HTTP server for the metrics, logging and signals; timers (a
  step may happen at any time); the byte format of gob (its length is the parameter \<open>blen\<close>); and the
  overflow of terms, indexes and configuration numbers. What the libraries underneath do is an
  argument: \<open>rpc.Dial\<close> and \<open>client.Call\<close> of the TCP transport, \<open>RegisterName\<close> and \<open>Listen\<close>, the
  registry of the metrics, system calls that fail, random bytes.
\<close>

section \<open>Replicas of a shard group: the state machine over Raft\<close>

subsection \<open>The replicas of a shard group\<close>

text \<open>
  What the reader of a replica of group \<open>gid\<close> can be sent when the committed operations are \<open>h\<close> and
  the first \<open>k\<close> of them are applied: each command is the next operation of \<open>h\<close>, and a snapshot is
  the state after the operations up to its index.
\<close>

fun delivers :: "int \<Rightarrow> Op list \<Rightarrow> int \<Rightarrow> Op ApplyMsg list \<Rightarrow> bool" where
  "delivers gid h k [] \<longleftrightarrow> True"
| "delivers gid h k (CommandMsg c i # ms) \<longleftrightarrow>
     i = k + 1 \<and> nat k < length h \<and> c = Some (h ! nat k) \<and> delivers gid h i ms"
| "delivers gid h k (SnapshotMsg d t i # ms) \<longleftrightarrow>
     0 \<le> i \<and> nat i \<le> length h \<and>
     (\<exists>m. run_ops ShardGroup_DoOp (map op_Payload (take (nat i) h)) (ShardGroup_New gid) = Some m \<and>
        slice d = ShardGroup_Snapshot m) \<and> delivers gid h (max k i) ms"

lemma delivers_follows: "delivers gid h k ms = sg_sm.follows h (ShardGroup_New gid) k ms"
  by (induction gid h k ms rule: delivers.induct) (simp_all add: sg_sm.after_def)

text \<open>A replica refines the history: whatever mixture of committed commands and snapshots it is sent,
  its shard group is in the state that the committed operations up to \<open>lastApplied\<close> compute from a
  new group, so two replicas that have applied equally much are in the same state.\<close>

theorem replica_follows_history:
  assumes "delivers gid h 0 ms"
    and "reader_msgs ShardGroup_DoOp ShardGroup_Snapshot ShardGroup_Restore blen ms
      (RSM_New (ShardGroup_New gid) k, rf) = Some (r, rf')"
  shows "run_ops ShardGroup_DoOp (map op_Payload (take (nat (rsm_lastApplied r)) h)) (ShardGroup_New gid) =
    Some (rsm_sm r)"
proof -
  have "sg_sm.in_step h (ShardGroup_New gid) r"
    by (rule sg_sm.reader_refines [OF wf_group_New _ _ assms(2)])
      (use assms(1) in \<open>simp_all add: delivers_follows RSM_New_def sg_sm.in_step_def sg_sm.after_def\<close>)
  then show ?thesis by (simp add: sg_sm.in_step_def sg_sm.after_def)
qed

definition demo_replica :: "Op raft" where
  "demo_replica = the (Make demo_clock demo_addrs 0 NewMemoryPersister)"

lemma demo_read: "reader_msgs ShardGroup_DoOp ShardGroup_Snapshot ShardGroup_Restore (\<lambda>_. 0)
    [CommandMsg (Some demo_op) 1] (RSM_New (ShardGroup_New 7) (-1), demo_replica) =
  Some ((RSM_New (ShardGroup_New 7) (-1))\<lparr>rsm_sm := demo_group, rsm_lastApplied := 1\<rparr>, demo_replica)"
  by (simp add: reader_msg_def reader_command_def demo_op_def demo_ops RSM_New_def)

lemma replica_follows_history_witness:
  "run_ops ShardGroup_DoOp (map op_Payload [demo_op]) (ShardGroup_New 7) = Some demo_group"
  using replica_follows_history [OF _ demo_read, of "[demo_op]"] by simp

text \<open>C15: \<open>Submit\<close> answers with the result of its own operation only: in every interleaving of calls, the
  reader and its end, a reply that a call returns without an error is the result of applying an
  operation with the identifier the call drew.\<close>

theorem submit_answers_own_operation:
  assumes "rsm_run ShardGroup_DoOp ShardGroup_Snapshot ShardGroup_Restore blen r H"
    and "ch < length (rsm_chans r)" and "Submit_receive p ch r = Some (Inr rep, r')" and "pd_id p \<noteq> -1"
  shows "\<exists>idx op. (idx, op, rep) \<in> H \<and> op_ID op = pd_id p"
proof -
  have "rsm_chans r ! ch = Some (pd_id p, rep)"
    using assms(3) by (auto simp: Submit_receive_def split: option.splits prod.splits if_splits)
  with rsm_run_answers [OF assms(1)] assms(2,4) show ?thesis unfolding answers_ok_def by blast
qed

lemma submit_answers_witness:
  "\<exists>r r' H. rsm_run ShardGroup_DoOp ShardGroup_Snapshot ShardGroup_Restore (\<lambda>_. 0) r H \<and>
     Submit_receive demo_pending 0 r = Some (Inr (InstallRep \<lparr>ir_Err = OK\<rparr>), r') \<and>
     (\<exists>idx op. (idx, op, InstallRep \<lparr>ir_Err = OK\<rparr>) \<in> H \<and> op_ID op = 5)"
proof -
  let ?run = "rsm_run ShardGroup_DoOp ShardGroup_Snapshot ShardGroup_Restore (\<lambda>_. 0)"
  define r1 where "r1 = snd (Submit_register demo_pending (RSM_New (ShardGroup_New 7) (-1)))"
  define r2 where "r2 = r1\<lparr>rsm_sm := demo_group, rsm_lastApplied := 1, rsm_chans := [Some (5, InstallRep \<lparr>ir_Err = OK\<rparr>)]\<rparr>"
  have r1: "?run r1 {}" unfolding r1_def by (intro rsm_run.register rsm_run.new)
  have sm: "rsm_sm r1 = ShardGroup_New 7" by (simp add: r1_def Submit_register_def RSM_New_def Let_def)
  have "reader_command ShardGroup_DoOp ShardGroup_Snapshot (\<lambda>_. 0) demo_op 1 (r1, demo_replica) = Some (r2, demo_replica)"
    by (simp add: r2_def r1_def reader_command_def demo_op_def demo_ops Submit_register_def RSM_New_def
        Let_def demo_pending_def trySend_def)
  then have r2: "?run r2 {(1, demo_op, InstallRep \<lparr>ir_Err = OK\<rparr>)}"
    by (rule rsm_run.command [OF r1]) (simp add: demo_op_def sm demo_ops)
  have ch: "0 < length (rsm_chans r2)" by (simp add: r2_def)
  have rcv: "Submit_receive demo_pending 0 r2 = Some (Inr (InstallRep \<lparr>ir_Err = OK\<rparr>),
      Submit_leave demo_pending (r2\<lparr>rsm_chans := (rsm_chans r2)[0 := None]\<rparr>))"
    by (simp add: Submit_receive_def r2_def demo_pending_def)
  have "\<exists>idx op. (idx, op, InstallRep \<lparr>ir_Err = OK\<rparr>) \<in> {(1 :: int, demo_op, InstallRep \<lparr>ir_Err = OK\<rparr>)} \<and> op_ID op = 5"
    using submit_answers_own_operation [OF r2 ch rcv] by (simp add: demo_pending_def)
  with r2 rcv show ?thesis by blast
qed

text \<open>\<open>Submit\<close> registers its channel after \<open>Start\<close> has proposed the operation: when the operation is
  applied in between, no command that the reader applies later answers the call, which then ends
  only when the peer stops leading the term.\<close>

theorem late_registration_waits:
  assumes "Submit_register p r = (ch, r1)" and "\<forall>(i, c)\<in>set (rsm_notify r). c < length (rsm_chans r)"
    and "\<forall>m\<in>set ms. \<exists>c i. m = CommandMsg c i \<and> pd_index p < i"
    and "reader_msgs doop snapshot restore blen ms (r1, rf) = Some (r2, rf')"
  shows "Submit_receive p ch r2 = None"
proof -
  define ok where "ok q \<longleftrightarrow> ch < length (rsm_chans q) \<and> rsm_chans q ! ch = None \<and>
    (\<forall>idx. map_of (rsm_notify q) idx = Some ch \<longrightarrow> idx \<le> pd_index p)" for q :: "'a rsm"
  have "idx \<le> pd_index p" if "map_of (rsm_notify r1) idx = Some ch" for idx
  proof (cases "idx = pd_index p")
    case False
    with that assms(1) have "map_of (rsm_notify r) idx = Some (length (rsm_chans r))"
      by (auto simp: Submit_register_def Let_def update_conv')
    with assms(2) show ?thesis by (auto dest: map_of_SomeD)
  qed simp
  then have ok1: "ok r1"
    using assms(1) by (auto simp: ok_def Submit_register_def Let_def nth_append)
  have "ok r2" using assms(4) ok1 assms(3)
  proof (induction ms arbitrary: r1 rf)
    case (Cons m ms)
    from Cons.prems(3) obtain c i where m: "m = CommandMsg c i" "pd_index p < i" by auto
    from Cons.prems(1) obtain q qf where st: "reader_msg doop snapshot restore blen m (r1, rf) = Some (q, qf)"
      "reader_msgs doop snapshot restore blen ms (q, qf) = Some (r2, rf')"
      by (auto split: Option.bind_splits)
    have "ok q"
    proof (cases c)
      case None
      with st(1) m Cons.prems(2) show ?thesis by (simp add: reader_msg_def)
    next
      case (Some op)
      with st(1) m have "reader_command doop snapshot blen op i (r1, rf) = Some (q, qf)"
        by (simp add: reader_msg_def)
      from late_registration [OF _ _ _ m(2) this, of ch] Cons.prems(2) show ?thesis
        by (simp add: ok_def)
    qed
    with Cons.IH [OF st(2)] Cons.prems(3) show ?case by simp
  qed simp
  then show ?thesis by (simp add: ok_def Submit_receive_def)
qed

lemma late_registration_witness:
  "Submit_receive demo_pending 0 (snd (Submit_register demo_pending
     ((RSM_New (ShardGroup_New 7) (-1))\<lparr>rsm_sm := demo_group, rsm_lastApplied := 1\<rparr>))) = None"
  using late_registration_waits [of demo_pending
      "(RSM_New (ShardGroup_New 7) (-1))\<lparr>rsm_sm := demo_group, rsm_lastApplied := 1\<rparr>" 0
      "snd (Submit_register demo_pending ((RSM_New (ShardGroup_New 7) (-1))\<lparr>rsm_sm := demo_group, rsm_lastApplied := 1\<rparr>))"
      "[]" ShardGroup_DoOp ShardGroup_Snapshot ShardGroup_Restore "\<lambda>_. 0" demo_replica _ demo_replica]
  by (simp add: Submit_register_def RSM_New_def Let_def)

lemma applyLoop_later:
  "applyLoop rf = Some (msgs, rf') \<Longrightarrow> m \<in> set msgs \<Longrightarrow> \<exists>c i. m = CommandMsg c i \<and> lastApplied rf < i"
proof (induction rf arbitrary: msgs rf' rule: applyLoop.induct)
  case (1 rf)
  show ?case
  proof (cases "lastApplied rf < commitIndex rf")
    case False
    with "1.prems" show ?thesis by (simp add: applyLoop.simps [of rf])
  next
    case True
    let ?rf = "rf\<lparr>lastApplied := lastApplied rf + 1\<rparr>"
    show ?thesis
    proof (cases "lastApplied ?rf \<le> lastIncludedIndex ?rf")
      case le: True
      with True "1.prems"(1) have "applyLoop ?rf = Some (msgs, rf')"
        by (subst (asm) applyLoop.simps) (simp add: Let_def)
      from "1.IH"(1) [OF True refl refl le this "1.prems"(2)] show ?thesis by auto
    next
      case gt: False
      from True gt "1.prems"(1) obtain e ms where e: "getLogEntry (lastApplied ?rf) ?rf = Some e"
        and ms: "applyLoop ?rf = Some (ms, rf')" "msgs = CommandMsg (le_Command e) (lastApplied ?rf) # ms"
        by (subst (asm) applyLoop.simps) (auto simp: Let_def split: if_splits Option.bind_splits)
      show ?thesis
      proof (cases "m \<in> set ms")
        case True
        from "1.IH"(2) [OF \<open>lastApplied rf < commitIndex rf\<close> refl refl gt e ms(1) True] show ?thesis by auto
      qed (use ms(2) "1.prems"(2) in auto)
    qed
  qed
qed

text \<open>A replica that restarts after it compacted its log is not given its own snapshot: the new Raft
  peer has nothing pending, stands at the snapshot's index, and whatever it commits later delivers
  commands beyond that index only, while the state machine beside it is a new, empty one.\<close>

theorem restart_skips_snapshot:
  assumes "persisted rf" and "Make ck ps i (persister rf) = Some rf'"
    and "applier (rf'\<lparr>commitIndex := c\<rparr>) = Some (msgs, rf'')"
  shows "\<not> pendingSnapshotValid rf' \<and> lastApplied rf' = lastIncludedIndex rf \<and>
    (\<forall>m\<in>set msgs. \<exists>c i. m = CommandMsg c i \<and> lastIncludedIndex rf < i)"
proof -
  from Make_persisted [OF assms(1), of ck ps i] assms(2)
  have mk: "\<not> pendingSnapshotValid rf'" "lastApplied rf' = lastIncludedIndex rf" by auto
  have "msgs = [] \<or> applyLoop (rf'\<lparr>commitIndex := c\<rparr>) = Some (msgs, rf'')"
    using assms(3) mk(1) by (auto simp: applier_def split: if_splits)
  then have "\<forall>m\<in>set msgs. \<exists>c i. m = CommandMsg c i \<and> lastIncludedIndex rf < i"
    using applyLoop_later [of "rf'\<lparr>commitIndex := c\<rparr>" msgs rf''] mk(2) by auto
  with mk show ?thesis by blast
qed

text \<open>A replica of group 7 that compacted the install of shard 1 away.\<close>

definition demo_compacted :: "Op raft" where
  "demo_compacted = (let rf = demo_replica\<lparr>currentTerm := 1, rlog := [dummyEntry 1 1], lastIncludedIndex := 1,
       lastIncludedTerm := 1, commitIndex := 1, lastApplied := 1\<rparr>
     in rf\<lparr>persister := Mem_Save (serializeState rf) (Some (ShardGroup_Snapshot demo_group)) (persister rf)\<rparr>)"

lemma restart_skips_witness:
  "\<exists>rf'. Make demo_clock demo_addrs 0 (persister demo_compacted) = Some rf' \<and> lastApplied rf' = 1 \<and>
     applier rf' = Some ([], rf') \<and>
     ShardGroup_DoOp (GetOp \<lparr>ga_Key = ''Q''\<rparr>) (rsm_sm (RSM_New (ShardGroup_New 7) 1000)) \<noteq>
       ShardGroup_DoOp (GetOp \<lparr>ga_Key = ''Q''\<rparr>) demo_group"
proof -
  have p: "persisted demo_compacted" by (simp add: demo_compacted_def Let_def)
  obtain rf' where rf': "Make demo_clock demo_addrs 0 (persister demo_compacted) = Some rf'"
    "commitIndex rf' = lastIncludedIndex demo_compacted" "lastApplied rf' = lastIncludedIndex demo_compacted"
    "\<not> pendingSnapshotValid rf'"
    using Make_persisted [OF p, of demo_clock demo_addrs 0] by blast
  then have idle: "applier rf' = Some ([], rf')" by (simp add: applier_def applier_ready_def)
  then have "applier (rf'\<lparr>commitIndex := commitIndex rf'\<rparr>) = Some ([], rf')" by simp
  from restart_skips_snapshot [OF p rf'(1) this] rf'(1) idle
  have "Make demo_clock demo_addrs 0 (persister demo_compacted) = Some rf' \<and> lastApplied rf' = 1 \<and>
      applier rf' = Some ([], rf')"
    by (simp add: demo_compacted_def Let_def)
  moreover have "ShardGroup_DoOp (GetOp \<lparr>ga_Key = ''Q''\<rparr>) (rsm_sm (RSM_New (ShardGroup_New 7) 1000)) \<noteq>
       ShardGroup_DoOp (GetOp \<lparr>ga_Key = ''Q''\<rparr>) demo_group"
    using valid_nat [OF valid_1]
    by (simp add: ShardGroup_DoOp_def doGet_eq RSM_New_def get_view_def ShardGroup_New_def [of 7] wf_group_New [unfolded ShardGroup_New_def])
  ultimately show ?thesis by blast
qed

end
